(* ===== verification/Prelude.thy ===== *)
theory Prelude
  imports Main "HOL-Library.Word" "HOL-Library.Char_ord" "HOL-Library.List_Lexorder"
begin

text \<open>
  Shared by every component: the machine integer types, C++ exceptions as values, the
  decimal printing of numbers (std::to_string, the percent-d and percent-u conversions of
  snprintf), std::string::find for one character, and std::map as a list of pairs sorted
  by key. The collections \<open>map_simps\<close> and \<open>string_simps\<close> hold the rewriting the component
  theories use.
\<close>

named_theorems map_simps \<open>lookup after update, keys and order of the sorted maps\<close>
named_theorems string_simps \<open>lengths and character sets of printed text\<close>

type_synonym u32 = "32 word"
type_synonym u64 = "64 word"

section \<open>Exceptions\<close>

text \<open>
  A C++ exception, with the text its member function what() returns. The sources tell two
  classes apart: the parse_error of the JSON library, and any other std::exception.
\<close>

datatype exn = Parse_error string | Std_exception string

fun what :: "exn \<Rightarrow> string" where
  "what (Parse_error s) = s"
| "what (Std_exception s) = s"

text \<open>
  Sequencing: a call that can throw, followed by the rest of the body. The state is the one
  reached when the exception is raised: effects done before it stay.
\<close>

definition bindE :: "exn + 'a \<Rightarrow> ('a \<Rightarrow> 's \<Rightarrow> (exn + 'b) \<times> 's) \<Rightarrow> 's \<Rightarrow> (exn + 'b) \<times> 's" where
  "bindE r f s = (case r of Inl e \<Rightarrow> (Inl e, s) | Inr x \<Rightarrow> f x s)"

lemma bindE_simps [simp]:
  "bindE (Inl e) f s = (Inl e, s)"
  "bindE (Inr x) f s = f x s"
  by (simp_all add: bindE_def)

lemma bindE_split:
  "P (bindE r f s) = ((\<forall>e. r = Inl e \<longrightarrow> P (Inl e, s)) \<and> (\<forall>x. r = Inr x \<longrightarrow> P (f x s)))"
  by (cases r) auto

text \<open>The same after a call that also changed the state.\<close>

definition bindS :: "(exn + 'a) \<times> 's \<Rightarrow> ('a \<Rightarrow> 's \<Rightarrow> (exn + 'b) \<times> 's) \<Rightarrow> (exn + 'b) \<times> 's" where
  "bindS p f = bindE (fst p) f (snd p)"

lemma bindS_simps [simp]:
  "bindS (Inl e, s) f = (Inl e, s)"
  "bindS (Inr x, s) f = f x s"
  by (simp_all add: bindS_def)

lemma bindE_state: "(\<And>x s. P s \<Longrightarrow> P (snd (f x s))) \<Longrightarrow> P s \<Longrightarrow> P (snd (bindE r f s))"
  by (cases r) simp_all

lemma bindS_state:
  "(\<And>x s. P s \<Longrightarrow> P (snd (f x s))) \<Longrightarrow> P (snd p) \<Longrightarrow> P (snd (bindS p f))"
  by (simp add: bindS_def bindE_state)

section \<open>Sorted maps\<close>

text \<open>
  A std::map is the list of its pairs in key order. \<open>om_put\<close> is \<open>m[k] = v\<close>; lookup is
  \<open>map_of\<close>; iteration is in list order.
\<close>

fun om_put :: "'k::linorder \<Rightarrow> 'v \<Rightarrow> ('k \<times> 'v) list \<Rightarrow> ('k \<times> 'v) list" where
  "om_put k v [] = [(k, v)]"
| "om_put k v ((k', v') # m) =
     (if k < k' then (k, v) # (k', v') # m
      else if k = k' then (k, v) # m
      else (k', v') # om_put k v m)"

definition om_ok :: "('k::linorder \<times> 'v) list \<Rightarrow> bool" where
  "om_ok m \<longleftrightarrow> sorted_wrt (<) (map fst m)"

lemma map_of_om_put [map_simps]: "map_of (om_put k v m) = (map_of m)(k \<mapsto> v)"
  by (induction m) (auto simp: fun_eq_iff)

lemma keys_om_put [map_simps]: "fst ` set (om_put k v m) = insert k (fst ` set m)"
proof (induction m)
  case Nil
  then show ?case by simp
next
  case (Cons a m)
  then show ?case by (cases a) (simp add: insert_commute split: if_split)
qed

lemma sorted_keys_om_put: "sorted_wrt (<) (map fst m) \<Longrightarrow> sorted_wrt (<) (map fst (om_put k v m))"
proof (induction m)
  case Nil
  then show ?case by simp
next
  case (Cons a m)
  have keys: "x \<in> set (om_put k v m) \<Longrightarrow> fst x = k \<or> fst x \<in> fst ` set m" for x
    using keys_om_put [of k v m] by blast
  show ?case
    using Cons keys by (cases a) fastforce
qed

lemma om_ok_put: "om_ok m \<Longrightarrow> om_ok (om_put k v m)"
  by (simp add: om_ok_def sorted_keys_om_put)

lemma keys_om_put_mem:
  "om_ok m \<Longrightarrow> k \<in> fst ` set m \<Longrightarrow> map fst (om_put k v m) = map fst m"
proof (induction m)
  case Nil
  then show ?case by simp
next
  case (Cons a m)
  then show ?case by (cases a) (fastforce simp: om_ok_def)
qed

lemma om_put_om_put [map_simps]: "om_put k v (om_put k w m) = om_put k v m"
  by (induction m) auto

lemma om_put_same: "om_ok m \<Longrightarrow> map_of m k = Some v \<Longrightarrow> om_put k v m = m"
proof (induction m)
  case Nil
  then show ?case by simp
next
  case (Cons a m)
  have "(k, v) \<in> set m \<Longrightarrow> fst a < k"
    using Cons.prems by (auto simp: om_ok_def)
  with Cons show ?case
    by (cases a) (auto simp: om_ok_def split: if_splits dest: map_of_SomeD)
qed

text \<open>
  \<open>m[k]\<close> read or written through a reference: operator[] makes the default value when the
  key is missing. \<open>m.at(k)\<close> throws std::out_of_range instead.
\<close>

definition om_ref :: "'v \<Rightarrow> ('k \<times> 'v) list \<Rightarrow> 'k \<Rightarrow> 'v" where
  "om_ref d m k = (case map_of m k of None \<Rightarrow> d | Some v \<Rightarrow> v)"

definition om_at :: "('k \<times> 'v) list \<Rightarrow> 'k \<Rightarrow> exn + 'v" where
  "om_at m k = (case map_of m k of None \<Rightarrow> Inl (Std_exception ''map::at'') | Some v \<Rightarrow> Inr v)"

lemma om_ref_put [map_simps]: "om_ref d (om_put k v m) k' = (if k' = k then v else om_ref d m k')"
  by (simp add: om_ref_def map_of_om_put)

lemma om_ref_Some [simp]: "map_of m k = Some v \<Longrightarrow> om_ref d m k = v"
  by (simp add: om_ref_def)

lemma om_at_Some [simp]: "map_of m k = Some v \<Longrightarrow> om_at m k = Inr v"
  by (simp add: om_at_def)

text \<open>Copying a map entry by entry gives the map back, with its values changed.\<close>

lemma om_put_last: "\<forall>x \<in> set m. fst x < k \<Longrightarrow> om_put k v m = m @ [(k, v)]"
  by (induction m) auto

lemma fold_om_put_sorted:
  "sorted_wrt (<) (map fst (acc @ m)) \<Longrightarrow>
     fold (\<lambda>(k, v) a. om_put k (f v) a) m (map (\<lambda>(k, v). (k, f v)) acc) =
     map (\<lambda>(k, v). (k, f v)) (acc @ m)"
proof (induction m arbitrary: acc)
  case Nil
  then show ?case by simp
next
  case (Cons a m)
  obtain k v where a: "a = (k, v)" by (cases a)
  have "\<forall>x \<in> set (map (\<lambda>(k, v). (k, f v)) acc). fst x < k"
    using Cons.prems a by (auto simp: sorted_wrt_append)
  moreover have "sorted_wrt (<) (map fst ((acc @ [a]) @ m))" using Cons.prems by simp
  ultimately show ?case using Cons.IH [of "acc @ [a]"] a by (simp add: om_put_last)
qed

lemma om_copy: "om_ok m \<Longrightarrow> fold (\<lambda>(k, v) a. om_put k (f v) a) m [] = map (\<lambda>(k, v). (k, f v)) m"
  using fold_om_put_sorted [of "[]" m f] by (simp add: om_ok_def)

lemma om_by_keys:
  "distinct (map fst m) \<Longrightarrow> map (\<lambda>(k, v). (k, f v)) m = map (\<lambda>k. (k, f (om_ref d m k))) (map fst m)"
  by (auto simp: om_ref_def map_of_eq_Some_iff)

section \<open>Decimal text\<close>

function show_nat :: "nat \<Rightarrow> string" where
  "show_nat n =
     (if n < 10 then [''0123456789'' ! n]
      else show_nat (n div 10) @ [''0123456789'' ! (n mod 10)])"
  by pat_completeness auto
termination
  by (relation "measure id") auto

declare show_nat.simps [simp del]

definition show_int :: "int \<Rightarrow> string" where
  "show_int i = (if i < 0 then CHR ''-'' # show_nat (nat (- i)) else show_nat (nat i))"

definition digit_val :: "char \<Rightarrow> nat" where
  "digit_val c = of_char c - 48"

definition is_digit :: "char \<Rightarrow> bool" where
  "is_digit c \<longleftrightarrow> c \<in> set ''0123456789''"

definition read_nat :: "string \<Rightarrow> nat" where
  "read_nat s = foldl (\<lambda>a c. 10 * a + digit_val c) 0 s"

lemma nat_lt_10_cases:
  assumes "(n::nat) < 10"
  obtains "n = 0" | "n = 1" | "n = 2" | "n = 3" | "n = 4" | "n = 5" | "n = 6" | "n = 7" | "n = 8" | "n = 9"
proof -
  have "n = 0 \<or> n = 1 \<or> n = 2 \<or> n = 3 \<or> n = 4 \<or> n = 5 \<or> n = 6 \<or> n = 7 \<or> n = 8 \<or> n = 9"
    using assms by arith
  with that show thesis by blast
qed

lemma digit_char:
  assumes "n < 10"
  shows "is_digit (''0123456789'' ! n)" and "digit_val (''0123456789'' ! n) = n"
  using assms by (cases rule: nat_lt_10_cases; simp add: is_digit_def digit_val_def)+

lemma show_nat_digits [string_simps]: "c \<in> set (show_nat n) \<Longrightarrow> is_digit c"
proof (induction n rule: show_nat.induct)
  case (1 n)
  then show ?case
    by (cases "n < 10") (auto simp: show_nat.simps [of n] digit_char)
qed

lemma show_nat_not_Nil [simp]: "show_nat n \<noteq> []"
  by (simp add: show_nat.simps [of n])

lemma read_nat_snoc: "read_nat (s @ [c]) = 10 * read_nat s + digit_val c"
  by (simp add: read_nat_def)

lemma read_show_nat [simp]: "read_nat (show_nat n) = n"
proof (induction n rule: show_nat.induct)
  case (1 n)
  show ?case
  proof (cases "n < 10")
    case True
    then show ?thesis
      by (simp add: show_nat.simps [of n] read_nat_def digit_char)
  next
    case False
    with 1 have "read_nat (show_nat (n div 10)) = n div 10" by simp
    with False show ?thesis
      by (simp add: show_nat.simps [of n] read_nat_snoc digit_char)
  qed
qed

lemma show_nat_inj: "show_nat m = show_nat n \<Longrightarrow> m = n"
  by (metis read_show_nat)

lemma length_show_nat [string_simps]: "n < 10 ^ k \<Longrightarrow> 0 < k \<Longrightarrow> length (show_nat n) \<le> k"
proof (induction k arbitrary: n)
  case 0
  then show ?case by simp
next
  case (Suc k)
  show ?case
  proof (cases "n < 10")
    case True
    then show ?thesis by (simp add: show_nat.simps [of n])
  next
    case False
    with Suc.prems have "n div 10 < 10 ^ k" and "0 < k"
      by (auto intro: gr0I)
    then have "length (show_nat (n div 10)) \<le> k" by (rule Suc.IH)
    with False show ?thesis by (simp add: show_nat.simps [of n])
  qed
qed

lemma show_int_inj: "0 \<le> i \<Longrightarrow> 0 \<le> j \<Longrightarrow> show_int i = show_int j \<Longrightarrow> i = j"
  by (auto simp: show_int_def dest: show_nat_inj)

section \<open>Finding a character\<close>

abbreviation nl :: char where
  "nl \<equiv> CHR 0x0A"

abbreviation cr :: char where
  "cr \<equiv> CHR 0x0D"

fun find_char :: "char \<Rightarrow> string \<Rightarrow> nat option" where
  "find_char c [] = None"
| "find_char c (x # xs) = (if x = c then Some 0 else map_option Suc (find_char c xs))"

lemma find_char_None [string_simps]: "find_char c s = None \<longleftrightarrow> c \<notin> set s"
  by (induction s) auto

lemma find_char_SomeD:
  "find_char c s = Some p \<Longrightarrow>
     p < length s \<and> s = take p s @ c # drop (Suc p) s \<and> c \<notin> set (take p s)"
  by (induction s arbitrary: p) (auto split: if_splits)

lemma find_char_append: "c \<notin> set xs \<Longrightarrow> find_char c (xs @ c # ys) = Some (length xs)"
  by (induction xs) auto

end
