(* ===== verification/Relay_Controller.thy ===== *)
theory Relay_Controller
  imports Prelude
begin

text \<open>
  BaseRelayController (include/core/base_relay_controller.h, src/core/base_relay_controller.cc):
  the eight relay channels with their modes, the operations a client calls under the mutex,
  and the tick that the background thread runs. The subclass hooks initHardware and
  setRelayPhysical are the fields of a record of operations on a hardware state \<open>'hw\<close>.
\<close>

section \<open>Data\<close>

datatype relay_mode = TOGGLE | TIMER | PULSE | BLINK

record relay_state =
  mode :: relay_mode
  active :: bool
  state :: bool
  startTime :: int
  durationMs :: u64
  blinkOnMs :: u32
  blinkOffMs :: u32
  blinkCount :: u32
  blinkPhase :: bool

definition RelayState :: relay_state where
  "RelayState = \<lparr>mode = TOGGLE, active = False, state = False, startTime = 0, durationMs = 0,
     blinkOnMs = 0, blinkOffMs = 0, blinkCount = 0, blinkPhase = False\<rparr>"

record 'hw hw_ops =
  initHardware :: "'hw \<Rightarrow> bool \<times> 'hw"
  setRelayPhysical :: "int \<Rightarrow> bool \<Rightarrow> 'hw \<Rightarrow> bool \<times> 'hw"

text \<open>
  Besides the members of the class, the state holds what surrounds it: the hardware, the
  readings the steady clock will give (nanoseconds, the n-th call of now() returns
  \<open>clock n\<close>), how many were taken, and the lines written to standard output.
\<close>

record 'hw controller =
  m_relayStates :: "(int \<times> relay_state) list"
  m_running :: bool
  m_tickThread :: bool
  hw :: 'hw
  clock :: "nat \<Rightarrow> int"
  clock_reads :: nat
  out :: "string list"

definition BaseRelayController :: "'hw \<Rightarrow> (nat \<Rightarrow> int) \<Rightarrow> 'hw controller" where
  "BaseRelayController h clk =
     \<lparr>m_relayStates = fold (\<lambda>i m. om_put i RelayState m) [1..8] [],
      m_running = False, m_tickThread = False, hw = h,
      clock = clk, clock_reads = 0, out = []\<rparr>"

definition destroyController :: "'hw controller \<Rightarrow> 'hw controller" where
  "destroyController c =
     (let c1 = c\<lparr>m_running := False\<rparr>
      in if m_tickThread c1 then c1\<lparr>m_tickThread := False\<rparr> else c1)"

definition init :: "'hw hw_ops \<Rightarrow> 'hw controller \<Rightarrow> bool \<times> 'hw controller" where
  "init ops c =
     (let (ok, h) = initHardware ops (hw c); c1 = c\<lparr>hw := h\<rparr>
      in if \<not> ok then (False, c1)
         else (True, c1\<lparr>m_running := True, m_tickThread := True\<rparr>))"

section \<open>Operations\<close>

definition steady_now :: "'hw controller \<Rightarrow> int \<times> 'hw controller" where
  "steady_now c = (clock c (clock_reads c), c\<lparr>clock_reads := Suc (clock_reads c)\<rparr>)"

text \<open>duration_cast to milliseconds truncates towards zero; the count is 64 bits wide.\<close>

definition elapsed_ms :: "int \<Rightarrow> int \<Rightarrow> int" where
  "elapsed_ms now start = (let d = now - start in sgn d * (\<bar>d\<bar> div 1000000))"

text \<open>Writing through the reference \<open>m_relayStates[relayId]\<close>.\<close>

definition upd_relay :: "int \<Rightarrow> (relay_state \<Rightarrow> relay_state) \<Rightarrow> 'hw controller \<Rightarrow> 'hw controller" where
  "upd_relay relayId f c =
     c\<lparr>m_relayStates := om_put relayId (f (om_ref RelayState (m_relayStates c) relayId)) (m_relayStates c)\<rparr>"

definition setRelayInternal :: "'hw hw_ops \<Rightarrow> int \<Rightarrow> bool \<Rightarrow> 'hw controller \<Rightarrow> 'hw controller" where
  "setRelayInternal ops relayId st c =
     (let c1 = upd_relay relayId (\<lambda>rs. rs) c
      in if state (om_ref RelayState (m_relayStates c1) relayId) \<noteq> st
         then let c2 = upd_relay relayId (\<lambda>rs. rs\<lparr>state := st\<rparr>) c1;
                  (_, h) = setRelayPhysical ops relayId st (hw c2)
              in c2\<lparr>hw := h\<rparr>
         else c1)"

definition setRelay :: "'hw hw_ops \<Rightarrow> int \<Rightarrow> bool \<Rightarrow> 'hw controller \<Rightarrow> bool \<times> 'hw controller" where
  "setRelay ops relayId st c =
     (if relayId < 1 \<or> relayId > 8 then (False, c)
      else (True, setRelayInternal ops relayId st
                    (upd_relay relayId (\<lambda>rs. rs\<lparr>active := False, mode := TOGGLE\<rparr>) c)))"

definition getRelay :: "int \<Rightarrow> 'hw controller \<Rightarrow> exn + bool" where
  "getRelay relayId c =
     (if relayId < 1 \<or> relayId > 8 then Inr False
      else case om_at (m_relayStates c) relayId of Inl e \<Rightarrow> Inl e | Inr rs \<Rightarrow> Inr (state rs))"

definition getAllStates :: "'hw controller \<Rightarrow> (int \<times> bool) list" where
  "getAllStates c = fold (\<lambda>(relayId, rs) states. om_put relayId (state rs) states) (m_relayStates c) []"

definition startTimer :: "'hw hw_ops \<Rightarrow> int \<Rightarrow> u32 \<Rightarrow> 'hw controller \<Rightarrow> bool \<times> 'hw controller" where
  "startTimer ops relayId seconds c =
     (if relayId < 1 \<or> relayId > 8 then (False, c)
      else let c1 = upd_relay relayId (\<lambda>rs. rs\<lparr>mode := TIMER, active := True\<rparr>) c;
               (now, c2) = steady_now c1;
               c3 = upd_relay relayId (\<lambda>rs. rs\<lparr>startTime := now, durationMs := ucast seconds * 1000\<rparr>) c2
           in (True, setRelayInternal ops relayId True c3))"

definition startPulse :: "'hw hw_ops \<Rightarrow> int \<Rightarrow> u32 \<Rightarrow> 'hw controller \<Rightarrow> bool \<times> 'hw controller" where
  "startPulse ops relayId dur c =
     (if relayId < 1 \<or> relayId > 8 then (False, c)
      else let c1 = upd_relay relayId (\<lambda>rs. rs\<lparr>mode := PULSE, active := True\<rparr>) c;
               (now, c2) = steady_now c1;
               c3 = upd_relay relayId (\<lambda>rs. rs\<lparr>startTime := now, durationMs := ucast dur\<rparr>) c2
           in (True, setRelayInternal ops relayId True c3))"

definition startBlink ::
  "'hw hw_ops \<Rightarrow> int \<Rightarrow> u32 \<Rightarrow> u32 \<Rightarrow> u32 \<Rightarrow> 'hw controller \<Rightarrow> bool \<times> 'hw controller" where
  "startBlink ops relayId onMs offMs cnt c =
     (if relayId < 1 \<or> relayId > 8 then (False, c)
      else let c1 = upd_relay relayId (\<lambda>rs. rs\<lparr>mode := BLINK, active := True, blinkOnMs := onMs,
                      blinkOffMs := offMs, blinkCount := cnt, blinkPhase := True\<rparr>) c;
               (now, c2) = steady_now c1;
               c3 = upd_relay relayId (\<lambda>rs. rs\<lparr>startTime := now\<rparr>) c2
           in (True, setRelayInternal ops relayId True c3))"

text \<open>What is left of a timer or a pulse, in milliseconds.\<close>

definition remaining_ms :: "int \<Rightarrow> relay_state \<Rightarrow> u64" where
  "remaining_ms now rs =
     (let elapsed = elapsed_ms now (startTime rs)
      in if durationMs rs > word_of_int elapsed then durationMs rs - word_of_int elapsed else 0)"

text \<open>snprintf into a buffer of 256 bytes keeps at most 255 characters.\<close>

definition snprintf256 :: "string \<Rightarrow> string" where
  "snprintf256 s = take 255 s"

definition on_off :: "bool \<Rightarrow> string" where
  "on_off b = (if b then ''ON'' else ''OFF'')"

definition getRelayStatus :: "int \<Rightarrow> 'hw controller \<Rightarrow> (exn + string) \<times> 'hw controller" where
  "getRelayStatus relayId c =
     (if relayId < 1 \<or> relayId > 8 then (Inr ''invalid channel'', c)
      else case om_at (m_relayStates c) relayId of
        Inl e \<Rightarrow> (Inl e, c)
      | Inr rs \<Rightarrow>
          let pre = ''Channel '' @ show_int relayId @ '': '' @ on_off (state rs)
          in if \<not> active rs then (Inr (snprintf256 (pre @ '' (Toggle)'')), c)
             else let (now, c1) = steady_now c in
               (case mode rs of
                 TIMER \<Rightarrow> (Inr (snprintf256 (pre @ '' (Timer, rem: '' @
                            show_nat (unat (remaining_ms now rs div 1000)) @ ''s)'')), c1)
               | PULSE \<Rightarrow> (Inr (snprintf256 (pre @ '' (Pulse, rem: '' @
                            show_nat (unat (remaining_ms now rs)) @ ''ms)'')), c1)
               | BLINK \<Rightarrow> (Inr (snprintf256 (pre @ '' (Blink, count: '' @
                            show_nat (unat (blinkCount rs)) @ '', phase: '' @
                            on_off (blinkPhase rs) @ '')'')), c1)
               | TOGGLE \<Rightarrow> (Inr (snprintf256 pre), c1)))"

section \<open>The tick\<close>

definition off_line :: "int \<Rightarrow> string" where
  "off_line relayId = ''<mh#sys#channel '' @ show_int relayId @ '' off#end>''"

definition cout :: "string \<Rightarrow> 'hw controller \<Rightarrow> 'hw controller" where
  "cout l c = c\<lparr>out := out c @ [l]\<rparr>"

text \<open>One pass of the loop over the channels; \<open>rs\<close> is the entry at its start.\<close>

definition tick_relay :: "'hw hw_ops \<Rightarrow> int \<Rightarrow> int \<Rightarrow> 'hw controller \<Rightarrow> 'hw controller" where
  "tick_relay ops now relayId c =
     (let rs = om_ref RelayState (m_relayStates c) relayId;
          elapsed = elapsed_ms now (startTime rs)
      in if \<not> active rs then c
         else if mode rs = TIMER \<or> mode rs = PULSE then
           (if word_of_int elapsed \<ge> durationMs rs
            then cout (off_line relayId)
                   (upd_relay relayId (\<lambda>rs. rs\<lparr>active := False, mode := TOGGLE\<rparr>)
                     (setRelayInternal ops relayId False c))
            else c)
         else if mode rs = BLINK then
           (if blinkPhase rs then
              (if word_of_int elapsed \<ge> blinkOnMs rs
               then upd_relay relayId (\<lambda>rs. rs\<lparr>blinkPhase := False, startTime := now\<rparr>)
                      (setRelayInternal ops relayId False c)
               else c)
            else
              (if word_of_int elapsed \<ge> blinkOffMs rs then
                 (let c1 = (if blinkCount rs > 0
                            then upd_relay relayId (\<lambda>rs. rs\<lparr>blinkCount := blinkCount rs - 1\<rparr>) c
                            else c)
                  in if blinkCount rs > 0 \<and>
                        blinkCount (om_ref RelayState (m_relayStates c1) relayId) = 0
                     then cout (off_line relayId)
                            (upd_relay relayId (\<lambda>rs. rs\<lparr>active := False, mode := TOGGLE\<rparr>) c1)
                     else upd_relay relayId (\<lambda>rs. rs\<lparr>blinkPhase := True, startTime := now\<rparr>)
                            (setRelayInternal ops relayId True c1))
               else c))
         else c)"

definition tick :: "'hw hw_ops \<Rightarrow> 'hw controller \<Rightarrow> 'hw controller" where
  "tick ops c =
     (let (now, c1) = steady_now c
      in fold (tick_relay ops now) (map fst (m_relayStates c1)) c1)"

text \<open>
  The loop of the background thread: one reading of m_running before each sleep and tick;
  the readings are the argument.
\<close>

fun tickLoop :: "'hw hw_ops \<Rightarrow> bool list \<Rightarrow> 'hw controller \<Rightarrow> 'hw controller" where
  "tickLoop ops [] c = c"
| "tickLoop ops (r # rs) c = (if r then tickLoop ops rs (tick ops c) else c)"

section \<open>One channel at a time\<close>

text \<open>
  The abstract view: what each operation does to the record of its channel, and \<open>commit\<close>,
  which stores the new record and drives the hardware exactly when the logical state changed.
  Every operation and every pass of the tick is shown equal to a \<open>commit\<close>.
\<close>

named_theorems relay_simps \<open>fields of the controller after its primitive updates\<close>

definition rs_toggle :: "bool \<Rightarrow> relay_state \<Rightarrow> relay_state" where
  "rs_toggle st rs = rs\<lparr>active := False, mode := TOGGLE, state := st\<rparr>"

definition rs_timed :: "relay_mode \<Rightarrow> int \<Rightarrow> u64 \<Rightarrow> relay_state \<Rightarrow> relay_state" where
  "rs_timed m now dur rs =
     rs\<lparr>mode := m, active := True, startTime := now, durationMs := dur, state := True\<rparr>"

definition rs_blink :: "int \<Rightarrow> u32 \<Rightarrow> u32 \<Rightarrow> u32 \<Rightarrow> relay_state \<Rightarrow> relay_state" where
  "rs_blink now onMs offMs cnt rs =
     rs\<lparr>mode := BLINK, active := True, blinkOnMs := onMs, blinkOffMs := offMs, blinkCount := cnt,
        blinkPhase := True, startTime := now, state := True\<rparr>"

definition rs_due :: "int \<Rightarrow> relay_state \<Rightarrow> bool" where
  "rs_due now rs \<longleftrightarrow>
     (let elapsed = elapsed_ms now (startTime rs)
      in case mode rs of
           TOGGLE \<Rightarrow> False
         | BLINK \<Rightarrow> word_of_int elapsed \<ge> (if blinkPhase rs then blinkOnMs rs else blinkOffMs rs)
         | _ \<Rightarrow> word_of_int elapsed \<ge> durationMs rs)"

definition rs_fire :: "int \<Rightarrow> relay_state \<Rightarrow> relay_state" where
  "rs_fire now rs =
     (if mode rs = BLINK then
        (if blinkPhase rs then rs\<lparr>state := False, blinkPhase := False, startTime := now\<rparr>
         else if blinkCount rs = 1 then rs\<lparr>blinkCount := 0, active := False, mode := TOGGLE\<rparr>
         else rs\<lparr>blinkCount := (if blinkCount rs = 0 then 0 else blinkCount rs - 1),
                 state := True, blinkPhase := True, startTime := now\<rparr>)
      else rs_toggle False rs)"

definition rs_tick :: "int \<Rightarrow> relay_state \<Rightarrow> relay_state" where
  "rs_tick now rs = (if active rs \<and> rs_due now rs then rs_fire now rs else rs)"

definition rs_ends :: "int \<Rightarrow> relay_state \<Rightarrow> bool" where
  "rs_ends now rs \<longleftrightarrow> active rs \<and> rs_due now rs \<and>
     (mode rs \<noteq> BLINK \<or> (\<not> blinkPhase rs \<and> blinkCount rs = 1))"

definition commit :: "'hw hw_ops \<Rightarrow> int \<Rightarrow> relay_state \<Rightarrow> 'hw controller \<Rightarrow> 'hw controller" where
  "commit ops i rs' c =
     c\<lparr>m_relayStates := om_put i rs' (m_relayStates c),
       hw := (if state (om_ref RelayState (m_relayStates c) i) = state rs' then hw c
              else snd (setRelayPhysical ops i (state rs') (hw c)))\<rparr>"

lemma commit_fields [relay_simps]:
  "m_relayStates (commit ops i rs c) = om_put i rs (m_relayStates c)"
  "m_running (commit ops i rs c) = m_running c"
  "m_tickThread (commit ops i rs c) = m_tickThread c"
  "clock (commit ops i rs c) = clock c"
  "clock_reads (commit ops i rs c) = clock_reads c"
  "out (commit ops i rs c) = out c"
  by (simp_all add: commit_def)

lemma state_update_same: "state rs = st \<Longrightarrow> rs\<lparr>state := st\<rparr> = rs"
  by (cases rs) auto

lemma setRelayInternal_commit:
  "setRelayInternal ops i st (upd_relay i f c) =
     (let rs = om_ref RelayState (m_relayStates c) i
      in (c\<lparr>m_relayStates := om_put i ((f rs)\<lparr>state := st\<rparr>) (m_relayStates c),
            hw := (if state (f rs) = st then hw c else snd (setRelayPhysical ops i st (hw c)))\<rparr>))"
  by (simp add: setRelayInternal_def upd_relay_def Let_def map_simps case_prod_beta state_update_same)

lemma setRelay_commit:
  assumes "1 \<le> i" "i \<le> 8"
  shows "setRelay ops i st c =
    (True, commit ops i (rs_toggle st (om_ref RelayState (m_relayStates c) i)) c)"
  using assms by (simp add: setRelay_def setRelayInternal_commit commit_def rs_toggle_def Let_def)

lemma steady_now_fields [relay_simps]:
  "fst (steady_now c) = clock c (clock_reads c)"
  "snd (steady_now c) = c\<lparr>clock_reads := Suc (clock_reads c)\<rparr>"
  by (simp_all add: steady_now_def)

lemma upd_relay_fields [relay_simps]:
  "clock (upd_relay i f c) = clock c"
  "clock_reads (upd_relay i f c) = clock_reads c"
  "upd_relay i g ((upd_relay i f c)\<lparr>clock_reads := n\<rparr>) =
     upd_relay i (\<lambda>rs. g (f rs)) (c\<lparr>clock_reads := n\<rparr>)"
  by (simp_all add: upd_relay_def map_simps)

lemma startTimer_commit:
  assumes "1 \<le> i" "i \<le> 8"
  shows "startTimer ops i s c =
    (True, commit ops i (rs_timed TIMER (clock c (clock_reads c)) (ucast s * 1000)
              (om_ref RelayState (m_relayStates c) i)) (snd (steady_now c)))"
  using assms
  by (simp add: startTimer_def Let_def steady_now_def relay_simps,
      simp add: setRelayInternal_commit commit_def rs_timed_def Let_def)

lemma startPulse_commit:
  assumes "1 \<le> i" "i \<le> 8"
  shows "startPulse ops i d c =
    (True, commit ops i (rs_timed PULSE (clock c (clock_reads c)) (ucast d)
              (om_ref RelayState (m_relayStates c) i)) (snd (steady_now c)))"
  using assms
  by (simp add: startPulse_def Let_def steady_now_def relay_simps,
      simp add: setRelayInternal_commit commit_def rs_timed_def Let_def)

lemma startBlink_commit:
  assumes "1 \<le> i" "i \<le> 8"
  shows "startBlink ops i onMs offMs cnt c =
    (True, commit ops i (rs_blink (clock c (clock_reads c)) onMs offMs cnt
              (om_ref RelayState (m_relayStates c) i)) (snd (steady_now c)))"
  using assms
  by (simp add: startBlink_def Let_def steady_now_def relay_simps,
      simp add: setRelayInternal_commit commit_def rs_blink_def Let_def)

lemmas op_commit = setRelay_commit startTimer_commit startPulse_commit startBlink_commit

text \<open>Outside 1 to 8 every operation refuses and changes nothing.\<close>

lemma op_invalid:
  assumes "\<not> (1 \<le> i \<and> i \<le> 8)"
  shows "setRelay ops i st c = (False, c)" "startTimer ops i s c = (False, c)"
    "startPulse ops i d c = (False, c)" "startBlink ops i onMs offMs n c = (False, c)"
    "getRelayStatus i c = (Inr ''invalid channel'', c)" "getRelay i c = Inr False"
  using assms
  by (auto simp: setRelay_def startTimer_def startPulse_def startBlink_def getRelayStatus_def getRelay_def)

definition ends_lines :: "int \<Rightarrow> int \<Rightarrow> relay_state \<Rightarrow> string list" where
  "ends_lines now i rs = (if rs_ends now rs then [off_line i] else [])"

lemmas fire_defs = tick_relay_def rs_tick_def rs_due_def ends_lines_def rs_ends_def rs_fire_def
  rs_toggle_def setRelayInternal_def upd_relay_def commit_def cout_def Let_def case_prod_beta

lemma rs_update_order:
  "rs\<lparr>state := s, active := a, mode := m\<rparr> = rs\<lparr>active := a, mode := m, state := s\<rparr>"
  "blinkCount rs = n \<Longrightarrow> rs\<lparr>blinkCount := n\<rparr> = rs"
  "\<not> state rs \<Longrightarrow> rs\<lparr>active := a, mode := m, state := False\<rparr> = rs\<lparr>active := a, mode := m\<rparr>"
  by (cases rs; simp)+

lemma tick_relay_fire:
  assumes rs: "map_of (m_relayStates c) i = Some rs" and due: "active rs" "rs_due now rs"
  shows "tick_relay ops now i c =
    (commit ops i (rs_tick now rs) c)\<lparr>out := out c @ ends_lines now i rs\<rparr>"
proof (cases "mode rs")
  case TOGGLE
  with due show ?thesis by (simp add: rs_due_def)
next
  case TIMER
  with due rs show ?thesis
    by (cases "state rs") (simp_all add: fire_defs map_simps state_update_same rs_update_order)
next
  case PULSE
  with due rs show ?thesis
    by (cases "state rs") (simp_all add: fire_defs map_simps state_update_same rs_update_order)
next
  case BLINK
  with due rs show ?thesis
    by (cases "state rs"; cases "blinkPhase rs"; cases "blinkCount rs = 0"; cases "blinkCount rs = 1")
      (simp_all add: fire_defs map_simps state_update_same rs_update_order word_gt_0)
qed

lemma tick_relay_commit:
  assumes "om_ok (m_relayStates c)" and rs: "map_of (m_relayStates c) i = Some rs"
  shows "tick_relay ops now i c =
    (commit ops i (rs_tick now rs) c)\<lparr>out := out c @ ends_lines now i rs\<rparr>"
proof (cases "active rs \<and> rs_due now rs")
  case False
  have "commit ops i rs c = c"
    using assms by (simp add: commit_def om_put_same)
  with False rs show ?thesis
    by (cases "mode rs")
      (auto simp: tick_relay_def rs_tick_def rs_due_def ends_lines_def rs_ends_def Let_def)
next
  case True
  with rs show ?thesis by (simp add: tick_relay_fire)
qed

section \<open>The tick, channel by channel\<close>

lemma tick_relay_fields:
  assumes "om_ok (m_relayStates c)" "i \<in> fst ` set (m_relayStates c)"
  shows "map fst (m_relayStates (tick_relay ops now i c)) = map fst (m_relayStates c)"
    and "map_of (m_relayStates (tick_relay ops now i c)) j =
      (if j = i then map_option (rs_tick now) (map_of (m_relayStates c) i) else map_of (m_relayStates c) j)"
    and "clock (tick_relay ops now i c) = clock c"
    and "clock_reads (tick_relay ops now i c) = clock_reads c"
    and "m_running (tick_relay ops now i c) = m_running c"
    and "m_tickThread (tick_relay ops now i c) = m_tickThread c"
proof -
  obtain rs where rs: "map_of (m_relayStates c) i = Some rs"
    using assms(2) by (cases "map_of (m_relayStates c) i") (auto simp: map_of_eq_None_iff)
  note eq = tick_relay_commit [OF assms(1) rs, of ops now]
  show "map fst (m_relayStates (tick_relay ops now i c)) = map fst (m_relayStates c)"
    using assms by (simp add: eq relay_simps keys_om_put_mem)
  show "map_of (m_relayStates (tick_relay ops now i c)) j =
      (if j = i then map_option (rs_tick now) (map_of (m_relayStates c) i) else map_of (m_relayStates c) j)"
    using rs by (simp add: eq relay_simps map_simps)
  show "clock (tick_relay ops now i c) = clock c"
    "clock_reads (tick_relay ops now i c) = clock_reads c"
    "m_running (tick_relay ops now i c) = m_running c"
    "m_tickThread (tick_relay ops now i c) = m_tickThread c"
    by (simp_all add: eq relay_simps)
qed

lemma fold_tick_relay:
  assumes "om_ok (m_relayStates c)" "set ks \<subseteq> fst ` set (m_relayStates c)" "distinct ks"
  shows "map fst (m_relayStates (fold (tick_relay ops now) ks c)) = map fst (m_relayStates c) \<and>
    clock (fold (tick_relay ops now) ks c) = clock c \<and>
    clock_reads (fold (tick_relay ops now) ks c) = clock_reads c \<and>
    m_running (fold (tick_relay ops now) ks c) = m_running c \<and>
    m_tickThread (fold (tick_relay ops now) ks c) = m_tickThread c \<and>
    (\<forall>j. map_of (m_relayStates (fold (tick_relay ops now) ks c)) j =
      (if j \<in> set ks then map_option (rs_tick now) (map_of (m_relayStates c) j)
       else map_of (m_relayStates c) j))"
  using assms
proof (induction ks arbitrary: c)
  case Nil
  then show ?case by simp
next
  case (Cons k ks)
  let ?c = "tick_relay ops now k c"
  have k: "k \<in> fst ` set (m_relayStates c)" using Cons.prems by simp
  note f = tick_relay_fields [OF Cons.prems(1) k, of ops now]
  have keys: "fst ` set (m_relayStates ?c) = fst ` set (m_relayStates c)"
    using arg_cong [OF f(1), of set] by simp
  have "om_ok (m_relayStates ?c)"
    using Cons.prems(1) f(1) by (simp add: om_ok_def)
  moreover have "set ks \<subseteq> fst ` set (m_relayStates ?c)" "distinct ks"
    using Cons.prems keys by auto
  ultimately show ?case
    using Cons.IH [of ?c] Cons.prems f by auto
qed

abbreviation relay :: "'hw controller \<Rightarrow> int \<Rightarrow> relay_state option" where
  "relay c i \<equiv> map_of (m_relayStates c) i"

lemma om_ok_channels: "map fst m = [1..8::int] \<Longrightarrow> om_ok m"
  by (simp add: om_ok_def)

lemma tick_fields:
  assumes "map fst (m_relayStates c) = [1..8]"
  shows "map fst (m_relayStates (tick ops c)) = [1..8]"
    and "relay (tick ops c) j = map_option (rs_tick (clock c (clock_reads c))) (relay c j)"
    and "clock (tick ops c) = clock c"
    and "clock_reads (tick ops c) = Suc (clock_reads c)"
    and "m_running (tick ops c) = m_running c"
    and "m_tickThread (tick ops c) = m_tickThread c"
proof -
  let ?c = "snd (steady_now c)"
  have ks: "set (map fst (m_relayStates ?c)) \<subseteq> fst ` set (m_relayStates ?c)"
    by simp
  have ok: "om_ok (m_relayStates ?c)" and di: "distinct (map fst (m_relayStates ?c))"
    using assms by (simp_all add: om_ok_channels relay_simps)
  note f = fold_tick_relay [OF ok ks di, of ops "clock c (clock_reads c)"]
  have eq: "tick ops c = fold (tick_relay ops (clock c (clock_reads c))) (map fst (m_relayStates ?c)) ?c"
    by (simp add: tick_def steady_now_def)
  have none: "relay c j = None" if "j \<notin> set (map fst (m_relayStates c))"
    using that by (simp add: map_of_eq_None_iff)
  show "map fst (m_relayStates (tick ops c)) = [1..8]"
    "clock (tick ops c) = clock c" "clock_reads (tick ops c) = Suc (clock_reads c)"
    "m_running (tick ops c) = m_running c" "m_tickThread (tick ops c) = m_tickThread c"
    using f assms unfolding eq by (simp_all add: relay_simps)
  show "relay (tick ops c) j = map_option (rs_tick (clock c (clock_reads c))) (relay c j)"
    using f none unfolding eq by (auto simp add: relay_simps)
qed

section \<open>Invariant and reachable states\<close>

text \<open>
  A channel is in mode TOGGLE exactly when it is not active; a running timer or pulse is on;
  a blinking channel has the state of its phase.
\<close>

definition relay_inv :: "relay_state \<Rightarrow> bool" where
  "relay_inv rs \<longleftrightarrow>
     (active rs \<longleftrightarrow> mode rs \<noteq> TOGGLE) \<and>
     (mode rs = TIMER \<or> mode rs = PULSE \<longrightarrow> state rs) \<and>
     (mode rs = BLINK \<longrightarrow> state rs = blinkPhase rs)"

text \<open>
  The steady clock never goes back; its count of nanoseconds fits 63 bits.
\<close>

definition clock_ok :: "(nat \<Rightarrow> int) \<Rightarrow> bool" where
  "clock_ok clk \<longleftrightarrow> mono clk \<and> (\<forall>n. 0 \<le> clk n \<and> clk n < 2 ^ 63)"

definition ctrl_inv :: "'hw controller \<Rightarrow> bool" where
  "ctrl_inv c \<longleftrightarrow>
     map fst (m_relayStates c) = [1..8] \<and> clock_ok (clock c) \<and>
     (\<forall>i rs. relay c i = Some rs \<longrightarrow> relay_inv rs \<and> startTime rs \<le> clock c (clock_reads c))"

lemma ctrl_invI:
  assumes "map fst (m_relayStates c) = [1..8]" "clock_ok (clock c)"
    and "\<And>i rs. relay c i = Some rs \<Longrightarrow> relay_inv rs \<and> startTime rs \<le> clock c (clock_reads c)"
  shows "ctrl_inv c"
  using assms by (simp add: ctrl_inv_def)

lemma ctrl_inv_relay:
  assumes "ctrl_inv c"
  shows "(\<exists>rs. relay c i = Some rs) \<longleftrightarrow> 1 \<le> i \<and> i \<le> 8"
proof -
  have "fst ` set (m_relayStates c) = {1..8}"
    using assms by (metis ctrl_inv_def set_map set_upto)
  then show ?thesis
    using map_of_eq_None_iff [of "m_relayStates c" i] by (cases "relay c i") auto
qed

lemma ctrl_inv_obtain:
  assumes "ctrl_inv c" "1 \<le> i" "i \<le> 8"
  obtains rs where "relay c i = Some rs" "relay_inv rs" "startTime rs \<le> clock c (clock_reads c)"
  using assms ctrl_inv_relay [OF assms(1), of i] by (auto simp: ctrl_inv_def)

lemma clock_mono: "ctrl_inv c \<Longrightarrow> m \<le> n \<Longrightarrow> clock c m \<le> clock c n"
  by (simp add: ctrl_inv_def clock_ok_def monoD)

lemma ctrl_inv_steady:
  assumes "ctrl_inv c"
  shows "ctrl_inv (snd (steady_now c))"
proof (rule ctrl_invI)
  fix i rs
  assume "relay (snd (steady_now c)) i = Some rs"
  then have "relay_inv rs" "startTime rs \<le> clock c (clock_reads c)"
    using assms by (auto simp: ctrl_inv_def relay_simps)
  then show "relay_inv rs \<and>
      startTime rs \<le> clock (snd (steady_now c)) (clock_reads (snd (steady_now c)))"
    using clock_mono [OF assms, of "clock_reads c" "Suc (clock_reads c)"] by (simp add: relay_simps)
qed (use assms in \<open>simp_all add: ctrl_inv_def relay_simps\<close>)

lemma ctrl_inv_commit:
  assumes "ctrl_inv c" "1 \<le> i" "i \<le> 8" "relay_inv rs" "startTime rs \<le> clock c (clock_reads c)"
  shows "ctrl_inv (commit ops i rs c)"
proof -
  have k: "map fst (m_relayStates c) = [1..8]" using assms(1) by (simp add: ctrl_inv_def)
  have "i \<in> set (map fst (m_relayStates c))" unfolding k using assms(2,3) by simp
  then have "i \<in> fst ` set (m_relayStates c)" by simp
  from keys_om_put_mem [OF om_ok_channels [OF k] this]
  have "map fst (m_relayStates (commit ops i rs c)) = [1..8]"
    using k by (simp add: relay_simps)
  then show ?thesis
    using assms by (auto simp: ctrl_inv_def relay_simps map_simps)
qed

lemma relay_inv_ops [simp]:
  "relay_inv (rs_toggle st rs)"
  "m = TIMER \<or> m = PULSE \<Longrightarrow> relay_inv (rs_timed m now d rs)"
  "relay_inv (rs_blink now onMs offMs n rs)"
  by (auto simp: relay_inv_def rs_toggle_def rs_timed_def rs_blink_def)

lemma relay_inv_tick: "relay_inv rs \<Longrightarrow> relay_inv (rs_tick now rs)"
  by (auto simp: relay_inv_def rs_tick_def rs_fire_def rs_toggle_def split: if_splits)

lemma startTime_tick:
  "startTime rs \<le> now \<Longrightarrow> startTime (rs_tick now rs) \<le> now"
  by (auto simp: rs_tick_def rs_fire_def rs_toggle_def)

lemma map_of_fold_put:
  "map_of (fold (\<lambda>i m. om_put i v m) ks m) i = (if i \<in> set ks then Some v else map_of m i)"
  by (induction ks arbitrary: m) (simp_all add: map_simps)

lemma relay_initial:
  "relay (BaseRelayController h clk) i = (if 1 \<le> i \<and> i \<le> 8 then Some RelayState else None)"
  "om_ref RelayState (m_relayStates (BaseRelayController h clk)) i = RelayState"
  by (simp_all add: BaseRelayController_def map_of_fold_put om_ref_def)

lemma initial_fields [simp]:
  "hw (BaseRelayController h clk) = h" "clock (BaseRelayController h clk) = clk"
  "clock_reads (BaseRelayController h clk) = 0" "out (BaseRelayController h clk) = []"
  "m_running (BaseRelayController h clk) = False" "m_tickThread (BaseRelayController h clk) = False"
  by (simp_all add: BaseRelayController_def)

lemma keys_initial: "map fst (m_relayStates (BaseRelayController h clk)) = [1..8]"
  by (simp add: BaseRelayController_def upto_rec1)

lemma init_True:
  assumes "init ops c = (True, c')"
  obtains h' where "initHardware ops (hw c) = (True, h')"
    "c' = c\<lparr>hw := h', m_running := True, m_tickThread := True\<rparr>"
  using assms by (cases "initHardware ops (hw c)") (auto simp: init_def Let_def split: if_splits)

lemma ctrl_inv_init_state: "clock_ok clk \<Longrightarrow> ctrl_inv (BaseRelayController h clk)"
  by (rule ctrl_invI)
    (auto simp: relay_initial RelayState_def relay_inv_def clock_ok_def keys_initial split: if_splits)

lemma ctrl_inv_init: "ctrl_inv c \<Longrightarrow> ctrl_inv (snd (init ops c))"
  by (simp add: init_def ctrl_inv_def case_prod_beta Let_def)

lemma ctrl_inv_ref:
  assumes "ctrl_inv c" "1 \<le> i" "i \<le> 8"
  shows "relay_inv (om_ref RelayState (m_relayStates c) i)"
    and "startTime (om_ref RelayState (m_relayStates c) i) \<le> clock c (clock_reads c)"
  using ctrl_inv_obtain [OF assms] by (metis om_ref_Some)+

text \<open>The start operations first take a reading: the new start time is that reading.\<close>

lemma ctrl_inv_start:
  assumes "ctrl_inv c" "1 \<le> i" "i \<le> 8" "relay_inv rs" "startTime rs = clock c (clock_reads c)"
  shows "ctrl_inv (commit ops i rs (snd (steady_now c)))"
  using assms clock_mono [OF assms(1), of "clock_reads c" "Suc (clock_reads c)"]
  by (intro ctrl_inv_commit ctrl_inv_steady) (simp_all add: relay_simps)

lemma ctrl_inv_setRelay: "ctrl_inv c \<Longrightarrow> ctrl_inv (snd (setRelay ops i st c))"
proof (cases "1 \<le> i \<and> i \<le> 8")
  case True
  assume "ctrl_inv c"
  with True ctrl_inv_ref [of c i] show ?thesis
    by (simp add: setRelay_commit ctrl_inv_commit rs_toggle_def [of st])
      (intro ctrl_inv_commit, simp_all add: relay_inv_def)
qed (simp add: op_invalid)

lemma ctrl_inv_startTimer: "ctrl_inv c \<Longrightarrow> ctrl_inv (snd (startTimer ops i s c))"
proof (cases "1 \<le> i \<and> i \<le> 8")
  case True
  assume "ctrl_inv c"
  with True show ?thesis
    by (simp add: startTimer_commit ctrl_inv_start rs_timed_def [where m = TIMER])
      (intro ctrl_inv_start, simp_all add: relay_inv_def)
qed (simp add: op_invalid)

lemma ctrl_inv_startPulse: "ctrl_inv c \<Longrightarrow> ctrl_inv (snd (startPulse ops i d c))"
proof (cases "1 \<le> i \<and> i \<le> 8")
  case True
  assume "ctrl_inv c"
  with True show ?thesis
    by (simp add: startPulse_commit rs_timed_def [where m = PULSE])
      (intro ctrl_inv_start, simp_all add: relay_inv_def)
qed (simp add: op_invalid)

lemma ctrl_inv_startBlink: "ctrl_inv c \<Longrightarrow> ctrl_inv (snd (startBlink ops i onMs offMs n c))"
proof (cases "1 \<le> i \<and> i \<le> 8")
  case True
  assume "ctrl_inv c"
  with True show ?thesis
    by (simp add: startBlink_commit rs_blink_def)
      (intro ctrl_inv_start, simp_all add: relay_inv_def)
qed (simp add: op_invalid)

lemma getRelayStatus_state:
  "snd (getRelayStatus i c) = c \<or> snd (getRelayStatus i c) = snd (steady_now c)"
  by (auto simp: getRelayStatus_def Let_def case_prod_beta split: sum.splits relay_mode.splits)

lemma ctrl_inv_getRelayStatus: "ctrl_inv c \<Longrightarrow> ctrl_inv (snd (getRelayStatus i c))"
  using getRelayStatus_state [of i c] ctrl_inv_steady [of c] by auto

lemma ctrl_inv_tick:
  assumes "ctrl_inv c"
  shows "ctrl_inv (tick ops c)"
proof (rule ctrl_invI)
  have k: "map fst (m_relayStates c) = [1..8]" using assms by (simp add: ctrl_inv_def)
  note f = tick_fields [OF k, of ops]
  show "map fst (m_relayStates (tick ops c)) = [1..8]" by (rule f)
  show "clock_ok (clock (tick ops c))" using assms by (simp add: f(3) ctrl_inv_def)
  fix i rs
  assume "relay (tick ops c) i = Some rs"
  then obtain rs0 where "relay c i = Some rs0" and rs: "rs = rs_tick (clock c (clock_reads c)) rs0"
    by (auto simp: f(2))
  then have "relay_inv rs0" "startTime rs0 \<le> clock c (clock_reads c)"
    using assms by (auto simp: ctrl_inv_def)
  then show "relay_inv rs \<and> startTime rs \<le> clock (tick ops c) (clock_reads (tick ops c))"
    using clock_mono [OF assms, of "clock_reads c" "Suc (clock_reads c)"] rs
    by (auto simp: f(3,4) relay_inv_tick intro: order_trans [OF startTime_tick])
qed

lemmas ctrl_inv_ops = ctrl_inv_setRelay ctrl_inv_startTimer ctrl_inv_startPulse ctrl_inv_startBlink
  ctrl_inv_getRelayStatus ctrl_inv_tick ctrl_inv_init

text \<open>
  The threads of the daemon take the mutex for each operation, so the system moves by whole
  operations, in any order: the requests of the clients and the ticks of the background thread.
\<close>

inductive ctrl_step :: "'hw hw_ops \<Rightarrow> 'hw controller \<Rightarrow> 'hw controller \<Rightarrow> bool" for ops where
  step_set: "ctrl_step ops c (snd (setRelay ops i st c))"
| step_timer: "ctrl_step ops c (snd (startTimer ops i s c))"
| step_pulse: "ctrl_step ops c (snd (startPulse ops i d c))"
| step_blink: "ctrl_step ops c (snd (startBlink ops i onMs offMs n c))"
| step_status: "ctrl_step ops c (snd (getRelayStatus i c))"
| step_tick: "m_running c \<Longrightarrow> ctrl_step ops c (tick ops c)"
| step_destroy: "ctrl_step ops c (destroyController c)"

inductive ctrl_reachable :: "'hw hw_ops \<Rightarrow> 'hw \<Rightarrow> 'hw controller \<Rightarrow> bool" for ops h where
  reach_init: "clock_ok clk \<Longrightarrow> init ops (BaseRelayController h clk) = (True, c) \<Longrightarrow> ctrl_reachable ops h c"
| reach_step: "ctrl_reachable ops h c \<Longrightarrow> ctrl_step ops c c' \<Longrightarrow> ctrl_reachable ops h c'"

lemma ctrl_inv_step: "ctrl_step ops c c' \<Longrightarrow> ctrl_inv c \<Longrightarrow> ctrl_inv c'"
proof (induction rule: ctrl_step.induct)
  case (step_destroy c)
  then show ?case by (simp add: destroyController_def ctrl_inv_def Let_def)
qed (simp_all add: ctrl_inv_ops)

lemma ctrl_inv_reachable: "ctrl_reachable ops h c \<Longrightarrow> ctrl_inv c"
proof (induction rule: ctrl_reachable.induct)
  case (reach_init clk c)
  then show ?case
    using ctrl_inv_init [OF ctrl_inv_init_state, of clk ops h] by simp
next
  case (reach_step c c')
  then show ?case by (blast intro: ctrl_inv_step)
qed

end
