(* ===== verification/Relay_Timing.thy ===== *)
theory Relay_Timing
  imports Relay_Controller
begin

text \<open>
  Time in BaseRelayController: what a run of ticks does to a channel that runs a timer, a
  pulse or a blink, for any sequence of clock readings, and the status text.
\<close>

section \<open>Runs of the tick\<close>

text \<open>
  The ticks seen by one channel: the readings at which they happened, in order.
\<close>

lemma tick_run:
  assumes "map fst (m_relayStates c) = [1..8]"
  shows "map fst (m_relayStates ((tick ops ^^ n) c)) = [1..8] \<and>
    clock ((tick ops ^^ n) c) = clock c \<and>
    clock_reads ((tick ops ^^ n) c) = clock_reads c + n \<and>
    relay ((tick ops ^^ n) c) j =
      map_option (fold rs_tick (map (clock c) [clock_reads c ..< clock_reads c + n])) (relay c j)"
proof (induction n)
  case 0
  then show ?case using assms by (simp add: option.map_id0 [unfolded id_def])
next
  case (Suc n)
  then show ?case
    using tick_fields [of "(tick ops ^^ n) c" ops] by (auto simp: option.map_comp o_def)
qed

lemma elapsed_ms_nonneg: "start \<le> now \<Longrightarrow> elapsed_ms now start = (now - start) div 1000000"
  by (cases "start = now") (simp_all add: elapsed_ms_def)

lemma elapsed_ms_mono: "start \<le> now \<Longrightarrow> now \<le> later \<Longrightarrow> elapsed_ms now start \<le> elapsed_ms later start"
  by (simp add: elapsed_ms_nonneg zdiv_mono1)

text \<open>On 64 bits the comparison of the code is the one on integers.\<close>

lemma due_u64:
  fixes d :: u64
  assumes "0 \<le> e" "e < 2 ^ 64"
  shows "word_of_int e \<ge> d \<longleftrightarrow> uint d \<le> e"
  using assms by (simp add: word_le_def uint_word_of_int)

text \<open>Blinking compares on 32 bits: there it is the integer one below \<open>2 ^ 32\<close> ms.\<close>

lemma due_u32:
  fixes d :: u32
  assumes "0 \<le> e" "e < 2 ^ 32"
  shows "word_of_int e \<ge> d \<longleftrightarrow> uint d \<le> e"
  using assms by (simp add: word_le_def uint_word_of_int)

lemma elapsed_ms_bound:
  assumes "clock_ok clk"  "start \<le> clk n" "0 \<le> start"
  shows "0 \<le> elapsed_ms (clk n) start" "elapsed_ms (clk n) start < 2 ^ 64"
proof -
  have "clk n < 2 ^ 63" using assms(1) by (simp add: clock_ok_def)
  then show "0 \<le> elapsed_ms (clk n) start" "elapsed_ms (clk n) start < 2 ^ 64"
    using assms by (simp_all add: elapsed_ms_nonneg pos_imp_zdiv_nonneg_iff)
qed

definition rs_run :: "(nat \<Rightarrow> int) \<Rightarrow> nat \<Rightarrow> nat \<Rightarrow> relay_state \<Rightarrow> relay_state" where
  "rs_run clk k n rs = fold rs_tick (map clk [k ..< k + n]) rs"

lemma rs_run_simps [simp]:
  "rs_run clk k 0 rs = rs"
  "rs_run clk k (Suc n) rs = rs_tick (clk (k + n)) (rs_run clk k n rs)"
  by (simp_all add: rs_run_def)

lemma timed_run:
  assumes "clock_ok clk" "m = TIMER \<or> m = PULSE" "startTime rs = clk j" "j \<le> k" "mode rs = m" "active rs"
  shows "rs_run clk k n rs =
    (if n = 0 \<or> elapsed_ms (clk (k + n - 1)) (startTime rs) < uint (durationMs rs) then rs
     else rs_toggle False rs)"
proof (induction n)
  case 0
  then show ?case by simp
next
  case (Suc n)
  have mono: "clk i \<le> clk i'" if "i \<le> i'" for i i'
    using assms(1) that by (simp add: clock_ok_def monoD)
  have start: "startTime rs \<le> clk (k + i)" "0 \<le> startTime rs" for i
    using assms(1,3,4) mono [of j "k + i"] by (simp_all add: clock_ok_def)
  have due: "rs_due (clk (k + n)) rs \<longleftrightarrow> uint (durationMs rs) \<le> elapsed_ms (clk (k + n)) (startTime rs)"
    using assms(2,5) due_u64 [OF elapsed_ms_bound [OF assms(1) start]] by (auto simp: rs_due_def)
  have fire: "rs_fire now rs = rs_toggle False rs" for now
    using assms(2,5) by (auto simp: rs_fire_def)
  have later: "elapsed_ms (clk (k + n - 1)) (startTime rs) \<le> elapsed_ms (clk (k + n)) (startTime rs)" if "n > 0"
    using start(1) [of "n - 1"] mono [of "k + n - 1" "k + n"] that by (intro elapsed_ms_mono) auto
  show ?case
    using Suc due fire later assms(6) by (auto simp: rs_tick_def rs_toggle_def)
qed

section \<open>Blinking\<close>

text \<open>
  The milliseconds between the tick number \<open>n\<close> of a run and the one before it (or the start).
\<close>

definition gap_ms :: "(nat \<Rightarrow> int) \<Rightarrow> nat \<Rightarrow> int \<Rightarrow> nat \<Rightarrow> int" where
  "gap_ms clk k start n = elapsed_ms (clk (k + n)) (if n = 0 then start else clk (k + n - 1))"

text \<open>A schedule on which each of the first \<open>N\<close> ticks finds its phase over.\<close>

definition prompt :: "(nat \<Rightarrow> int) \<Rightarrow> nat \<Rightarrow> int \<Rightarrow> u32 \<Rightarrow> u32 \<Rightarrow> nat \<Rightarrow> bool" where
  "prompt clk k start onMs offMs N \<longleftrightarrow>
     (\<forall>n<N. uint (if even n then onMs else offMs) \<le> gap_ms clk k start n \<and>
           gap_ms clk k start n < 2 ^ 32)"

definition blinking :: "relay_state \<Rightarrow> bool" where
  "blinking rs \<longleftrightarrow> mode rs = BLINK \<and> active rs"

lemma blink_due:
  assumes "blinking rs" "0 \<le> e" "e < 2 ^ 32" "e = elapsed_ms now (startTime rs)"
  shows "rs_due now rs \<longleftrightarrow> uint (if blinkPhase rs then blinkOnMs rs else blinkOffMs rs) \<le> e"
  using assms due_u32 [of e] by (auto simp: rs_due_def blinking_def)

definition blink_at :: "(nat \<Rightarrow> int) \<Rightarrow> nat \<Rightarrow> relay_state \<Rightarrow> nat \<Rightarrow> relay_state \<Rightarrow> bool" where
  "blink_at clk k rs n r \<longleftrightarrow>
     (if n < 2 * unat (blinkCount rs)
      then blinking r \<and> blinkOnMs r = blinkOnMs rs \<and> blinkOffMs r = blinkOffMs rs \<and>
           blinkPhase r = even n \<and> state r = even n \<and>
           unat (blinkCount r) = unat (blinkCount rs) - n div 2 \<and>
           startTime r = (if n = 0 then startTime rs else clk (k + n - 1))
      else mode r = TOGGLE \<and> \<not> active r \<and> \<not> state r \<and> blinkCount r = 0)"

lemma blink_at_step:
  assumes at: "blink_at clk k rs n r" and n: "n < 2 * unat (blinkCount rs)"
    and due: "rs_due (clk (k + n)) r"
  shows "blink_at clk k rs (Suc n) (rs_tick (clk (k + n)) r)"
proof -
  let ?m = "unat (blinkCount rs)"
  have r: "mode r = BLINK" "active r" "blinkOnMs r = blinkOnMs rs" "blinkOffMs r = blinkOffMs rs"
    "blinkPhase r = even n" "state r = even n" "unat (blinkCount r) = ?m - n div 2"
    using at n by (auto simp: blink_at_def blinking_def)
  have tick: "rs_tick (clk (k + n)) r = rs_fire (clk (k + n)) r"
    using r due by (simp add: rs_tick_def)
  show ?thesis
  proof (cases "even n")
    case True
    with n have "Suc n < 2 * ?m" "Suc n div 2 = n div 2" by presburger+
    with r True show ?thesis by (simp add: tick rs_fire_def blink_at_def blinking_def)
  next
    case False
    then have d: "Suc n div 2 = Suc (n div 2)" by presburger
    have nz: "blinkCount r \<noteq> 0" using r(7) n by (auto simp: unat_eq_zero [symmetric])
    show ?thesis
    proof (cases "blinkCount r = 1")
      case True
      with r(7) have "?m - n div 2 = 1" by simp
      with False have "\<not> Suc n < 2 * ?m" by presburger
      with r False True show ?thesis by (simp add: tick rs_fire_def blink_at_def)
    next
      case other: False
      have pred: "unat (blinkCount r - 1) = ?m - n div 2 - 1"
        using nz r(7) by (simp add: unat_minus_one)
      have "?m - n div 2 \<noteq> 1" using other r(7) by (simp add: word_unat_eq_iff)
      with False n have "Suc n < 2 * ?m" by presburger
      with r False other nz pred d show ?thesis
        by (simp add: tick rs_fire_def blink_at_def blinking_def)
    qed
  qed
qed

lemma prompt_less: "prompt clk k start onMs offMs (Suc n) \<Longrightarrow> prompt clk k start onMs offMs n"
  by (simp add: prompt_def)

lemma prompt_mono: "prompt clk k start onMs offMs N \<Longrightarrow> n \<le> N \<Longrightarrow> prompt clk k start onMs offMs n"
  by (auto simp: prompt_def)

lemma blink_run:
  assumes "blinking rs" "blinkPhase rs" "state rs" "blinkCount rs \<noteq> 0"
    and "prompt clk k (startTime rs) (blinkOnMs rs) (blinkOffMs rs) n" "n \<le> 2 * unat (blinkCount rs)"
  shows "blink_at clk k rs n (rs_run clk k n rs)"
  using assms(5,6)
proof (induction n)
  case 0
  then show ?case using assms(1-4) by (simp add: blink_at_def unat_gt_0)
next
  case (Suc n)
  let ?r = "rs_run clk k n rs"
  have n: "n < 2 * unat (blinkCount rs)" and at: "blink_at clk k rs n ?r"
    using Suc prompt_less by simp_all
  then have r: "blinking ?r" "blinkOnMs ?r = blinkOnMs rs" "blinkOffMs ?r = blinkOffMs rs"
    "blinkPhase ?r = even n" "startTime ?r = (if n = 0 then startTime rs else clk (k + n - 1))"
    by (auto simp: blink_at_def)
  have gap: "uint (if even n then blinkOnMs rs else blinkOffMs rs) \<le> gap_ms clk k (startTime rs) n"
    "gap_ms clk k (startTime rs) n < 2 ^ 32"
    using Suc.prems(1) by (auto simp: prompt_def)
  have nonneg: "0 \<le> gap_ms clk k (startTime rs) n" by (rule order_trans [OF _ gap(1)]) simp
  have eq: "gap_ms clk k (startTime rs) n = elapsed_ms (clk (k + n)) (startTime ?r)"
    by (simp add: gap_ms_def r(5))
  have "rs_due (clk (k + n)) ?r"
    using blink_due [OF r(1) nonneg gap(2) eq] gap(1) r(2,3,4) by (cases "even n") simp_all
  from blink_at_step [OF at n this] show ?case by simp
qed

text \<open>
  With count 0 the channel blinks for ever, and whatever the schedule, a blink with a positive
  count switches the relay on fewer times than its count after the start: with the first
  pulse that makes at most \<open>count\<close> pulses.
\<close>

lemma blink_forever_tick:
  "blinking rs \<and> blinkCount rs = 0 \<Longrightarrow> blinking (rs_tick now rs) \<and> blinkCount (rs_tick now rs) = 0"
  by (auto simp: blinking_def rs_tick_def rs_fire_def)

lemma blink_forever:
  "blinking rs \<Longrightarrow> blinkCount rs = 0 \<Longrightarrow> blinking (rs_run clk k n rs) \<and> blinkCount (rs_run clk k n rs) = 0"
  by (induction n) (simp_all add: blink_forever_tick)

fun rises :: "int list \<Rightarrow> relay_state \<Rightarrow> nat" where
  "rises [] rs = 0"
| "rises (t # ts) rs =
     (if \<not> state rs \<and> state (rs_tick t rs) then 1 else 0) + rises ts (rs_tick t rs)"

lemma rises_idle: "relay_inv rs \<Longrightarrow> \<not> active rs \<Longrightarrow> rises ts rs = 0"
  by (induction ts arbitrary: rs) (auto simp: rs_tick_def)

lemma blink_rises:
  assumes "relay_inv rs" "blinking rs" "blinkCount rs \<noteq> 0"
  shows "rises ts rs < unat (blinkCount rs)"
  using assms
proof (induction ts arbitrary: rs)
  case Nil
  then show ?case by (simp add: unat_gt_0)
next
  case (Cons t ts)
  let ?r = "rs_tick t rs"
  have inv: "relay_inv ?r" using Cons.prems(1) by (rule relay_inv_tick)
  show ?case
  proof (cases "active ?r")
    case False
    then have "state ?r = state rs" using Cons.prems
      by (auto simp: rs_tick_def rs_fire_def blinking_def relay_inv_def rs_toggle_def split: if_splits)
    with False inv Cons.prems show ?thesis by (simp add: rises_idle unat_gt_0)
  next
    case True
    then have bl: "blinking ?r" using Cons.prems
      by (auto simp: rs_tick_def rs_fire_def blinking_def relay_inv_def rs_toggle_def split: if_splits)
    have "?r = rs \<or> (state rs \<and> blinkCount ?r = blinkCount rs) \<or>
        (blinkCount rs \<noteq> 1 \<and> blinkCount ?r = blinkCount rs - 1)"
      using True Cons.prems
      by (auto simp: rs_tick_def rs_fire_def blinking_def relay_inv_def split: if_splits)
    then show ?thesis
    proof (elim disjE)
      assume "?r = rs"
      then show ?thesis using Cons.IH [OF Cons.prems] by simp
    next
      assume "state rs \<and> blinkCount ?r = blinkCount rs"
      then show ?thesis using Cons.IH [OF inv bl] Cons.prems(3) by simp
    next
      assume c: "blinkCount rs \<noteq> 1 \<and> blinkCount ?r = blinkCount rs - 1"
      have "unat (blinkCount rs - 1) = unat (blinkCount rs) - 1" "0 < unat (blinkCount rs)"
        using Cons.prems(3) by (simp_all add: unat_minus_one unat_gt_0)
      moreover have "blinkCount ?r \<noteq> 0" using c by auto
      ultimately show ?thesis using Cons.IH [OF inv bl] c by auto
    qed
  qed
qed

section \<open>The status text\<close>

definition status_text :: "int \<Rightarrow> int \<Rightarrow> relay_state \<Rightarrow> string" where
  "status_text now i rs =
     ''Channel '' @ show_int i @ '': '' @ on_off (state rs) @
     (case mode rs of
        TOGGLE \<Rightarrow> '' (Toggle)''
      | TIMER \<Rightarrow> '' (Timer, rem: '' @ show_nat (unat (remaining_ms now rs div 1000)) @ ''s)''
      | PULSE \<Rightarrow> '' (Pulse, rem: '' @ show_nat (unat (remaining_ms now rs)) @ ''ms)''
      | BLINK \<Rightarrow> '' (Blink, count: '' @ show_nat (unat (blinkCount rs)) @
                 '', phase: '' @ on_off (blinkPhase rs) @ '')'')"

lemma length_on_off [string_simps]: "length (on_off b) \<le> 3"
  by (simp add: on_off_def)

lemma length_show_u64 [string_simps]: "length (show_nat (unat (w::u64))) \<le> 20"
  by (rule length_show_nat) (rule order_less_trans [OF unsigned_less], simp_all)

lemma length_show_u32 [string_simps]: "length (show_nat (unat (w::u32))) \<le> 10"
  by (rule length_show_nat) (rule order_less_trans [OF unsigned_less], simp_all)

lemma length_show_channel: "1 \<le> i \<Longrightarrow> i \<le> 8 \<Longrightarrow> length (show_int i) \<le> 1"
  by (simp add: show_int_def length_show_nat)

lemma length_status_text:
  assumes "1 \<le> i" "i \<le> 8"
  shows "length (status_text now i rs) < 64"
  using length_show_channel [OF assms] length_on_off [of "state rs"] length_on_off [of "blinkPhase rs"]
    length_show_u64 [of "remaining_ms now rs"] length_show_u64 [of "remaining_ms now rs div 1000"]
    length_show_u32 [of "blinkCount rs"]
  by (simp add: status_text_def split: relay_mode.split)

lemma getRelayStatus_text:
  assumes "relay c i = Some rs" "relay_inv rs" "1 \<le> i" "i \<le> 8"
  shows "fst (getRelayStatus i c) = Inr (status_text (clock c (clock_reads c)) i rs)"
proof -
  let ?t = "status_text (clock c (clock_reads c)) i rs"
  have "fst (getRelayStatus i c) = Inr (snprintf256 ?t)"
  proof (cases "active rs")
    case True
    with assms(2) have "mode rs \<noteq> TOGGLE" by (simp add: relay_inv_def)
    with True assms(1,3,4) show ?thesis
      by (cases "mode rs") (simp_all add: getRelayStatus_def steady_now_def status_text_def)
  next
    case False
    with assms(2) have "mode rs = TOGGLE" by (simp add: relay_inv_def)
    with False assms(1,3,4) show ?thesis
      by (simp add: getRelayStatus_def status_text_def)
  qed
  also have "snprintf256 ?t = ?t"
    using length_status_text [OF assms(3,4), of "clock c (clock_reads c)" rs]
    by (simp add: snprintf256_def)
  finally show ?thesis .
qed

end
