(* ===== verification/Relay_Hardware.thy ===== *)
theory Relay_Hardware
  imports Relay_Controller
begin

text \<open>
  The contract between BaseRelayController and the subclasses that drive the board: what
  initHardware and setRelayPhysical promise about the level of each relay, and what follows
  for the controller: the logical state of a channel is the level of its relay.
\<close>

section \<open>The contract\<close>

text \<open>
  \<open>level h i\<close> tells whether relay \<open>i\<close> is energised. A write that reports success sets its own
  relay and no other; a write that reports failure changes no relay. \<open>fresh\<close> is the hardware
  as its constructor leaves it.
\<close>

locale relay_hardware =
  fixes ops :: "'hw hw_ops"
    and level :: "'hw \<Rightarrow> int \<Rightarrow> bool"
    and inv :: "'hw \<Rightarrow> bool"
    and fresh :: "'hw \<Rightarrow> bool"
  assumes init_off: "fresh h \<Longrightarrow> initHardware ops h = (True, h') \<Longrightarrow> inv h' \<and> \<not> level h' i"
    and phys_inv: "inv h \<Longrightarrow> 1 \<le> i \<Longrightarrow> i \<le> 8 \<Longrightarrow> inv (snd (setRelayPhysical ops i b h))"
    and phys_ok: "inv h \<Longrightarrow> 1 \<le> i \<Longrightarrow> i \<le> 8 \<Longrightarrow> 1 \<le> j \<Longrightarrow> j \<le> 8 \<Longrightarrow>
      fst (setRelayPhysical ops i b h) \<Longrightarrow>
      level (snd (setRelayPhysical ops i b h)) j = (if j = i then b else level h j)"
    and phys_fail: "inv h \<Longrightarrow> 1 \<le> i \<Longrightarrow> i \<le> 8 \<Longrightarrow> 1 \<le> j \<Longrightarrow> j \<le> 8 \<Longrightarrow>
      \<not> fst (setRelayPhysical ops i b h) \<Longrightarrow>
      level (snd (setRelayPhysical ops i b h)) j = level h j"
begin

definition agrees :: "'hw controller \<Rightarrow> int \<Rightarrow> bool" where
  "agrees c i \<longleftrightarrow> level (hw c) i = state (om_ref RelayState (m_relayStates c) i)"

definition coherent :: "'hw controller \<Rightarrow> bool" where
  "coherent c \<longleftrightarrow> inv (hw c) \<and> (\<forall>i. 1 \<le> i \<longrightarrow> i \<le> 8 \<longrightarrow> agrees c i)"

text \<open>Storing a record never disturbs the other channels, whether the write succeeds or not.\<close>

lemma commit_frame:
  assumes "inv (hw c)" "1 \<le> i" "i \<le> 8" "1 \<le> j" "j \<le> 8" "j \<noteq> i"
  shows "agrees (commit ops i rs c) j = agrees c j"
  using assms phys_ok [of "hw c" i j "state rs"] phys_fail [of "hw c" i j "state rs"]
  by (cases "fst (setRelayPhysical ops i (state rs) (hw c))")
    (simp_all add: agrees_def commit_def map_simps)

lemma commit_agrees:
  assumes "inv (hw c)" "1 \<le> i" "i \<le> 8" "agrees c i"
    and "fst (setRelayPhysical ops i (state rs) (hw c))"
  shows "agrees (commit ops i rs c) i"
  using assms phys_ok [of "hw c" i i "state rs"] by (simp add: agrees_def commit_def map_simps)

text \<open>A write that fails leaves the channel showing a state its relay does not have.\<close>

lemma commit_disagrees:
  assumes "inv (hw c)" "1 \<le> i" "i \<le> 8" "agrees c i"
    and "\<not> fst (setRelayPhysical ops i (state rs) (hw c))"
    and "state (om_ref RelayState (m_relayStates c) i) \<noteq> state rs"
  shows "\<not> agrees (commit ops i rs c) i"
  using assms phys_fail [of "hw c" i i "state rs"] by (simp add: agrees_def commit_def map_simps)

lemma commit_inv: "inv (hw c) \<Longrightarrow> 1 \<le> i \<Longrightarrow> i \<le> 8 \<Longrightarrow> inv (hw (commit ops i rs c))"
  by (simp add: commit_def phys_inv)

end

text \<open>Hardware on which no write fails.\<close>

locale reliable_hardware = relay_hardware +
  assumes phys_true: "inv h \<Longrightarrow> 1 \<le> i \<Longrightarrow> i \<le> 8 \<Longrightarrow> fst (setRelayPhysical ops i b h)"
begin

lemma coherent_commit:
  assumes "coherent c" "1 \<le> i" "i \<le> 8"
  shows "coherent (commit ops i rs c)"
  unfolding coherent_def
proof (intro conjI allI impI)
  have c: "inv (hw c)" "\<And>j. 1 \<le> j \<Longrightarrow> j \<le> 8 \<Longrightarrow> agrees c j"
    using assms(1) by (simp_all add: coherent_def)
  show "inv (hw (commit ops i rs c))" using c assms(2,3) by (simp add: commit_inv)
  fix j :: int
  assume "1 \<le> j" "j \<le> 8"
  then show "agrees (commit ops i rs c) j"
    using c assms(2,3) by (cases "j = i") (simp_all add: commit_agrees commit_frame phys_true)
qed

lemma coherent_steady: "coherent (snd (steady_now c)) = coherent c"
  by (simp add: coherent_def agrees_def relay_simps)

lemma coherent_out: "coherent (c\<lparr>out := l\<rparr>) = coherent c"
  by (simp add: coherent_def agrees_def)

lemma coherent_fold_tick:
  assumes "map fst (m_relayStates c) = [1..8]" "coherent c" "set ks \<subseteq> {1..8}"
  shows "coherent (fold (tick_relay ops now) ks c)"
  using assms
proof (induction ks arbitrary: c)
  case Nil
  then show ?case by simp
next
  case (Cons k ks)
  have ok: "om_ok (m_relayStates c)" using Cons.prems(1) by (rule om_ok_channels)
  have "k \<in> set (map fst (m_relayStates c))" unfolding Cons.prems(1) using Cons.prems(3) by simp
  then have k: "k \<in> fst ` set (m_relayStates c)" by simp
  then obtain rs where rs: "relay c k = Some rs"
    by (cases "relay c k") (auto simp: map_of_eq_None_iff)
  have "coherent (tick_relay ops now k c)"
    using Cons.prems(2,3) by (simp add: tick_relay_commit [OF ok rs] coherent_out coherent_commit)
  moreover have "map fst (m_relayStates (tick_relay ops now k c)) = [1..8]"
    using tick_relay_fields(1) [OF ok k] Cons.prems(1) by simp
  ultimately show ?case using Cons.IH Cons.prems(3) by simp
qed

lemma coherent_tick:
  assumes "ctrl_inv c" "coherent c"
  shows "coherent (tick ops c)"
proof -
  have "map fst (m_relayStates (snd (steady_now c))) = [1..8]"
    using assms(1) by (simp add: ctrl_inv_def relay_simps)
  moreover have "coherent (snd (steady_now c))" using assms(2) by (simp add: coherent_steady)
  moreover have "set (map fst (m_relayStates (snd (steady_now c)))) \<subseteq> {1..8}"
    unfolding calculation(1) by simp
  ultimately show ?thesis
    using coherent_fold_tick by (simp add: tick_def case_prod_beta)
qed

lemma coherent_step:
  assumes "ctrl_step ops c c'" "ctrl_inv c" "coherent c"
  shows "coherent c'"
  using assms
proof (induction rule: ctrl_step.induct)
  case (step_set c i st)
  then show ?case
    by (cases "1 \<le> i \<and> i \<le> 8") (simp_all add: op_commit op_invalid coherent_commit)
next
  case (step_timer c i s)
  then show ?case
    by (cases "1 \<le> i \<and> i \<le> 8") (simp_all add: op_commit op_invalid coherent_commit coherent_steady)
next
  case (step_pulse c i d)
  then show ?case
    by (cases "1 \<le> i \<and> i \<le> 8") (simp_all add: op_commit op_invalid coherent_commit coherent_steady)
next
  case (step_blink c i onMs offMs n)
  then show ?case
    by (cases "1 \<le> i \<and> i \<le> 8") (simp_all add: op_commit op_invalid coherent_commit coherent_steady)
next
  case (step_status c i)
  then show ?case using getRelayStatus_state [of i c] by (auto simp: coherent_steady)
next
  case (step_tick c)
  then show ?case by (simp add: coherent_tick)
next
  case (step_destroy c)
  then show ?case by (simp add: destroyController_def Let_def coherent_def agrees_def)
qed

lemma coherent_reachable:
  assumes "ctrl_reachable ops h c" "fresh h"
  shows "coherent c"
  using assms
proof (induction rule: ctrl_reachable.induct)
  case (reach_init clk c)
  obtain h' where h': "initHardware ops h = (True, h')"
    and c: "c = (BaseRelayController h clk)\<lparr>hw := h', m_running := True, m_tickThread := True\<rparr>"
    using init_True [OF reach_init(2)] unfolding initial_fields by metis
  have "om_ref RelayState (m_relayStates c) i = RelayState" for i
    by (simp add: c relay_initial(2))
  then have "\<not> state (om_ref RelayState (m_relayStates c) i)" for i
    by (simp add: RelayState_def)
  moreover have "hw c = h'" by (simp add: c)
  ultimately show ?case
    using init_off [OF reach_init(3) h'] by (simp add: coherent_def agrees_def)
next
  case (reach_step c c')
  from coherent_step [OF reach_step.hyps(2) ctrl_inv_reachable [OF reach_step.hyps(1)]]
  show ?case using reach_step.IH reach_step.prems by simp
qed

end

end
