(* ===== verification/Sil_Relay_Controller.thy ===== *)
theory Sil_Relay_Controller
  imports Relay_Hardware
begin

text \<open>
  SilRelayController (src/sil/sil_relay_controller.cc): the software simulation. Its hardware
  is the standard output: the state is the list of the lines it has printed, and the level of
  a relay is what the last line about it says.
\<close>

section \<open>Operations\<close>

definition sil_init_line :: string where
  "sil_init_line = ''[SilRelayController] Software-in-the-Loop simulation initialized.''"

definition sil_line :: "int \<Rightarrow> bool \<Rightarrow> string" where
  "sil_line relayId st =
     ''[SilRelayController] [SIL-SIM] Relay '' @ show_int relayId @ '' set to '' @ on_off st"

definition SilRelayController :: "string list" where
  "SilRelayController = []"

definition sil_initHardware :: "string list \<Rightarrow> bool \<times> string list" where
  "sil_initHardware h = (True, h @ [sil_init_line])"

definition sil_setRelayPhysical :: "int \<Rightarrow> bool \<Rightarrow> string list \<Rightarrow> bool \<times> string list" where
  "sil_setRelayPhysical relayId st h = (True, h @ [sil_line relayId st])"

definition sil_ops :: "string list hw_ops" where
  "sil_ops = \<lparr>initHardware = sil_initHardware, setRelayPhysical = sil_setRelayPhysical\<rparr>"

section \<open>Levels read back from the log\<close>

definition sil_about :: "int \<Rightarrow> string \<Rightarrow> bool" where
  "sil_about relayId l \<longleftrightarrow> l = sil_line relayId True \<or> l = sil_line relayId False"

definition sil_level :: "string list \<Rightarrow> int \<Rightarrow> bool" where
  "sil_level h relayId =
     (case find (sil_about relayId) (rev h) of None \<Rightarrow> False | Some l \<Rightarrow> l = sil_line relayId True)"

lemma takeWhile_show_nat: "takeWhile is_digit (show_nat n @ CHR '' '' # r) = show_nat n"
proof -
  have "\<not> is_digit (CHR '' '')" by (simp add: is_digit_def)
  then show ?thesis by (simp add: takeWhile_append string_simps)
qed

lemma sil_line_inj:
  assumes "0 \<le> i" "0 \<le> j" "sil_line i b = sil_line j b'"
  shows "i = j \<and> b = b'"
proof -
  have eq: "show_nat (nat i) @ '' set to '' @ on_off b = show_nat (nat j) @ '' set to '' @ on_off b'"
    using assms by (simp add: sil_line_def show_int_def)
  then have "takeWhile is_digit (show_nat (nat i) @ '' set to '' @ on_off b) =
      takeWhile is_digit (show_nat (nat j) @ '' set to '' @ on_off b')"
    by (simp only: eq)
  then have n: "show_nat (nat i) = show_nat (nat j)" by (simp add: takeWhile_show_nat)
  then have "i = j" using assms(1,2) show_nat_inj [OF n] by simp
  moreover have "b = b'" using eq n by (simp add: on_off_def split: if_splits)
  ultimately show ?thesis by simp
qed

lemma sil_about_line: "0 \<le> i \<Longrightarrow> 0 \<le> j \<Longrightarrow> sil_about j (sil_line i b) \<longleftrightarrow> j = i"
  by (cases b) (auto simp: sil_about_def dest: sil_line_inj)

lemma sil_level_write:
  assumes "0 \<le> i" "0 \<le> j"
  shows "sil_level (h @ [sil_line i b]) j = (if j = i then b else sil_level h j)"
  using assms sil_line_inj [of i i b True]
  by (cases b) (auto simp: sil_level_def sil_about_line)

text \<open>The simulation meets the contract of the hardware, and no write of it fails.\<close>

interpretation sil: reliable_hardware sil_ops sil_level "\<lambda>_. True" "\<lambda>h. h = SilRelayController"
proof unfold_locales
  fix h h' :: "string list" and i :: int
  assume "h = SilRelayController" "initHardware sil_ops h = (True, h')"
  then show "True \<and> \<not> sil_level h' i"
    by (auto simp: sil_ops_def sil_initHardware_def SilRelayController_def sil_level_def sil_about_def
        sil_init_line_def sil_line_def)
qed (simp_all add: sil_ops_def sil_setRelayPhysical_def sil_level_write)

end
