(* ===== verification/Gpiod_Relay_Controller.thy ===== *)
theory Gpiod_Relay_Controller
  imports Relay_Hardware
begin

text \<open>
  GpiodRelayController (src/hardware/gpiod_relay_controller.cc): the Waveshare board behind
  libgpiod. The library is not part of the sources: it is the record \<open>gpiod_lib\<close>, an argument
  of the operations, and the laws used about it are the definition \<open>gpiod_laws\<close>.
\<close>

section \<open>The library\<close>

datatype line_value = ACTIVE | INACTIVE

datatype line_direction = INPUT | OUTPUT

record line_settings =
  direction :: line_direction
  output_value :: line_value

text \<open>
  Opening a chip succeeds or throws; requesting the lines of a chip with a configuration, for
  a consumer, returns a request or throws; writing a value to a line of a request returns the
  request as it is afterwards or throws. \<open>Inl\<close> carries what().
\<close>

record 'r gpiod_lib =
  chip_open :: "string \<Rightarrow> bool"
  do_request :: "string \<Rightarrow> string \<Rightarrow> (nat \<times> line_settings) list \<Rightarrow> string + 'r"
  set_value :: "'r \<Rightarrow> nat \<Rightarrow> line_value \<Rightarrow> string + 'r"

section \<open>The controller\<close>

record 'r gpiod =
  m_chipPath :: string
  m_relayGpioMap :: "(int \<times> nat) list"
  chip :: "string option"
  request :: "'r option"
  messages :: "string list"

definition GpiodRelayController :: "'r gpiod" where
  "GpiodRelayController =
     \<lparr>m_chipPath = ''/dev/gpiochip4'',
      m_relayGpioMap = fold (\<lambda>(i, p) m. om_put i p m)
        [(1, 5), (2, 6), (3, 13), (4, 16), (5, 19), (6, 20), (7, 21), (8, 26)] [],
      chip = None, request = None, messages = []\<rparr>"

definition say :: "string \<Rightarrow> 'r gpiod \<Rightarrow> 'r gpiod" where
  "say l h = h\<lparr>messages := messages h @ [l]\<rparr>"

definition openChip :: "'r gpiod_lib \<Rightarrow> 'r gpiod \<Rightarrow> bool \<times> 'r gpiod" where
  "openChip lib h =
     (if chip_open lib (m_chipPath h) then (True, h\<lparr>chip := Some (m_chipPath h)\<rparr>)
      else if chip_open lib ''/dev/gpiochip0''
      then (True, h\<lparr>chip := Some ''/dev/gpiochip0'', m_chipPath := ''/dev/gpiochip0''\<rparr>)
      else (False, h))"

definition lineConfig :: "(int \<times> nat) list \<Rightarrow> (nat \<times> line_settings) list" where
  "lineConfig m = map (\<lambda>(_, offset). (offset, \<lparr>direction = OUTPUT, output_value = ACTIVE\<rparr>)) m"

definition gpiod_initHardware :: "'r gpiod_lib \<Rightarrow> 'r gpiod \<Rightarrow> bool \<times> 'r gpiod" where
  "gpiod_initHardware lib h =
     (let (chipOpened, h1) = openChip lib h
      in if \<not> chipOpened
         then (False, say ''[GpiodRelayController] Failed to open GPIO chip (neither /dev/gpiochip4 nor /dev/gpiochip0 was accessible).'' h1)
         else let h2 = say (''[GpiodRelayController] Opened GPIO chip: '' @ m_chipPath h1) h1
           in case do_request lib (m_chipPath h2) ''minihild'' (lineConfig (m_relayGpioMap h2)) of
                Inl w \<Rightarrow> (False, say (''[GpiodRelayController] Exception in initHardware: '' @ w) h2)
              | Inr r \<Rightarrow> (True, say ''[GpiodRelayController] GPIO lines requested and configured as OUTPUT.''
                            (h2\<lparr>request := Some r\<rparr>)))"

definition gpiod_setRelayPhysical :: "'r gpiod_lib \<Rightarrow> int \<Rightarrow> bool \<Rightarrow> 'r gpiod \<Rightarrow> bool \<times> 'r gpiod" where
  "gpiod_setRelayPhysical lib relayId st h =
     (case request h of
        None \<Rightarrow> (False, h)
      | Some r \<Rightarrow>
          (case om_at (m_relayGpioMap h) relayId of
             Inl e \<Rightarrow> (False, say (''[GpiodRelayController] Error setting relay '' @ show_int relayId @ '': '' @ what e) h)
           | Inr offset \<Rightarrow>
               (case set_value lib r offset (if st then INACTIVE else ACTIVE) of
                  Inl w \<Rightarrow> (False, say (''[GpiodRelayController] Error setting relay '' @ show_int relayId @ '': '' @ w) h)
                | Inr r' \<Rightarrow> (True, h\<lparr>request := Some r'\<rparr>))))"

definition gpiod_ops :: "'r gpiod_lib \<Rightarrow> 'r gpiod hw_ops" where
  "gpiod_ops lib = \<lparr>initHardware = gpiod_initHardware lib, setRelayPhysical = gpiod_setRelayPhysical lib\<rparr>"

section \<open>Laws of the library and the level of a relay\<close>

text \<open>
  What libgpiod documents, for a function \<open>val\<close> that reads the output value of a line: a
  request configures the lines it was given, and a write changes its line and no other.
\<close>

definition gpiod_laws :: "'r gpiod_lib \<Rightarrow> ('r \<Rightarrow> nat \<Rightarrow> line_value) \<Rightarrow> bool" where
  "gpiod_laws lib val \<longleftrightarrow>
     (\<forall>p u cfg r off s. do_request lib p u cfg = Inr r \<longrightarrow> (off, s) \<in> set cfg \<longrightarrow>
        distinct (map fst cfg) \<longrightarrow> val r off = output_value s) \<and>
     (\<forall>r off v r' o'. set_value lib r off v = Inr r' \<longrightarrow>
        val r' o' = (if o' = off then v else val r o'))"

definition board_map :: "(int \<times> nat) list" where
  "board_map = [(1, 5), (2, 6), (3, 13), (4, 16), (5, 19), (6, 20), (7, 21), (8, 26)]"

definition gpiod_inv :: "'r gpiod \<Rightarrow> bool" where
  "gpiod_inv h \<longleftrightarrow> m_relayGpioMap h = board_map \<and> request h \<noteq> None"

text \<open>The board is active low: a relay is energised while its line is INACTIVE.\<close>

definition gpiod_level :: "('r \<Rightarrow> nat \<Rightarrow> line_value) \<Rightarrow> 'r gpiod \<Rightarrow> int \<Rightarrow> bool" where
  "gpiod_level val h i =
     (case (request h, map_of board_map i) of
        (Some r, Some off) \<Rightarrow> val r off = INACTIVE
      | _ \<Rightarrow> False)"

lemma constructor_map: "m_relayGpioMap GpiodRelayController = board_map"
  by (simp add: GpiodRelayController_def board_map_def)

lemma channel_cases:
  assumes "1 \<le> (i::int)" "i \<le> 8"
  shows "i = 1 \<or> i = 2 \<or> i = 3 \<or> i = 4 \<or> i = 5 \<or> i = 6 \<or> i = 7 \<or> i = 8"
  using assms by arith

lemma board_map_total:
  assumes "1 \<le> i" "i \<le> 8"
  obtains off where "map_of board_map i = Some off"
  using channel_cases [OF assms] by (auto simp: board_map_def)

lemma board_map_inj:
  "map_of board_map i = Some off \<Longrightarrow> map_of board_map j = Some off \<Longrightarrow> i = j"
  by (auto simp: board_map_def split: if_splits)

lemma lineConfig_board:
  "map fst (lineConfig board_map) = [5, 6, 13, 16, 19, 20, 21, 26]"
  "map_of board_map i = Some off \<Longrightarrow>
     (off, \<lparr>direction = OUTPUT, output_value = ACTIVE\<rparr>) \<in> set (lineConfig board_map)"
  by (auto simp: lineConfig_def board_map_def split: if_splits)

lemma openChip_fields:
  "m_relayGpioMap (snd (openChip lib h)) = m_relayGpioMap h"
  "request (snd (openChip lib h)) = request h"
  by (simp_all add: openChip_def)

lemma gpiod_init_True:
  assumes "gpiod_initHardware lib h = (True, h')"
  obtains p r where "do_request lib p ''minihild'' (lineConfig (m_relayGpioMap h)) = Inr r"
    "request h' = Some r" "m_relayGpioMap h' = m_relayGpioMap h"
  using assms openChip_fields [of lib h]
  by (cases "openChip lib h")
    (auto simp: gpiod_initHardware_def say_def Let_def split: if_splits sum.splits)

lemma gpiod_init_off:
  assumes laws: "gpiod_laws lib val" and h: "gpiod_initHardware lib GpiodRelayController = (True, h')"
  shows "gpiod_inv h'" and "\<not> gpiod_level val h' i"
proof -
  obtain p r where r: "do_request lib p ''minihild'' (lineConfig board_map) = Inr r"
    and h': "request h' = Some r" "m_relayGpioMap h' = board_map"
    using gpiod_init_True [OF h] unfolding constructor_map by metis
  show "gpiod_inv h'" using h' by (simp add: gpiod_inv_def)
  have d: "distinct (map fst (lineConfig board_map))" by (simp add: lineConfig_board(1))
  have "val r off = ACTIVE" if "map_of board_map i = Some off" for off
    using laws r d lineConfig_board(2) [OF that] unfolding gpiod_laws_def
    by (metis line_settings.select_convs(2))
  then show "\<not> gpiod_level val h' i"
    using h' by (cases "map_of board_map i") (auto simp: gpiod_level_def)
qed

text \<open>A write on a channel of the board, by the answer of the library.\<close>

lemma gpiod_write:
  assumes "m_relayGpioMap h = board_map" "request h = Some r" "map_of board_map i = Some off"
  shows "gpiod_setRelayPhysical lib i b h =
    (case set_value lib r off (if b then INACTIVE else ACTIVE) of
       Inl w \<Rightarrow> (False, say (''[GpiodRelayController] Error setting relay '' @ show_int i @ '': '' @ w) h)
     | Inr r' \<Rightarrow> (True, h\<lparr>request := Some r'\<rparr>))"
  using assms by (simp add: gpiod_setRelayPhysical_def)

lemma gpiod_inv_write:
  assumes "gpiod_inv h" "1 \<le> i" "i \<le> 8"
  shows "gpiod_inv (snd (gpiod_setRelayPhysical lib i b h))"
proof -
  obtain r where m: "m_relayGpioMap h = board_map" and r: "request h = Some r"
    using assms(1) by (auto simp: gpiod_inv_def)
  obtain off where off: "map_of board_map i = Some off" using assms(2,3) by (rule board_map_total)
  from m r off show ?thesis
    by (cases "set_value lib r off (if b then INACTIVE else ACTIVE)")
      (simp_all add: gpiod_write gpiod_inv_def say_def)
qed

lemma gpiod_level_write:
  assumes laws: "gpiod_laws lib val" and inv: "gpiod_inv h" and i: "1 \<le> i" "i \<le> 8" and j: "1 \<le> j" "j \<le> 8"
  shows "gpiod_level val (snd (gpiod_setRelayPhysical lib i b h)) j =
    (if fst (gpiod_setRelayPhysical lib i b h) \<and> j = i then b else gpiod_level val h j)"
proof -
  obtain r where m: "m_relayGpioMap h = board_map" and r: "request h = Some r"
    using inv by (auto simp: gpiod_inv_def)
  obtain off where off: "map_of board_map i = Some off" using i by (rule board_map_total)
  obtain offj where offj: "map_of board_map j = Some offj" using j by (rule board_map_total)
  have same: "offj = off \<longleftrightarrow> j = i" using off offj board_map_inj by auto
  show ?thesis
  proof (cases "set_value lib r off (if b then INACTIVE else ACTIVE)")
    case (Inl w)
    then show ?thesis by (simp add: gpiod_write [OF m r off] gpiod_level_def say_def)
  next
    case (Inr r')
    then have "val r' offj = (if offj = off then if b then INACTIVE else ACTIVE else val r offj)"
      using laws unfolding gpiod_laws_def by blast
    with Inr same show ?thesis by (simp add: gpiod_write [OF m r off] gpiod_level_def offj r)
  qed
qed

lemma gpiod_relay_hardware:
  assumes laws: "gpiod_laws lib val"
  shows "relay_hardware (gpiod_ops lib) (gpiod_level val) gpiod_inv (\<lambda>h. h = GpiodRelayController)"
  by (rule relay_hardware.intro)
    (simp_all add: gpiod_ops_def gpiod_init_off [OF laws] gpiod_inv_write gpiod_level_write [OF laws])

lemma gpiod_reliable_hardware:
  assumes laws: "gpiod_laws lib val" and never: "\<And>r off v. \<exists>r'. set_value lib r off v = Inr r'"
  shows "reliable_hardware (gpiod_ops lib) (gpiod_level val) gpiod_inv (\<lambda>h. h = GpiodRelayController)"
proof (rule reliable_hardware.intro [OF gpiod_relay_hardware [OF laws]], unfold_locales)
  fix h :: "'a gpiod" and i :: int and b
  assume inv: "gpiod_inv h" and i: "1 \<le> i" "i \<le> 8"
  obtain r where m: "m_relayGpioMap h = board_map" and r: "request h = Some r"
    using inv by (auto simp: gpiod_inv_def)
  obtain off where off: "map_of board_map i = Some off" using i by (rule board_map_total)
  obtain r' where "set_value lib r off (if b then INACTIVE else ACTIVE) = Inr r'" using never by blast
  then show "fst (setRelayPhysical (gpiod_ops lib) i b h)"
    by (simp add: gpiod_ops_def gpiod_write [OF m r off])
qed

end
