(* ===== verification/Relay_Properties.thy ===== *)
theory Relay_Properties
  imports Relay_Timing Sil_Relay_Controller Gpiod_Relay_Controller
begin

text \<open>
  The properties of the relay controller and of the two boards it drives, over the operations
  of Relay_Controller, the runs of Relay_Timing and the hardware contract of Relay_Hardware.
\<close>

section \<open>An example\<close>

text \<open>A simulated controller whose clock advances by 10 ms at each reading, up to 100 s.\<close>

definition demo_clock :: "nat \<Rightarrow> int" where
  "demo_clock n = 10000000 * int (min n 10000)"

definition demo :: "string list controller" where
  "demo = snd (init sil_ops (BaseRelayController SilRelayController demo_clock))"

lemma demo_clock_ok: "clock_ok demo_clock"
  by (auto simp: clock_ok_def demo_clock_def mono_def min_def)

lemma demo_init: "init sil_ops (BaseRelayController SilRelayController demo_clock) = (True, demo)"
  by (simp add: demo_def init_def sil_ops_def sil_initHardware_def SilRelayController_def)

lemma demo_reachable: "ctrl_reachable sil_ops SilRelayController demo"
  by (rule reach_init [OF demo_clock_ok demo_init])

lemma demo_fields:
  "relay demo i = (if 1 \<le> i \<and> i \<le> 8 then Some RelayState else None)"
  "clock demo = demo_clock" "clock_reads demo = 0" "m_running demo"
proof -
  obtain h' where "demo = (BaseRelayController SilRelayController demo_clock)
      \<lparr>hw := h', m_running := True, m_tickThread := True\<rparr>"
    by (rule init_True [OF demo_init])
  note d = this
  show "relay demo i = (if 1 \<le> i \<and> i \<le> 8 then Some RelayState else None)"
    "clock demo = demo_clock" "clock_reads demo = 0" "m_running demo"
    by (simp_all add: d relay_initial)
qed

lemma demo_inv: "ctrl_inv demo"
  by (rule ctrl_inv_reachable [OF demo_reachable])

section \<open>Invariant and operations\<close>

text \<open>
  C1: In every state the system reaches, whatever the requests, the ticks and the schedule,
  the controller has exactly the channels 1 to 8; a channel is in mode TOGGLE exactly when
  nothing runs on it, a running timer or pulse is on, and a blinking channel has the state of
  its phase.
\<close>

theorem controller_invariant:
  assumes "ctrl_reachable ops h c"
  shows "map fst (m_relayStates c) = [1..8] \<and>
    (\<forall>i rs. relay c i = Some rs \<longrightarrow>
       (active rs \<longleftrightarrow> mode rs \<noteq> TOGGLE) \<and>
       (mode rs = TIMER \<or> mode rs = PULSE \<longrightarrow> state rs) \<and>
       (mode rs = BLINK \<longrightarrow> state rs = blinkPhase rs))"
  using ctrl_inv_reachable [OF assms] by (simp add: ctrl_inv_def relay_inv_def)

theorem controller_invariant_witness:
  "map fst (m_relayStates (tick sil_ops (snd (startBlink sil_ops 3 200 300 2 demo)))) = [1..8]"
proof -
  have "m_running (snd (startBlink sil_ops 3 200 300 2 demo))"
    using demo_fields(4) by (simp add: op_commit relay_simps)
  then have "ctrl_reachable sil_ops SilRelayController (tick sil_ops (snd (startBlink sil_ops 3 200 300 2 demo)))"
    using demo_reachable by (intro reach_step [OF reach_step, OF _ step_blink step_tick])
  from controller_invariant [OF this] show ?thesis by simp
qed

text \<open>
  What each operation does on a channel in range: it succeeds, gives its channel the new
  record, leaves the seven others alone, and writes to the hardware exactly when the logical
  state changes. A new operation replaces what was running on the channel.
\<close>

theorem operations_effect:
  assumes "1 \<le> i" "i \<le> 8" "relay c i = Some rs"
  shows "(fst (setRelay ops i b c) \<and>
      relay (snd (setRelay ops i b c)) = (relay c)(i \<mapsto> rs\<lparr>active := False, mode := TOGGLE, state := b\<rparr>) \<and>
      hw (snd (setRelay ops i b c)) = (if state rs = b then hw c else snd (setRelayPhysical ops i b (hw c)))) \<and>
    (fst (startTimer ops i s c) \<and>
      relay (snd (startTimer ops i s c)) = (relay c)(i \<mapsto> rs\<lparr>mode := TIMER, active := True,
        startTime := clock c (clock_reads c), durationMs := ucast s * 1000, state := True\<rparr>) \<and>
      hw (snd (startTimer ops i s c)) = (if state rs then hw c else snd (setRelayPhysical ops i True (hw c)))) \<and>
    (fst (startPulse ops i d c) \<and>
      relay (snd (startPulse ops i d c)) = (relay c)(i \<mapsto> rs\<lparr>mode := PULSE, active := True,
        startTime := clock c (clock_reads c), durationMs := ucast d, state := True\<rparr>) \<and>
      hw (snd (startPulse ops i d c)) = (if state rs then hw c else snd (setRelayPhysical ops i True (hw c)))) \<and>
    (fst (startBlink ops i onMs offMs n c) \<and>
      relay (snd (startBlink ops i onMs offMs n c)) = (relay c)(i \<mapsto> rs\<lparr>mode := BLINK, active := True,
        blinkOnMs := onMs, blinkOffMs := offMs, blinkCount := n, blinkPhase := True,
        startTime := clock c (clock_reads c), state := True\<rparr>) \<and>
      hw (snd (startBlink ops i onMs offMs n c)) =
        (if state rs then hw c else snd (setRelayPhysical ops i True (hw c))))"
proof -
  note eval = op_commit [OF assms(1,2)] commit_def relay_simps map_of_om_put om_ref_Some [OF assms(3)]
    rs_toggle_def rs_timed_def rs_blink_def fst_conv snd_conv
  show ?thesis by (intro conjI) (simp_all add: eval fun_upd_def)
qed

theorem operations_effect_witness:
  "relay (snd (startTimer sil_ops 2 5 demo)) 2 = Some (RelayState\<lparr>mode := TIMER, active := True,
     startTime := 0, durationMs := 5000, state := True\<rparr>)"
  using operations_effect [of 2 demo RelayState sil_ops _ 5]
  by (simp add: demo_fields demo_clock_def)

text \<open>
  A channel outside 1 to 8 is refused by every operation, without any change of state.
\<close>

theorem out_of_range_refused:
  assumes "i < 1 \<or> 8 < i"
  shows "setRelay ops i b c = (False, c) \<and> startTimer ops i s c = (False, c) \<and>
    startPulse ops i d c = (False, c) \<and> startBlink ops i onMs offMs n c = (False, c) \<and>
    getRelayStatus i c = (Inr ''invalid channel'', c) \<and> getRelay i c = Inr False"
  using assms by (auto simp: op_invalid)

theorem out_of_range_refused_witness: "setRelay sil_ops 9 True demo = (False, demo)"
  using out_of_range_refused [of 9 sil_ops True demo] by simp

section \<open>Time\<close>

text \<open>
  One tick moves every channel by its own rule, whatever the others do: it reads the clock
  once, and each channel that is due at that reading fires, each other channel keeps its record.
\<close>

theorem tick_channelwise:
  assumes "ctrl_reachable ops h c"
  shows "relay (tick ops c) j = map_option (rs_tick (clock c (clock_reads c))) (relay c j)"
  by (rule tick_fields(2)) (use ctrl_inv_reachable [OF assms] in \<open>simp add: ctrl_inv_def\<close>)

theorem tick_channelwise_witness: "relay (tick sil_ops demo) 4 = Some RelayState"
  using tick_channelwise [OF demo_reachable, of 4]
  by (simp add: demo_fields rs_tick_def RelayState_def)

text \<open>A channel on which an operation has just started, after \<open>n\<close> ticks.\<close>

lemma started_run:
  assumes "ctrl_inv c" "1 \<le> i" "i \<le> 8" "relay_inv rs" "startTime rs = clock c (clock_reads c)"
  shows "relay ((tick ops ^^ n) (commit ops i rs (snd (steady_now c)))) i =
    Some (rs_run (clock c) (Suc (clock_reads c)) n rs)"
proof -
  let ?c = "commit ops i rs (snd (steady_now c))"
  have "map fst (m_relayStates ?c) = [1..8]"
    using ctrl_inv_start [OF assms] by (simp add: ctrl_inv_def)
  from tick_run [OF this, where ops = ops and n = n and j = i] show ?thesis
    by (simp add: rs_run_def relay_simps map_simps)
qed

lemma uint_seconds: "uint (ucast (s::u32) * 1000 :: u64) = uint s * 1000"
proof -
  have "uint s < 2 ^ 32" using uint_lt2p [of s] by simp
  then have "uint s * 1000 < 2 ^ 64" by simp
  then show ?thesis by (simp add: uint_word_ariths unsigned_ucast_eq take_bit_int_eq_self)
qed

lemma uint_duration: "uint (ucast (d::u32) :: u64) = uint d"
proof -
  have "uint d < 2 ^ 32" using uint_lt2p [of d] by simp
  then show ?thesis by (simp add: unsigned_ucast_eq take_bit_int_eq_self)
qed

lemma timed_started:
  assumes "ctrl_inv c" "1 \<le> i" "i \<le> 8" "0 < n" "m = TIMER \<or> m = PULSE"
  shows "\<exists>rs. relay ((tick ops ^^ n) (commit ops i (rs_timed m (clock c (clock_reads c)) dur rs0)
      (snd (steady_now c)))) i = Some rs \<and>
    (if elapsed_ms (clock c (clock_reads c + n)) (clock c (clock_reads c)) < uint dur
     then mode rs = m \<and> active rs \<and> state rs else mode rs = TOGGLE \<and> \<not> active rs \<and> \<not> state rs)"
proof -
  let ?rs = "rs_timed m (clock c (clock_reads c)) dur rs0"
  have clk: "clock_ok (clock c)" using assms(1) by (simp add: ctrl_inv_def)
  have f: "startTime ?rs = clock c (clock_reads c)" "durationMs ?rs = dur" "mode ?rs = m" "active ?rs" "state ?rs"
    by (simp_all add: rs_timed_def)
  have inv: "relay_inv ?rs" using assms(5) by simp
  note run = started_run [OF assms(1-3) inv f(1)]
    timed_run [OF clk assms(5) f(1) le_SucI [OF order_refl] f(3,4)]
  show ?thesis unfolding run using assms(4) f
    by (simp add: rs_toggle_def)
qed

text \<open>
  A timer of \<open>s\<close> seconds and a pulse of \<open>d\<close> milliseconds end at the first tick at or after
  their time, and not before: after \<open>n\<close> ticks the channel is still on exactly when the last of
  them read less than the duration on the clock, and is off and idle for ever after that.
  Any 32-bit duration is served, with no upper bound and without overflow.
\<close>

theorem timers_are_exact:
  assumes "ctrl_reachable ops h c" "1 \<le> i" "i \<le> 8" "0 < n"
  shows "\<exists>rs rs'. relay ((tick ops ^^ n) (snd (startTimer ops i s c))) i = Some rs \<and>
      relay ((tick ops ^^ n) (snd (startPulse ops i d c))) i = Some rs' \<and>
      (if elapsed_ms (clock c (clock_reads c + n)) (clock c (clock_reads c)) < 1000 * uint s
       then mode rs = TIMER \<and> active rs \<and> state rs
       else mode rs = TOGGLE \<and> \<not> active rs \<and> \<not> state rs) \<and>
      (if elapsed_ms (clock c (clock_reads c + n)) (clock c (clock_reads c)) < uint d
       then mode rs' = PULSE \<and> active rs' \<and> state rs'
       else mode rs' = TOGGLE \<and> \<not> active rs' \<and> \<not> state rs')"
proof -
  let ?k = "clock_reads c" and ?rs0 = "om_ref RelayState (m_relayStates c) i"
  note st = timed_started [OF ctrl_inv_reachable [OF assms(1)] assms(2-4)]
  let ?t = "\<lambda>m dur. commit ops i (rs_timed m (clock c ?k) dur ?rs0) (snd (steady_now c))"
  have ops: "snd (startTimer ops i s c) = ?t TIMER (ucast s * 1000)" "snd (startPulse ops i d c) = ?t PULSE (ucast d)"
    using assms(2,3) by (simp_all add: op_commit)
  show ?thesis
    using st [of TIMER ops "ucast s * 1000" ?rs0] st [of PULSE ops "ucast d" ?rs0]
    unfolding ops uint_seconds uint_duration mult.commute [of "uint s"] by blast
qed

theorem timers_are_exact_witness:
  "\<exists>rs. relay ((tick sil_ops ^^ 100) (snd (startTimer sil_ops 1 1 demo))) 1 = Some rs \<and> \<not> state rs"
  using timers_are_exact [OF demo_reachable, of 1 100 1 50]
  by (auto simp: demo_fields demo_clock_def elapsed_ms_def)

text \<open>
  A channel on which nothing runs is left alone by every tick: setRelay ends a timer, a
  pulse or a blink for good.
\<close>

theorem idle_channel_stays:
  assumes "ctrl_reachable ops h c" "1 \<le> i" "i \<le> 8"
  shows "\<exists>rs. relay ((tick ops ^^ n) (snd (setRelay ops i b c))) i = Some rs \<and>
    \<not> active rs \<and> mode rs = TOGGLE \<and> state rs = b"
proof -
  let ?rs = "rs_toggle b (om_ref RelayState (m_relayStates c) i)"
  let ?c = "commit ops i ?rs c"
  have inv: "ctrl_inv (snd (setRelay ops i b c))"
    using assms(1) by (intro ctrl_inv_ops ctrl_inv_reachable)
  then have keys: "map fst (m_relayStates ?c) = [1..8]"
    using assms(2,3) by (simp add: op_commit ctrl_inv_def)
  have "fold rs_tick ts ?rs = ?rs" for ts
    by (induction ts) (simp_all add: rs_tick_def rs_toggle_def)
  with tick_run [OF keys, where ops = ops and n = n and j = i] assms(2,3) show ?thesis
    by (simp add: op_commit relay_simps map_simps) (simp add: rs_toggle_def)
qed

theorem idle_channel_stays_witness:
  "\<exists>rs. relay ((tick sil_ops ^^ 3) (snd (setRelay sil_ops 6 True demo))) 6 = Some rs \<and> state rs"
  using idle_channel_stays [OF demo_reachable, of 6 3 True] by auto

text \<open>
  A blink with count \<open>n > 0\<close> whose ticks each find the current phase over makes exactly
  \<open>n\<close> pulses: after \<open>k\<close> ticks with \<open>k < 2 n\<close> the relay is on when \<open>k\<close> is even and off when it
  is odd, the count has gone down by one for each finished off phase, and after \<open>2 n\<close> ticks the
  channel is idle and off.
\<close>

theorem blink_is_exact:
  assumes "ctrl_reachable ops h c" "1 \<le> i" "i \<le> 8" "cnt \<noteq> 0" "k \<le> 2 * unat cnt"
    and "prompt (clock c) (Suc (clock_reads c)) (clock c (clock_reads c)) onMs offMs (2 * unat cnt)"
  shows "\<exists>rs. relay ((tick ops ^^ k) (snd (startBlink ops i onMs offMs cnt c))) i = Some rs \<and>
    (if k < 2 * unat cnt
     then mode rs = BLINK \<and> active rs \<and> state rs = even k \<and> unat (blinkCount rs) = unat cnt - k div 2
     else mode rs = TOGGLE \<and> \<not> active rs \<and> \<not> state rs)"
proof -
  let ?rs = "rs_blink (clock c (clock_reads c)) onMs offMs cnt (om_ref RelayState (m_relayStates c) i)"
  have f: "blinking ?rs" "blinkPhase ?rs" "state ?rs" "blinkCount ?rs = cnt" "blinkOnMs ?rs = onMs"
    "blinkOffMs ?rs = offMs" "startTime ?rs = clock c (clock_reads c)"
    by (simp_all add: blinking_def rs_blink_def)
  have "relay ((tick ops ^^ k) (snd (startBlink ops i onMs offMs cnt c))) i =
      Some (rs_run (clock c) (Suc (clock_reads c)) k ?rs)"
    using started_run [OF ctrl_inv_reachable [OF assms(1)] assms(2,3) relay_inv_ops(3) f(7)] assms(2,3)
    by (simp only: op_commit snd_conv)
  moreover have "blink_at (clock c) (Suc (clock_reads c)) ?rs k (rs_run (clock c) (Suc (clock_reads c)) k ?rs)"
    using assms(4,5) prompt_mono [OF assms(6,5)] by (intro blink_run [OF f(1-3)]) (simp_all only: f simp_thms)
  ultimately show ?thesis unfolding blink_at_def blinking_def f(4) by auto
qed

lemma demo_prompt: "prompt demo_clock 1 0 10 5 4"
proof -
  have "n = 0 \<or> n = 1 \<or> n = 2 \<or> n = 3" if "n < 4" for n :: nat using that by arith
  then show ?thesis
    by (auto simp: prompt_def gap_ms_def demo_clock_def elapsed_ms_def)
qed

theorem blink_is_exact_witness:
  "\<exists>rs. relay ((tick sil_ops ^^ 4) (snd (startBlink sil_ops 5 10 5 2 demo))) 5 = Some rs \<and> \<not> active rs"
  using blink_is_exact [OF demo_reachable, of 5 2 4 10 5] demo_prompt
  by (auto simp: demo_fields demo_clock_def)

text \<open>
  Whatever the schedule of the ticks, a blink with count \<open>n > 0\<close> switches its relay on
  fewer than \<open>n\<close> times after its start, which switched it on once: never more than \<open>n\<close> pulses.
\<close>

theorem blink_never_exceeds_count:
  assumes "ctrl_reachable ops h c" "relay c i = Some rs" "mode rs = BLINK" "blinkCount rs \<noteq> 0"
  shows "rises ts rs < unat (blinkCount rs)"
proof -
  have "relay_inv rs" using ctrl_inv_reachable [OF assms(1)] assms(2) by (simp add: ctrl_inv_def)
  moreover from this have "blinking rs" using assms(3) by (simp add: relay_inv_def blinking_def)
  ultimately show ?thesis using assms(4) by (rule blink_rises)
qed

theorem blink_never_exceeds_count_witness:
  "rises [5, 7, 9] (rs_blink 0 10 5 2 RelayState) < 2"
proof -
  have r: "ctrl_reachable sil_ops SilRelayController (snd (startBlink sil_ops 5 10 5 2 demo))"
    using demo_reachable by (rule reach_step [OF _ step_blink])
  have "relay (snd (startBlink sil_ops 5 10 5 2 demo)) 5 = Some (rs_blink 0 10 5 2 RelayState)"
    by (simp add: op_commit relay_simps map_simps demo_fields)
      (simp add: demo_clock_def)
  from blink_never_exceeds_count [OF r this, of "[5, 7, 9]"] show ?thesis
    by (simp add: rs_blink_def)
qed

text \<open>A blink with count 0 never ends by itself, whatever the schedule.\<close>

theorem blink_zero_is_endless:
  assumes "ctrl_reachable ops h c" "1 \<le> i" "i \<le> 8"
  shows "\<exists>rs. relay ((tick ops ^^ n) (snd (startBlink ops i onMs offMs 0 c))) i = Some rs \<and>
    mode rs = BLINK \<and> active rs \<and> blinkCount rs = 0"
proof -
  let ?rs = "rs_blink (clock c (clock_reads c)) onMs offMs 0 (om_ref RelayState (m_relayStates c) i)"
  have f: "blinking ?rs" "blinkCount ?rs = 0" "startTime ?rs = clock c (clock_reads c)"
    by (simp_all add: blinking_def rs_blink_def)
  have "relay ((tick ops ^^ n) (snd (startBlink ops i onMs offMs 0 c))) i =
      Some (rs_run (clock c) (Suc (clock_reads c)) n ?rs)"
    using started_run [OF ctrl_inv_reachable [OF assms(1)] assms(2,3) relay_inv_ops(3) f(3)] assms(2,3)
    by (simp only: op_commit snd_conv)
  with blink_forever [OF f(1,2)] show ?thesis by (auto simp: blinking_def)
qed

theorem blink_zero_is_endless_witness:
  "\<exists>rs. relay ((tick sil_ops ^^ 7) (snd (startBlink sil_ops 8 1 1 0 demo))) 8 = Some rs \<and> active rs"
  using blink_zero_is_endless [OF demo_reachable, of 8 7 1 1] by auto

section \<open>What clients see\<close>

text \<open>
  The status text of a channel tells its state and what runs on it, with the time that is
  left, and the buffer of 256 bytes never cuts it: it is shorter than 64 characters.
\<close>

theorem status_is_complete:
  assumes "ctrl_reachable ops h c" "relay c i = Some rs"
  shows "fst (getRelayStatus i c) = Inr (status_text (clock c (clock_reads c)) i rs) \<and>
    length (status_text (clock c (clock_reads c)) i rs) < 64"
proof -
  have inv: "ctrl_inv c" using assms(1) by (rule ctrl_inv_reachable)
  then have "1 \<le> i" "i \<le> 8" using ctrl_inv_relay [OF inv, of i] assms(2) by auto
  moreover have "relay_inv rs" using inv assms(2) by (simp add: ctrl_inv_def)
  ultimately show ?thesis using assms(2) by (simp add: getRelayStatus_text length_status_text)
qed

theorem status_is_complete_witness: "fst (getRelayStatus 7 demo) = Inr ''Channel 7: OFF (Toggle)''"
  using status_is_complete [OF demo_reachable, of 7 RelayState]
  by (simp add: demo_fields status_text_def RelayState_def on_off_def show_int_def show_nat.simps)

section \<open>The boards\<close>

text \<open>
  C17: On the simulated board the state that clients read is the level of the relay, in every
  reachable state and for all channels.
\<close>

theorem sil_states_are_levels:
  assumes "ctrl_reachable sil_ops SilRelayController c" "1 \<le> i" "i \<le> 8"
  shows "getRelay i c = Inr (sil_level (hw c) i)"
proof -
  have "sil.coherent c" using assms(1) by (rule sil.coherent_reachable) simp
  then have "sil_level (hw c) i = state (om_ref RelayState (m_relayStates c) i)"
    using assms(2,3) by (simp add: sil.coherent_def sil.agrees_def)
  moreover obtain rs where rs: "relay c i = Some rs"
    using ctrl_inv_obtain [OF ctrl_inv_reachable [OF assms(1)] assms(2,3)] by metis
  ultimately show ?thesis using assms(2,3) om_at_Some [OF rs] om_ref_Some [OF rs]
    by (simp add: getRelay_def)
qed

theorem sil_states_are_levels_witness:
  "sil_level (hw (snd (setRelay sil_ops 4 True demo))) 4"
proof -
  have r: "ctrl_reachable sil_ops SilRelayController (snd (setRelay sil_ops 4 True demo))"
    using demo_reachable by (rule reach_step [OF _ step_set])
  have rs: "relay (snd (setRelay sil_ops 4 True demo)) 4 = Some (rs_toggle True RelayState)"
    by (simp add: op_commit relay_simps map_simps demo_fields)
  from sil_states_are_levels [OF r, of 4] om_at_Some [OF rs] show ?thesis
    by (simp add: getRelay_def rs_toggle_def)
qed

text \<open>
  A board in memory: a request is the map of the values of its lines; writes to the lines of
  \<open>broken\<close> fail.
\<close>

definition memory_gpiod :: "nat set \<Rightarrow> (nat \<Rightarrow> line_value) gpiod_lib" where
  "memory_gpiod broken = \<lparr>chip_open = (\<lambda>_. True),
     do_request = (\<lambda>_ _ cfg. Inr (\<lambda>off. case map_of cfg off of Some s \<Rightarrow> output_value s | None \<Rightarrow> ACTIVE)),
     set_value = (\<lambda>r off v. if off \<in> broken then Inl ''Input/output error'' else Inr (r(off := v)))\<rparr>"

lemma memory_laws: "gpiod_laws (memory_gpiod broken) (\<lambda>r off. r off)"
  by (auto simp: gpiod_laws_def memory_gpiod_def split: if_splits)

lemma memory_init:
  "\<exists>c. init (gpiod_ops (memory_gpiod broken)) (BaseRelayController GpiodRelayController demo_clock) = (True, c)"
  by (simp add: init_def gpiod_ops_def gpiod_initHardware_def memory_gpiod_def openChip_def say_def)

text \<open>
  C18: On the GPIO board, as long as libgpiod does what it documents and no write fails, the
  state that clients read is the level of the line: a relay is reported on exactly when its
  line is driven INACTIVE, since the board is active low.
\<close>

theorem gpiod_states_are_levels:
  assumes "gpiod_laws lib val" "\<And>r off v. \<exists>r'. set_value lib r off v = Inr r'"
    and "ctrl_reachable (gpiod_ops lib) GpiodRelayController c" "map_of board_map i = Some off"
  shows "\<exists>r. request (hw c) = Some r \<and> getRelay i c = Inr (val r off = INACTIVE)"
proof -
  have range: "1 \<le> i" "i \<le> 8" using assms(4) by (auto simp: board_map_def split: if_splits)
  note board = gpiod_reliable_hardware [OF assms(1,2)]
  note hwc = reliable_hardware.axioms(1) [OF board]
  have "relay_hardware.coherent (gpiod_level val) gpiod_inv c"
    using reliable_hardware.coherent_reachable [OF board assms(3)] by simp
  then have inv: "gpiod_inv (hw c)"
    and lev: "gpiod_level val (hw c) i = state (om_ref RelayState (m_relayStates c) i)"
    using range by (simp_all add: relay_hardware.coherent_def [OF hwc] relay_hardware.agrees_def [OF hwc])
  obtain r where r: "request (hw c) = Some r" using inv by (auto simp: gpiod_inv_def)
  obtain rs where rs: "relay c i = Some rs"
    using ctrl_inv_obtain [OF ctrl_inv_reachable [OF assms(3)] range] by metis
  show ?thesis using lev r rs range assms(4) om_at_Some [OF rs]
    by (simp add: gpiod_level_def getRelay_def)
qed

theorem gpiod_states_are_levels_witness:
  "\<exists>c r. ctrl_reachable (gpiod_ops (memory_gpiod {})) GpiodRelayController c \<and>
     request (hw c) = Some r \<and> getRelay 3 c = Inr (r 13 = INACTIVE)"
proof -
  obtain c where c: "init (gpiod_ops (memory_gpiod {})) (BaseRelayController GpiodRelayController demo_clock) = (True, c)"
    using memory_init by blast
  have w: "\<exists>r'. set_value (memory_gpiod {}) r off v = Inr r'" for r off v
    by (simp add: memory_gpiod_def)
  have reach: "ctrl_reachable (gpiod_ops (memory_gpiod {})) GpiodRelayController c"
    using demo_clock_ok c by (rule reach_init)
  from gpiod_states_are_levels [OF memory_laws w this, of 3 13] reach show ?thesis
    by (auto simp: board_map_def)
qed

lemma commit_hw:
  "hw (commit ops i rs c) = (if state (om_ref RelayState (m_relayStates c) i) = state rs then hw c
     else snd (setRelayPhysical ops i (state rs) (hw c)))"
  by (simp add: commit_def)

text \<open>
  C19: A write the board refuses is not reported. When setRelayPhysical fails, setRelay still
  answers true and the controller shows the new state, which the relay does not have; a
  second setRelay to the same state does not even try again.
\<close>

theorem hardware_failure_unreported:
  assumes "gpiod_laws lib val" "gpiod_inv (hw c)" "1 \<le> i" "i \<le> 8" "relay c i = Some rs"
    and "gpiod_level val (hw c) i = state rs" "state rs \<noteq> b"
    and "\<not> fst (gpiod_setRelayPhysical lib i b (hw c))"
  shows "fst (setRelay (gpiod_ops lib) i b c) \<and>
    getRelay i (snd (setRelay (gpiod_ops lib) i b c)) = Inr b \<and>
    gpiod_level val (hw (snd (setRelay (gpiod_ops lib) i b c))) i = (\<not> b) \<and>
    hw (snd (setRelay (gpiod_ops lib) i b (snd (setRelay (gpiod_ops lib) i b c)))) =
      hw (snd (setRelay (gpiod_ops lib) i b c))"
proof -
  let ?c = "commit (gpiod_ops lib) i (rs_toggle b rs) c"
  have set: "setRelay (gpiod_ops lib) i b c = (True, ?c)"
    using assms(3-5) by (simp add: op_commit)
  have rs': "relay ?c i = Some (rs_toggle b rs)" by (simp add: relay_simps map_simps)
  have st: "state (rs_toggle b r) = b" for r by (simp add: rs_toggle_def)
  have get: "getRelay i ?c = Inr b" using assms(3,4) om_at_Some [OF rs'] st by (simp add: getRelay_def)
  have "hw ?c = snd (gpiod_setRelayPhysical lib i b (hw c))"
    using assms(5,7) st by (simp add: commit_def gpiod_ops_def)
  then have "gpiod_level val (hw ?c) i = (\<not> b)"
    using gpiod_level_write [OF assms(1,2,3,4,3,4), of b] assms(6,7,8) by simp
  moreover have "hw (snd (setRelay (gpiod_ops lib) i b ?c)) = hw ?c"
    using assms(3,4) om_ref_Some [OF rs'] st by (simp add: op_commit commit_hw [of _ _ _ ?c])
  ultimately show ?thesis using set get by simp
qed

theorem hardware_failure_unreported_witness:
  "\<exists>c. fst (setRelay (gpiod_ops (memory_gpiod {5})) 1 True c) \<and>
     \<not> gpiod_level (\<lambda>r off. r off) (hw (snd (setRelay (gpiod_ops (memory_gpiod {5})) 1 True c))) 1"
proof -
  let ?h = "GpiodRelayController\<lparr>request := Some (\<lambda>_. ACTIVE)\<rparr>"
  let ?c = "BaseRelayController ?h demo_clock"
  have inv: "gpiod_inv (hw ?c)" by (simp add: gpiod_inv_def constructor_map)
  have rel: "relay ?c 1 = Some RelayState" by (simp add: relay_initial)
  have lev: "gpiod_level (\<lambda>r off. r off) (hw ?c) 1 = state RelayState"
    by (simp add: gpiod_level_def board_map_def RelayState_def)
  have ne: "state RelayState \<noteq> True" by (simp add: RelayState_def)
  have bad: "\<not> fst (gpiod_setRelayPhysical (memory_gpiod {5}) 1 True (hw ?c))"
  proof -
    have "gpiod_setRelayPhysical (memory_gpiod {5}) 1 True ?h =
        (case set_value (memory_gpiod {5}) (\<lambda>_. ACTIVE) 5 INACTIVE of
           Inl w \<Rightarrow> (False, say (''[GpiodRelayController] Error setting relay '' @ show_int 1 @ '': '' @ w) ?h)
         | Inr r' \<Rightarrow> (True, ?h\<lparr>request := Some r'\<rparr>))"
      by (subst gpiod_write [where r = "\<lambda>_. ACTIVE" and off = 5])
        (simp_all add: constructor_map board_map_def)
    then show ?thesis by (simp add: memory_gpiod_def)
  qed
  from hardware_failure_unreported [OF memory_laws inv _ _ rel lev ne bad] show ?thesis
    by (intro exI [of _ ?c]) simp
qed

end
