(* ===== verification/Json.thy ===== *)
theory Json
  imports Prelude
begin

text \<open>
  JSON values, and the interface of the nlohmann library the daemon and the desktop client
  use. The value type is the data of RFC 8259, with the library's split of numbers into
  integers and doubles (kept as their 64 bits, which no source looks at); an object is sorted
  by key like the std::map behind it. Parsing, printing and the conversions get<T>() are the
  fields of \<open>json_lib\<close>, an argument of everything that uses them.
\<close>

section \<open>Values\<close>

datatype json =
    JNull
  | JBool bool
  | JInt int
  | JFloat u64
  | JString string
  | JArray "json list"
  | JObject "(string \<times> json) list"

fun is_object :: "json \<Rightarrow> bool" where
  "is_object (JObject m) = True"
| "is_object _ = False"

fun is_array :: "json \<Rightarrow> bool" where
  "is_array (JArray xs) = True"
| "is_array _ = False"

fun elements :: "json \<Rightarrow> json list" where
  "elements (JArray xs) = xs"
| "elements _ = []"

fun items :: "json \<Rightarrow> (string \<times> json) list" where
  "items (JObject m) = m"
| "items _ = []"

text \<open>\<open>contains\<close> is false on anything but an object.\<close>

definition contains :: "json \<Rightarrow> string \<Rightarrow> bool" where
  "contains j k \<longleftrightarrow> map_of (items j) k \<noteq> None"

text \<open>\<open>j[k]\<close> read, which the sources do only behind \<open>contains\<close>.\<close>

definition field :: "json \<Rightarrow> string \<Rightarrow> json" where
  "field j k = om_ref JNull (items j) k"

text \<open>\<open>j[k] = v\<close>, which the sources do only on null (it becomes an object) and on objects.\<close>

definition jset :: "string \<Rightarrow> json \<Rightarrow> json \<Rightarrow> json" where
  "jset k v j = JObject (om_put k v (items j))"

text \<open>The object of an initializer list of pairs.\<close>

definition jobj :: "(string \<times> json) list \<Rightarrow> json" where
  "jobj kvs = fold (\<lambda>(k, v) j. jset k v j) kvs (JObject [])"

lemma contains_simps [simp]:
  "contains JNull k = False" "contains (JBool b) k = False" "contains (JInt n) k = False"
  "contains (JFloat d) k = False" "contains (JString t) k = False" "contains (JArray xs) k = False"
  by (simp_all add: contains_def)

lemma jset_simps [simp]:
  "is_object (jset k v j)" "jset k v j \<noteq> JNull"
  "contains (jset k v j) k' \<longleftrightarrow> k' = k \<or> contains j k'"
  "field (jset k v j) k' = (if k' = k then v else field j k')"
  by (simp_all add: jset_def contains_def field_def map_simps)

lemma jobj_simps [simp]:
  "is_object (JObject [])" "\<not> contains (JObject []) k" "field (JObject []) k = JNull"
  by (simp_all add: contains_def field_def om_ref_def)

lemma contains_is_object: "contains j k \<Longrightarrow> is_object j"
  by (cases j) simp_all

lemma items_jset: "items (jset k v j) = om_put k v (items j)"
  by (simp add: jset_def)

section \<open>The library\<close>

record json_lib =
  parse :: "string \<Rightarrow> exn + json"
  dump :: "int \<Rightarrow> json \<Rightarrow> exn + string"
  get_int :: "json \<Rightarrow> exn + int"
  get_u32 :: "json \<Rightarrow> exn + u32"
  get_bool :: "json \<Rightarrow> exn + bool"
  get_string :: "json \<Rightarrow> exn + string"

text \<open>
  What the library documents about the conversions: a value of the type asked for, in range,
  is returned; a value of a kind that cannot be converted throws a type_error.
\<close>

definition fits_int :: "int \<Rightarrow> bool" where
  "fits_int n \<longleftrightarrow> - (2 ^ 31) \<le> n \<and> n < 2 ^ 31"

fun is_numeric :: "json \<Rightarrow> bool" where
  "is_numeric (JInt n) = True"
| "is_numeric (JFloat d) = True"
| "is_numeric (JBool b) = True"
| "is_numeric _ = False"

definition throws :: "exn + 'a \<Rightarrow> bool" where
  "throws r \<longleftrightarrow> (case r of Inl (Std_exception w) \<Rightarrow> True | _ \<Rightarrow> False)"

definition json_laws :: "json_lib \<Rightarrow> bool" where
  "json_laws L \<longleftrightarrow>
     (\<forall>n. fits_int n \<longrightarrow> get_int L (JInt n) = Inr n) \<and>
     (\<forall>n. 0 \<le> n \<longrightarrow> n < 2 ^ 32 \<longrightarrow> get_u32 L (JInt n) = Inr (word_of_int n)) \<and>
     (\<forall>b. get_bool L (JBool b) = Inr b) \<and>
     (\<forall>t. get_string L (JString t) = Inr t) \<and>
     (\<forall>j. \<not> is_numeric j \<longrightarrow> throws (get_int L j) \<and> throws (get_u32 L j)) \<and>
     (\<forall>j. (\<forall>b. j \<noteq> JBool b) \<longrightarrow> throws (get_bool L j)) \<and>
     (\<forall>j. (\<forall>t. j \<noteq> JString t) \<longrightarrow> throws (get_string L j))"

lemma json_lawsD:
  assumes "json_laws L"
  shows "fits_int n \<Longrightarrow> get_int L (JInt n) = Inr n"
    and "0 \<le> n \<Longrightarrow> n < 2 ^ 32 \<Longrightarrow> get_u32 L (JInt n) = Inr (word_of_int n)"
    and "get_bool L (JBool b) = Inr b"
    and "get_string L (JString t) = Inr t"
    and "\<not> is_numeric j \<Longrightarrow> throws (get_int L j)"
    and "\<not> is_numeric j \<Longrightarrow> throws (get_u32 L j)"
    and "(\<And>b. j \<noteq> JBool b) \<Longrightarrow> throws (get_bool L j)"
    and "(\<And>t. j \<noteq> JString t) \<Longrightarrow> throws (get_string L j)"
  using assms unfolding json_laws_def by blast+

lemma throws_obtain:
  assumes "throws r"
  obtains w where "r = Inl (Std_exception w)"
  using assms by (auto simp: throws_def split: sum.splits exn.splits)

lemma get_u32_word:
  assumes "json_laws L"
  shows "get_u32 L (JInt (uint (w::u32))) = Inr w"
proof -
  have "uint w < 2 ^ 32" using uint_lt2p [of w] by simp
  then show ?thesis using json_lawsD(2) [OF assms, of "uint w"] by simp
qed

lemma fits_int_channel: "1 \<le> i \<Longrightarrow> i \<le> 8 \<Longrightarrow> fits_int i"
  by (simp add: fits_int_def)

section \<open>A concrete instance\<close>

text \<open>
  The conversions as the laws state them, with the integer conversions wrapping, over a table
  of the texts that parse; a value prints as its text in the table. It shows that the laws
  can hold and evaluates the examples.
\<close>

fun table_print :: "(string \<times> json) list \<Rightarrow> json \<Rightarrow> exn + string" where
  "table_print [] j = Inl (Std_exception ''[json.exception.type_error.316] invalid UTF-8 byte'')"
| "table_print ((t, j') # tab) j = (if j' = j then Inr t else table_print tab j)"

definition table_lib :: "(string \<times> json) list \<Rightarrow> json_lib" where
  "table_lib tab =
     \<lparr>parse = (\<lambda>t. case map_of tab t of None \<Rightarrow> Inl (Parse_error ''syntax error'') | Some j \<Rightarrow> Inr j),
      dump = (\<lambda>_. table_print tab),
      get_int = (\<lambda>j. case j of JInt n \<Rightarrow> Inr (sint (word_of_int n :: u32)) | JBool b \<Rightarrow> Inr (of_bool b)
        | _ \<Rightarrow> Inl (Std_exception ''[json.exception.type_error.302] type must be number'')),
      get_u32 = (\<lambda>j. case j of JInt n \<Rightarrow> Inr (word_of_int n) | JBool b \<Rightarrow> Inr (of_bool b)
        | _ \<Rightarrow> Inl (Std_exception ''[json.exception.type_error.302] type must be number'')),
      get_bool = (\<lambda>j. case j of JBool b \<Rightarrow> Inr b
        | _ \<Rightarrow> Inl (Std_exception ''[json.exception.type_error.302] type must be boolean'')),
      get_string = (\<lambda>j. case j of JString t \<Rightarrow> Inr t
        | _ \<Rightarrow> Inl (Std_exception ''[json.exception.type_error.302] type must be string''))\<rparr>"

lemma json_laws_table: "json_laws (table_lib tab)"
proof -
  have "sint (word_of_int n :: u32) = n" if "fits_int n" for n
    using that by (simp add: fits_int_def signed_of_int signed_take_bit_int_eq_self)
  then show ?thesis
    by (auto simp: json_laws_def table_lib_def throws_def split: json.splits)
qed

end
