(* ===== verification/Jsonrpc_Router.thy ===== *)
theory Jsonrpc_Router
  imports Json
begin

text \<open>
  JsonRpcRouter (include/protocol/jsonrpc_router.h, src/protocol/jsonrpc_router.cc): the table
  of methods and the processing of one line of text into one line of answer. A method
  handler can change a state \<open>'s\<close>, the one its closure captured. The contract IRpcHandler,
  which the TCP server relies on, is the locale \<open>rpc_handler\<close>.
\<close>

section \<open>The table of methods\<close>

type_synonym 's method_handler = "json \<Rightarrow> json \<Rightarrow> 's \<Rightarrow> (exn + json) \<times> 's"

record 's router =
  m_methods :: "(string \<times> 's method_handler) list"
  router_out :: "string list"

definition JsonRpcRouter :: "'s router" where
  "JsonRpcRouter = \<lparr>m_methods = [], router_out = []\<rparr>"

definition registerMethod :: "string \<Rightarrow> 's method_handler \<Rightarrow> 's router \<Rightarrow> 's router" where
  "registerMethod name handler r =
     r\<lparr>m_methods := om_put name handler (m_methods r),
       router_out := router_out r @ [''[JsonRpcRouter] Registered method: '' @ name]\<rparr>"

section \<open>Answers\<close>

definition makeErrorResponse :: "json \<Rightarrow> int \<Rightarrow> string \<Rightarrow> json" where
  "makeErrorResponse rid code message =
     jset ''id'' rid
       (jset ''error'' (jobj [(''code'', JInt code), (''message'', JString message)])
         (jset ''jsonrpc'' (JString ''2.0'') JNull))"

definition makeSuccessResponse :: "json \<Rightarrow> json \<Rightarrow> json" where
  "makeSuccessResponse rid result =
     jset ''id'' rid (jset ''result'' result (jset ''jsonrpc'' (JString ''2.0'') JNull))"

section \<open>Processing\<close>

definition request_id :: "json \<Rightarrow> json" where
  "request_id req = (if contains req ''id'' then field req ''id'' else JNull)"

definition valid_request :: "json \<Rightarrow> bool" where
  "valid_request req \<longleftrightarrow>
     \<not> (\<not> is_object req \<or> \<not> contains req ''jsonrpc'' \<or>
        field req ''jsonrpc'' \<noteq> JString ''2.0'' \<or> \<not> contains req ''method'')"

text \<open>The body of the try block; what it throws is caught by its caller.\<close>

definition dispatch :: "json_lib \<Rightarrow> 's router \<Rightarrow> string \<Rightarrow> json \<Rightarrow> json \<Rightarrow> 's \<Rightarrow> (exn + json) \<times> 's" where
  "dispatch L r method params rid s =
     (case map_of (m_methods r) method of
        Some handler \<Rightarrow>
          bindS (handler params rid s) (\<lambda>result s.
            if is_object result \<and> contains result ''error'' \<and> contains result ''code''
            then bindE (get_int L (field result ''code'')) (\<lambda>code.
                 bindE (get_string L (field result ''error'')) (\<lambda>message s.
                   (Inr (makeErrorResponse rid code message), s))) s
            else (Inr (makeSuccessResponse rid result), s))
      | None \<Rightarrow> (Inr (makeErrorResponse rid (- 32601) (''Method not found: '' @ method)), s))"

definition processSingleRequest :: "json_lib \<Rightarrow> 's router \<Rightarrow> json \<Rightarrow> 's \<Rightarrow> (exn + json) \<times> 's" where
  "processSingleRequest L r req s =
     (let rid = request_id req
      in if \<not> valid_request req
         then (Inr (makeErrorResponse rid (- 32600) ''Invalid Request: Missing required JSON-RPC 2.0 fields''), s)
         else bindE (get_string L (field req ''method'')) (\<lambda>method s.
           let params = (if contains req ''params'' then field req ''params'' else JObject [])
           in case dispatch L r method params rid s of
                (Inr res, s') \<Rightarrow> (Inr res, s')
              | (Inl e, s') \<Rightarrow> (Inr (makeErrorResponse rid (- 32603)
                   (''Internal error: Exception occurred in handler: '' @ what e)), s')) s)"

fun processBatch :: "json_lib \<Rightarrow> 's router \<Rightarrow> json list \<Rightarrow> json list \<Rightarrow> 's \<Rightarrow> (exn + json list) \<times> 's" where
  "processBatch L r [] acc s = (Inr acc, s)"
| "processBatch L r (q # qs) acc s =
     bindS (processSingleRequest L r q s) (\<lambda>res.
       processBatch L r qs (if res \<noteq> JNull then acc @ [res] else acc))"

definition dump_line :: "json_lib \<Rightarrow> json \<Rightarrow> 's \<Rightarrow> (exn + string) \<times> 's" where
  "dump_line L j = bindE (dump L (- 1) j) (\<lambda>t s. (Inr (t @ [nl]), s))"

definition processRequest :: "json_lib \<Rightarrow> 's router \<Rightarrow> string \<Rightarrow> 's \<Rightarrow> (exn + string) \<times> 's" where
  "processRequest L r rawRequest s =
     (case parse L rawRequest of
        Inl (Parse_error w) \<Rightarrow>
          dump_line L (makeErrorResponse JNull (- 32700) (''Parse error: '' @ w)) s
      | Inl e \<Rightarrow> (Inl e, s)
      | Inr root \<Rightarrow>
          (if is_array root then
             (if elements root = []
              then dump_line L (makeErrorResponse JNull (- 32600) ''Invalid Request: Empty batch'') s
              else bindS (processBatch L r (elements root) [] s) (\<lambda>batch s.
                     if batch = [] then (Inr '''', s) else dump_line L (JArray batch) s))
           else bindS (processSingleRequest L r root s) (\<lambda>res s.
                  if res = JNull then (Inr '''', s) else dump_line L res s)))"

section \<open>Shape of the answers\<close>

definition is_reply :: "json \<Rightarrow> json \<Rightarrow> bool" where
  "is_reply rid j \<longleftrightarrow> is_object j \<and>
     contains j ''jsonrpc'' \<and> field j ''jsonrpc'' = JString ''2.0'' \<and>
     contains j ''id'' \<and> field j ''id'' = rid \<and>
     contains j ''result'' \<noteq> contains j ''error''"

lemma reply_error [simp]: "is_reply rid (makeErrorResponse rid code m)"
  by (simp add: is_reply_def makeErrorResponse_def)

lemma reply_success [simp]: "is_reply rid (makeSuccessResponse rid res)"
  by (simp add: is_reply_def makeSuccessResponse_def)

lemma reply_not_null: "is_reply rid j \<Longrightarrow> j \<noteq> JNull"
  by (auto simp: is_reply_def)

lemma dispatch_reply: "fst (dispatch L r m params rid s) = Inr res \<Longrightarrow> is_reply rid res"
  by (auto simp: dispatch_def bindS_def bindE_def split: option.splits sum.splits if_splits)

lemma dispatch_replyD: "dispatch L r m params rid s = (Inr res, s') \<Longrightarrow> is_reply rid res"
  using dispatch_reply [of L r m params rid s res] by simp

lemma single_reply:
  "fst (processSingleRequest L r req s) = Inr res \<Longrightarrow> is_reply (request_id req) res"
  by (auto simp: processSingleRequest_def Let_def bindE_def split: sum.splits prod.splits if_splits
      dest: dispatch_replyD)

text \<open>A request whose method is a string is always answered, whatever its handler throws.\<close>

lemma single_answers:
  assumes "valid_request req \<Longrightarrow> get_string L (field req ''method'') = Inr m"
  shows "\<exists>res. fst (processSingleRequest L r req s) = Inr res"
  using assms by (auto simp: processSingleRequest_def Let_def split: sum.splits prod.splits)

lemma batch_replies:
  "fst (processBatch L r qs acc s) = Inr rs \<Longrightarrow>
     \<exists>new. rs = acc @ new \<and> list_all2 (\<lambda>q. is_reply (request_id q)) qs new"
proof (induction qs arbitrary: acc s)
  case Nil
  then show ?case by simp
next
  case (Cons q qs)
  then obtain res where res: "fst (processSingleRequest L r q s) = Inr res"
    by (auto simp: bindS_def bindE_def split: sum.splits)
  from single_reply [OF this] have rep: "is_reply (request_id q) res" .
  with reply_not_null have "res \<noteq> JNull" by blast
  with Cons.prems res have "fst (processBatch L r qs (acc @ [res]) (snd (processSingleRequest L r q s))) = Inr rs"
    by (simp add: bindS_def)
  from Cons.IH [OF this] rep show ?case by force
qed

section \<open>The contract of IRpcHandler\<close>

text \<open>
  \<open>handle\<close> answers a line with nothing or with text that ends in a newline, and keeps the
  invariant of the state behind it, also when it throws.
\<close>

locale rpc_handler =
  fixes handle :: "string \<Rightarrow> 's \<Rightarrow> (exn + string) \<times> 's"
    and inv :: "'s \<Rightarrow> bool"
  assumes handle_inv: "inv s \<Longrightarrow> inv (snd (handle raw s))"
    and handle_line: "fst (handle raw s) = Inr resp \<Longrightarrow> resp = '''' \<or> (\<exists>l. resp = l @ [nl])"

lemma dump_line_state: "snd (dump_line L j s) = s"
  by (simp add: dump_line_def bindE_def split: sum.splits)

text \<open>A router all of whose handlers keep an invariant.\<close>

locale method_table =
  fixes r :: "'s router" and inv :: "'s \<Rightarrow> bool"
  assumes handler_inv:
    "map_of (m_methods r) name = Some h \<Longrightarrow> inv s \<Longrightarrow> inv (snd (h params rid s))"
begin

lemma dispatch_inv: "inv s \<Longrightarrow> inv (snd (dispatch L r m params rid s))"
  by (auto simp: dispatch_def bindS_def bindE_def handler_inv split: option.splits sum.splits)

lemma single_inv: "inv s \<Longrightarrow> inv (snd (processSingleRequest L r req s))"
proof -
  assume "inv s"
  then have "inv (snd (dispatch L r m params rid s))" for m params rid by (rule dispatch_inv)
  then show ?thesis using \<open>inv s\<close>
    by (auto simp: processSingleRequest_def Let_def bindE_def split: sum.splits prod.splits)
      (metis snd_conv)+
qed

lemma batch_inv: "inv s \<Longrightarrow> inv (snd (processBatch L r qs acc s))"
proof (induction qs arbitrary: acc s)
  case (Cons q qs)
  then show ?case by (auto intro: bindS_state [where P = inv] single_inv)
qed simp

lemma request_inv: "inv s \<Longrightarrow> inv (snd (processRequest L r raw s))"
  by (auto simp: processRequest_def dump_line_state bindS_def bindE_def single_inv batch_inv
      split: sum.splits exn.splits)

end

lemma dump_line_Inr: "fst (dump_line L j s) = Inr resp \<Longrightarrow> \<exists>l. resp = l @ [nl]"
  by (auto simp: dump_line_def bindE_def split: sum.splits)

text \<open>No request is answered with nothing: the two tests for null never hold.\<close>

lemma batch_dumps:
  fixes s :: "'s"
  assumes "qs \<noteq> []"
    and "fst (bindS (processBatch L r qs [] s) (\<lambda>batch s.
           if batch = [] then (Inr '''', s) else dump_line L (JArray batch) s)) = Inr resp"
  shows "\<exists>j (s'::'s). fst (dump_line L j s') = Inr resp"
proof (cases "processBatch L r qs [] s")
  case (Pair res s')
  with assms(2) obtain rs where rs: "res = Inr rs" by (cases res) simp_all
  have "rs \<noteq> []" using assms(1) batch_replies [of L r qs "[]" s rs] Pair rs by auto
  with assms(2) Pair rs have "fst (dump_line L (JArray rs) s') = Inr resp" by simp
  then show ?thesis by blast
qed

lemma single_dumps:
  fixes s :: "'s"
  assumes "fst (bindS (processSingleRequest L r root s) (\<lambda>res s.
             if res = JNull then (Inr '''', s) else dump_line L res s)) = Inr resp"
  shows "\<exists>j (s'::'s). fst (dump_line L j s') = Inr resp"
proof (cases "processSingleRequest L r root s")
  case (Pair res s')
  with assms obtain j where j: "res = Inr j" by (cases res) simp_all
  have "j \<noteq> JNull" using single_reply [of L r root s j] reply_not_null Pair j by simp
  with assms Pair j have "fst (dump_line L j s') = Inr resp" by simp
  then show ?thesis by blast
qed

lemma request_dumps:
  fixes s :: "'s"
  assumes "fst (processRequest L r raw s) = Inr resp"
  shows "\<exists>j (s'::'s). fst (dump_line L j s') = Inr resp"
proof (cases "parse L raw")
  case (Inl e)
  then show ?thesis using assms by (cases e) (auto simp: processRequest_def)
next
  case (Inr root)
  consider "is_array root" "elements root = []" | "is_array root" "elements root \<noteq> []" | "\<not> is_array root"
    by blast
  then show ?thesis
  proof cases
    case 1
    with assms Inr show ?thesis by (auto simp: processRequest_def)
  next
    case 2
    with assms Inr show ?thesis by (intro batch_dumps [OF 2(2)]) (simp add: processRequest_def)
  next
    case 3
    with assms Inr show ?thesis by (intro single_dumps) (simp add: processRequest_def)
  qed
qed

lemma request_line: "fst (processRequest L r raw s) = Inr resp \<Longrightarrow> \<exists>l. resp = l @ [nl]"
  by (drule request_dumps) (auto dest: dump_line_Inr)

sublocale method_table \<subseteq> handler: rpc_handler "processRequest L r" inv for L
proof
  fix s raw resp
  show "inv s \<Longrightarrow> inv (snd (processRequest L r raw s))" by (rule request_inv)
  show "fst (processRequest L r raw s) = Inr resp \<Longrightarrow> resp = '''' \<or> (\<exists>l. resp = l @ [nl])"
    by (blast dest: request_line)
qed

end
