(* ===== verification/Rpc_Methods.thy ===== *)
theory Rpc_Methods
  imports Jsonrpc_Router Relay_Timing
begin

text \<open>
  The JSON-RPC methods of the daemon (the lambdas of main() in src/main.cc) over the interface
  IDeviceController (include/core/idevice_controller.h). The interface is a record of
  operations, its contract the locale \<open>device_controller\<close>, and BaseRelayController meets it
  for any hardware.
\<close>

section \<open>The device interface\<close>

record 'c device_ops =
  dev_init :: "'c \<Rightarrow> bool \<times> 'c"
  dev_setRelay :: "int \<Rightarrow> bool \<Rightarrow> 'c \<Rightarrow> bool \<times> 'c"
  dev_getRelay :: "int \<Rightarrow> 'c \<Rightarrow> exn + bool"
  dev_getAllStates :: "'c \<Rightarrow> (int \<times> bool) list"
  dev_startTimer :: "int \<Rightarrow> u32 \<Rightarrow> 'c \<Rightarrow> bool \<times> 'c"
  dev_startPulse :: "int \<Rightarrow> u32 \<Rightarrow> 'c \<Rightarrow> bool \<times> 'c"
  dev_startBlink :: "int \<Rightarrow> u32 \<Rightarrow> u32 \<Rightarrow> u32 \<Rightarrow> 'c \<Rightarrow> bool \<times> 'c"
  dev_getRelayStatus :: "int \<Rightarrow> 'c \<Rightarrow> (exn + string) \<times> 'c"

definition base_device :: "'hw hw_ops \<Rightarrow> 'hw controller device_ops" where
  "base_device ops =
     \<lparr>dev_init = init ops, dev_setRelay = setRelay ops, dev_getRelay = getRelay,
      dev_getAllStates = getAllStates, dev_startTimer = startTimer ops,
      dev_startPulse = startPulse ops, dev_startBlink = startBlink ops,
      dev_getRelayStatus = getRelayStatus\<rparr>"

section \<open>The methods\<close>

definition rpc_error :: "int \<Rightarrow> string \<Rightarrow> json" where
  "rpc_error code message = jobj [(''code'', JInt code), (''error'', JString message)]"

definition bad_channel :: "int \<Rightarrow> bool" where
  "bad_channel relayId \<longleftrightarrow> relayId < 1 \<or> relayId > 8"

definition channel_error :: json where
  "channel_error = rpc_error (- 32602) ''Invalid params: 'relay_id' must be between 1 and 8.''"

definition rpc_set_relay :: "json_lib \<Rightarrow> 'c device_ops \<Rightarrow> 'c method_handler" where
  "rpc_set_relay L dev params rid c =
     (if \<not> is_object params \<or> \<not> contains params ''relay_id'' \<or> \<not> contains params ''state''
      then (Inr (rpc_error (- 32602) ''Invalid params: 'relay_id' (integer) and 'state' (boolean) are required.''), c)
      else bindE (get_int L (field params ''relay_id'')) (\<lambda>relayId.
           bindE (get_bool L (field params ''state'')) (\<lambda>st c.
             if bad_channel relayId then (Inr channel_error, c)
             else let (ok, c') = dev_setRelay dev relayId st c
                  in if \<not> ok
                     then (Inr (rpc_error (- 32603) ''Internal error: Failed to update GPIO pin state.''), c')
                     else (Inr (jobj [(''success'', JBool True), (''relay_id'', JInt relayId),
                                      (''state'', JBool st)]), c'))) c)"

definition rpc_get_relays :: "'c device_ops \<Rightarrow> 'c method_handler" where
  "rpc_get_relays dev params rid c =
     (Inr (fold (\<lambda>(relayId, st) result. jset (show_int relayId) (JBool st) result)
             (dev_getAllStates dev c) (JObject [])), c)"

definition rpc_start_timer :: "json_lib \<Rightarrow> 'c device_ops \<Rightarrow> 'c method_handler" where
  "rpc_start_timer L dev params rid c =
     (if \<not> is_object params \<or> \<not> contains params ''relay_id'' \<or> \<not> contains params ''seconds''
      then (Inr (rpc_error (- 32602) ''Invalid params: 'relay_id' (integer) and 'seconds' (integer) are required.''), c)
      else bindE (get_int L (field params ''relay_id'')) (\<lambda>relayId.
           bindE (get_u32 L (field params ''seconds'')) (\<lambda>seconds c.
             if bad_channel relayId then (Inr channel_error, c)
             else let (ok, c') = dev_startTimer dev relayId seconds c
                  in if \<not> ok
                     then (Inr (rpc_error (- 32603) ''Internal error: Failed to start timer.''), c')
                     else (Inr (jobj [(''success'', JBool True), (''relay_id'', JInt relayId),
                                      (''seconds'', JInt (uint seconds))]), c'))) c)"

definition rpc_start_pulse :: "json_lib \<Rightarrow> 'c device_ops \<Rightarrow> 'c method_handler" where
  "rpc_start_pulse L dev params rid c =
     (if \<not> is_object params \<or> \<not> contains params ''relay_id'' \<or> \<not> contains params ''duration_ms''
      then (Inr (rpc_error (- 32602) ''Invalid params: 'relay_id' (integer) and 'duration_ms' (integer) are required.''), c)
      else bindE (get_int L (field params ''relay_id'')) (\<lambda>relayId.
           bindE (get_u32 L (field params ''duration_ms'')) (\<lambda>dur c.
             if bad_channel relayId then (Inr channel_error, c)
             else let (ok, c') = dev_startPulse dev relayId dur c
                  in if \<not> ok
                     then (Inr (rpc_error (- 32603) ''Internal error: Failed to start pulse.''), c')
                     else (Inr (jobj [(''success'', JBool True), (''relay_id'', JInt relayId),
                                      (''duration_ms'', JInt (uint dur))]), c'))) c)"

definition rpc_start_blink :: "json_lib \<Rightarrow> 'c device_ops \<Rightarrow> 'c method_handler" where
  "rpc_start_blink L dev params rid c =
     (if \<not> is_object params \<or> \<not> contains params ''relay_id'' \<or> \<not> contains params ''on_ms'' \<or>
         \<not> contains params ''off_ms'' \<or> \<not> contains params ''count''
      then (Inr (rpc_error (- 32602) ''Invalid params: 'relay_id' (integer), 'on_ms' (integer), 'off_ms' (integer), and 'count' (integer) are required.''), c)
      else bindE (get_int L (field params ''relay_id'')) (\<lambda>relayId.
           bindE (get_u32 L (field params ''on_ms'')) (\<lambda>onMs.
           bindE (get_u32 L (field params ''off_ms'')) (\<lambda>offMs.
           bindE (get_u32 L (field params ''count'')) (\<lambda>cnt c.
             if bad_channel relayId then (Inr channel_error, c)
             else let (ok, c') = dev_startBlink dev relayId onMs offMs cnt c
                  in if \<not> ok
                     then (Inr (rpc_error (- 32603) ''Internal error: Failed to start blink.''), c')
                     else (Inr (jobj [(''success'', JBool True), (''relay_id'', JInt relayId),
                                      (''on_ms'', JInt (uint onMs)), (''off_ms'', JInt (uint offMs)),
                                      (''count'', JInt (uint cnt))]), c'))))) c)"

definition rpc_get_relay_status :: "json_lib \<Rightarrow> 'c device_ops \<Rightarrow> 'c method_handler" where
  "rpc_get_relay_status L dev params rid c =
     (if \<not> is_object params \<or> \<not> contains params ''relay_id''
      then (Inr (rpc_error (- 32602) ''Invalid params: 'relay_id' (integer) is required.''), c)
      else bindE (get_int L (field params ''relay_id'')) (\<lambda>relayId c.
             if bad_channel relayId then (Inr channel_error, c)
             else bindS (dev_getRelayStatus dev relayId c) (\<lambda>status c.
                    (Inr (jobj [(''relay_id'', JInt relayId), (''status'', JString status)]), c))) c)"

definition daemon_router :: "json_lib \<Rightarrow> 'c device_ops \<Rightarrow> 'c router" where
  "daemon_router L dev =
     registerMethod ''get_relay_status'' (rpc_get_relay_status L dev)
       (registerMethod ''start_blink'' (rpc_start_blink L dev)
         (registerMethod ''start_pulse'' (rpc_start_pulse L dev)
           (registerMethod ''start_timer'' (rpc_start_timer L dev)
             (registerMethod ''get_relays'' (rpc_get_relays dev)
               (registerMethod ''set_relay'' (rpc_set_relay L dev) JsonRpcRouter)))))"

section \<open>The contract of the device\<close>

text \<open>
  \<open>on c i\<close> tells whether channel \<open>i\<close> is on. Setting and starting succeed on channels 1 to 8,
  whatever the state, set their channel and no other; all states are listed in order.
\<close>

locale device_controller =
  fixes dev :: "'c device_ops"
    and inv :: "'c \<Rightarrow> bool"
    and on :: "'c \<Rightarrow> int \<Rightarrow> bool"
  assumes set_inv: "inv c \<Longrightarrow> inv (snd (dev_setRelay dev i st c))"
    and timer_inv: "inv c \<Longrightarrow> inv (snd (dev_startTimer dev i s c))"
    and pulse_inv: "inv c \<Longrightarrow> inv (snd (dev_startPulse dev i d c))"
    and blink_inv: "inv c \<Longrightarrow> inv (snd (dev_startBlink dev i onMs offMs n c))"
    and status_inv: "inv c \<Longrightarrow> inv (snd (dev_getRelayStatus dev i c))"
    and set_ok: "inv c \<Longrightarrow> fst (dev_setRelay dev i st c) \<longleftrightarrow> \<not> bad_channel i"
    and timer_ok: "inv c \<Longrightarrow> fst (dev_startTimer dev i s c) \<longleftrightarrow> \<not> bad_channel i"
    and pulse_ok: "inv c \<Longrightarrow> fst (dev_startPulse dev i d c) \<longleftrightarrow> \<not> bad_channel i"
    and blink_ok: "inv c \<Longrightarrow> fst (dev_startBlink dev i onMs offMs n c) \<longleftrightarrow> \<not> bad_channel i"
    and status_ok: "inv c \<Longrightarrow> \<exists>t. fst (dev_getRelayStatus dev i c) = Inr t"
    and set_on: "inv c \<Longrightarrow> \<not> bad_channel i \<Longrightarrow>
      on (snd (dev_setRelay dev i st c)) j = (if j = i then st else on c j)"
    and timer_on: "inv c \<Longrightarrow> \<not> bad_channel i \<Longrightarrow>
      on (snd (dev_startTimer dev i s c)) j = (j = i \<or> on c j)"
    and pulse_on: "inv c \<Longrightarrow> \<not> bad_channel i \<Longrightarrow>
      on (snd (dev_startPulse dev i d c)) j = (j = i \<or> on c j)"
    and blink_on: "inv c \<Longrightarrow> \<not> bad_channel i \<Longrightarrow>
      on (snd (dev_startBlink dev i onMs offMs n c)) j = (j = i \<or> on c j)"
    and all_states: "inv c \<Longrightarrow> dev_getAllStates dev c = map (\<lambda>i. (i, on c i)) [1..8]"
begin

lemmas dev_inv = set_inv timer_inv pulse_inv blink_inv status_inv

lemma set_relay_inv: "inv c \<Longrightarrow> inv (snd (rpc_set_relay L dev p rid c))"
  by (auto simp: rpc_set_relay_def Let_def case_prod_beta set_inv intro!: bindE_state [where P = inv])

lemma start_timer_inv: "inv c \<Longrightarrow> inv (snd (rpc_start_timer L dev p rid c))"
  by (auto simp: rpc_start_timer_def Let_def case_prod_beta timer_inv intro!: bindE_state [where P = inv])

lemma start_pulse_inv: "inv c \<Longrightarrow> inv (snd (rpc_start_pulse L dev p rid c))"
  by (auto simp: rpc_start_pulse_def Let_def case_prod_beta pulse_inv intro!: bindE_state [where P = inv])

lemma start_blink_inv: "inv c \<Longrightarrow> inv (snd (rpc_start_blink L dev p rid c))"
  by (auto simp: rpc_start_blink_def Let_def case_prod_beta blink_inv intro!: bindE_state [where P = inv])

lemma get_relay_status_inv: "inv c \<Longrightarrow> inv (snd (rpc_get_relay_status L dev p rid c))"
  by (auto simp: rpc_get_relay_status_def status_inv
      intro!: bindE_state [where P = inv] bindS_state [where P = inv])

lemma get_relays_inv: "inv c \<Longrightarrow> inv (snd (rpc_get_relays dev p rid c))"
  by (simp add: rpc_get_relays_def)

lemmas rpc_inv = set_relay_inv start_timer_inv start_pulse_inv start_blink_inv
  get_relay_status_inv get_relays_inv

end

section \<open>What the methods do\<close>

context device_controller
begin

text \<open>The successful call of each method: its answer and the operation it runs.\<close>

lemma set_relay_ok:
  assumes "json_laws L" "inv c" "\<not> bad_channel i"
    and "contains p ''relay_id''" "field p ''relay_id'' = JInt i"
    and "contains p ''state''" "field p ''state'' = JBool st"
  shows "rpc_set_relay L dev p rid c =
    (Inr (jobj [(''success'', JBool True), (''relay_id'', JInt i), (''state'', JBool st)]),
     snd (dev_setRelay dev i st c))"
  using assms set_ok [OF assms(2), of i st] json_lawsD(1,3) [OF assms(1)] fits_int_channel [of i]
  by (simp add: rpc_set_relay_def contains_is_object bad_channel_def case_prod_beta Let_def)

lemma start_timer_ok:
  assumes "json_laws L" "inv c" "\<not> bad_channel i"
    and "contains p ''relay_id''" "field p ''relay_id'' = JInt i"
    and "contains p ''seconds''" "field p ''seconds'' = JInt (uint s)"
  shows "rpc_start_timer L dev p rid c =
    (Inr (jobj [(''success'', JBool True), (''relay_id'', JInt i), (''seconds'', JInt (uint s))]),
     snd (dev_startTimer dev i s c))"
  using assms timer_ok [OF assms(2), of i s] json_lawsD(1) [OF assms(1)] get_u32_word [OF assms(1), of s]
    fits_int_channel [of i]
  by (simp add: rpc_start_timer_def contains_is_object bad_channel_def case_prod_beta Let_def)

lemma start_pulse_ok:
  assumes "json_laws L" "inv c" "\<not> bad_channel i"
    and "contains p ''relay_id''" "field p ''relay_id'' = JInt i"
    and "contains p ''duration_ms''" "field p ''duration_ms'' = JInt (uint d)"
  shows "rpc_start_pulse L dev p rid c =
    (Inr (jobj [(''success'', JBool True), (''relay_id'', JInt i), (''duration_ms'', JInt (uint d))]),
     snd (dev_startPulse dev i d c))"
  using assms pulse_ok [OF assms(2), of i d] json_lawsD(1) [OF assms(1)] get_u32_word [OF assms(1), of d]
    fits_int_channel [of i]
  by (simp add: rpc_start_pulse_def contains_is_object bad_channel_def case_prod_beta Let_def)

lemma start_blink_ok:
  assumes "json_laws L" "inv c" "\<not> bad_channel i"
    and "contains p ''relay_id''" "field p ''relay_id'' = JInt i"
    and "contains p ''on_ms''" "field p ''on_ms'' = JInt (uint x)"
    and "contains p ''off_ms''" "field p ''off_ms'' = JInt (uint y)"
    and "contains p ''count''" "field p ''count'' = JInt (uint n)"
  shows "rpc_start_blink L dev p rid c =
    (Inr (jobj [(''success'', JBool True), (''relay_id'', JInt i), (''on_ms'', JInt (uint x)),
                (''off_ms'', JInt (uint y)), (''count'', JInt (uint n))]),
     snd (dev_startBlink dev i x y n c))"
  using assms blink_ok [OF assms(2), of i x y n] json_lawsD(1) [OF assms(1)] get_u32_word [OF assms(1)]
    fits_int_channel [of i]
  by (simp add: rpc_start_blink_def contains_is_object bad_channel_def case_prod_beta Let_def)

text \<open>A channel out of range changes nothing.\<close>

lemma set_relay_bad_channel:
  assumes "json_laws L" "bad_channel i" "fits_int i"
    and "contains p ''relay_id''" "field p ''relay_id'' = JInt i"
    and "contains p ''state''" "field p ''state'' = JBool st"
  shows "rpc_set_relay L dev p rid c = (Inr channel_error, c)"
  using assms json_lawsD(1,3) [OF assms(1)]
  by (simp add: rpc_set_relay_def contains_is_object)

text \<open>A failure of the device is never reported: no answer carries its message.\<close>

lemma set_relay_never_internal:
  assumes "inv c" "fst (rpc_set_relay L dev p rid c) = Inr j"
  shows "field j ''code'' \<noteq> JInt (- 32603)"
  using assms set_ok [OF assms(1)]
  by (auto simp: rpc_set_relay_def bindE_def rpc_error_def channel_error_def jobj_def Let_def
      case_prod_beta split: if_splits sum.splits)

text \<open>The answer of get_relays lists the eight channels.\<close>

lemma get_relays_states:
  assumes "inv c"
  shows "rpc_get_relays dev p rid c =
    (Inr (fold (\<lambda>i j. jset (show_int i) (JBool (on c i)) j) [1..8] (JObject [])), c)"
  using all_states [OF assms]
  by (simp add: rpc_get_relays_def fold_map o_def del: upto_rec1)

end

text \<open>The router of the daemon over a device that meets the contract keeps its invariant.\<close>

lemmas router_defs = daemon_router_def registerMethod_def JsonRpcRouter_def

lemma daemon_methods:
  "map_of (m_methods (daemon_router L dev)) =
    [''set_relay'' \<mapsto> rpc_set_relay L dev, ''get_relays'' \<mapsto> rpc_get_relays dev,
     ''start_timer'' \<mapsto> rpc_start_timer L dev, ''start_pulse'' \<mapsto> rpc_start_pulse L dev,
     ''start_blink'' \<mapsto> rpc_start_blink L dev, ''get_relay_status'' \<mapsto> rpc_get_relay_status L dev]"
  by (rule ext) (simp add: router_defs map_of_om_put)

sublocale device_controller \<subseteq> table: method_table "daemon_router L dev" inv for L
  by unfold_locales (auto simp: daemon_methods rpc_inv split: if_splits)

section \<open>BaseRelayController meets the contract\<close>

definition relay_on :: "'hw controller \<Rightarrow> int \<Rightarrow> bool" where
  "relay_on c i = state (om_ref RelayState (m_relayStates c) i)"

lemma relay_on_commit [relay_simps]:
  "relay_on (commit ops i rs c) j = (if j = i then state rs else relay_on c j)"
  by (simp add: relay_on_def relay_simps map_simps)

lemma relay_on_steady [relay_simps]: "relay_on (c\<lparr>clock_reads := n\<rparr>) i = relay_on c i"
  by (simp add: relay_on_def)

lemma state_ops [simp]:
  "state (rs_toggle st rs) = st" "state (rs_timed m now d rs)" "state (rs_blink now onMs offMs n rs)"
  by (simp_all add: rs_toggle_def rs_timed_def rs_blink_def)

lemma getAllStates_channels:
  assumes "map fst (m_relayStates c) = [1..8]"
  shows "getAllStates c = map (\<lambda>i. (i, relay_on c i)) [1..8]"
proof -
  have "distinct (map fst (m_relayStates c))" unfolding assms by simp
  from om_by_keys [OF this, of state RelayState] show ?thesis
    unfolding getAllStates_def relay_on_def om_copy [OF om_ok_channels [OF assms]] assms .
qed

lemma getRelayStatus_Inr:
  assumes "ctrl_inv c"
  shows "\<exists>t. fst (getRelayStatus i c) = Inr t"
proof (cases "1 \<le> i \<and> i \<le> 8")
  case True
  obtain rs where "relay c i = Some rs" "relay_inv rs"
    using ctrl_inv_obtain [OF assms, of i] True by blast
  with True show ?thesis by (auto simp: getRelayStatus_text)
qed (simp add: op_invalid)

interpretation base: device_controller "base_device ops" ctrl_inv relay_on for ops :: "'hw hw_ops"
proof
  fix c :: "'hw controller" and i j :: int and st :: bool and s d onMs offMs n :: u32
  assume inv: "ctrl_inv c"
  show "ctrl_inv (snd (dev_setRelay (base_device ops) i st c))"
    "ctrl_inv (snd (dev_startTimer (base_device ops) i s c))"
    "ctrl_inv (snd (dev_startPulse (base_device ops) i d c))"
    "ctrl_inv (snd (dev_startBlink (base_device ops) i onMs offMs n c))"
    "ctrl_inv (snd (dev_getRelayStatus (base_device ops) i c))"
    using inv by (simp_all add: base_device_def ctrl_inv_ops)
  have bad: "bad_channel i \<longleftrightarrow> \<not> (1 \<le> i \<and> i \<le> 8)" by (auto simp: bad_channel_def)
  show "fst (dev_setRelay (base_device ops) i st c) \<longleftrightarrow> \<not> bad_channel i"
    "fst (dev_startTimer (base_device ops) i s c) \<longleftrightarrow> \<not> bad_channel i"
    "fst (dev_startPulse (base_device ops) i d c) \<longleftrightarrow> \<not> bad_channel i"
    "fst (dev_startBlink (base_device ops) i onMs offMs n c) \<longleftrightarrow> \<not> bad_channel i"
    by (cases "1 \<le> i \<and> i \<le> 8"; simp add: base_device_def op_commit op_invalid bad)+
  show "\<exists>t. fst (dev_getRelayStatus (base_device ops) i c) = Inr t"
    using getRelayStatus_Inr [OF inv] by (simp add: base_device_def)
  show "dev_getAllStates (base_device ops) c = map (\<lambda>i. (i, relay_on c i)) [1..8]"
    using inv getAllStates_channels [of c] by (simp add: base_device_def ctrl_inv_def)
  assume ok: "\<not> bad_channel i"
  show "relay_on (snd (dev_setRelay (base_device ops) i st c)) j = (if j = i then st else relay_on c j)"
    "relay_on (snd (dev_startTimer (base_device ops) i s c)) j = (j = i \<or> relay_on c j)"
    "relay_on (snd (dev_startPulse (base_device ops) i d c)) j = (j = i \<or> relay_on c j)"
    "relay_on (snd (dev_startBlink (base_device ops) i onMs offMs n c)) j = (j = i \<or> relay_on c j)"
    using ok by (simp_all add: base_device_def op_commit bad relay_simps)
qed

text \<open>
  The same contract with the strongest invariant: the state is one that the system reaches.
\<close>

interpretation reach: device_controller "base_device ops" "ctrl_reachable ops h" relay_on
  for ops :: "'hw hw_ops" and h
proof
  fix c :: "'hw controller" and i j :: int and st :: bool and s d onMs offMs n :: u32
  assume r: "ctrl_reachable ops h c"
  then have inv: "ctrl_inv c" by (rule ctrl_inv_reachable)
  show "ctrl_reachable ops h (snd (dev_setRelay (base_device ops) i st c))"
    "ctrl_reachable ops h (snd (dev_startTimer (base_device ops) i s c))"
    "ctrl_reachable ops h (snd (dev_startPulse (base_device ops) i d c))"
    "ctrl_reachable ops h (snd (dev_startBlink (base_device ops) i onMs offMs n c))"
    "ctrl_reachable ops h (snd (dev_getRelayStatus (base_device ops) i c))"
    using r by (auto simp: base_device_def intro: reach_step ctrl_step.intros)
  show "fst (dev_setRelay (base_device ops) i st c) \<longleftrightarrow> \<not> bad_channel i"
    "fst (dev_startTimer (base_device ops) i s c) \<longleftrightarrow> \<not> bad_channel i"
    "fst (dev_startPulse (base_device ops) i d c) \<longleftrightarrow> \<not> bad_channel i"
    "fst (dev_startBlink (base_device ops) i onMs offMs n c) \<longleftrightarrow> \<not> bad_channel i"
    "\<exists>t. fst (dev_getRelayStatus (base_device ops) i c) = Inr t"
    "dev_getAllStates (base_device ops) c = map (\<lambda>i. (i, relay_on c i)) [1..8]"
    using inv by (fact base.set_ok base.timer_ok base.pulse_ok base.blink_ok base.status_ok base.all_states)+
  assume ok: "\<not> bad_channel i"
  show "relay_on (snd (dev_setRelay (base_device ops) i st c)) j = (if j = i then st else relay_on c j)"
    "relay_on (snd (dev_startTimer (base_device ops) i s c)) j = (j = i \<or> relay_on c j)"
    "relay_on (snd (dev_startPulse (base_device ops) i d c)) j = (j = i \<or> relay_on c j)"
    "relay_on (snd (dev_startBlink (base_device ops) i onMs offMs n c)) j = (j = i \<or> relay_on c j)"
    using inv ok by (fact base.set_on base.timer_on base.pulse_on base.blink_on)+
qed

end
