(* ===== verification/Rpc_Properties.thy ===== *)
theory Rpc_Properties
  imports Rpc_Methods Relay_Properties
begin

text \<open>
  The properties of the JSON-RPC router and of the six methods of the daemon.
\<close>

section \<open>One request\<close>

text \<open>A call whose handler returns a plain result is answered with it.\<close>

lemma single_call:
  assumes "valid_request req" "get_string L (field req ''method'') = Inr m"
    and "map_of (m_methods r) m = Some h" "contains req ''params''"
    and "h (field req ''params'') (request_id req) s = (Inr res, s')"
    and "\<not> (contains res ''error'' \<and> contains res ''code'')"
  shows "processSingleRequest L r req s = (Inr (makeSuccessResponse (request_id req) res), s')"
  using assms by (auto simp: processSingleRequest_def dispatch_def Let_def)

lemma jobj_contains: "contains (jobj kvs) k \<longleftrightarrow> k \<in> fst ` set kvs"
proof -
  have "contains (fold (\<lambda>(k, v) j. jset k v j) kvs j) k \<longleftrightarrow> k \<in> fst ` set kvs \<or> contains j k" for j
    by (induction kvs arbitrary: j) auto
  then show ?thesis by (simp add: jobj_def)
qed

lemma success_plain:
  "''error'' \<notin> fst ` set kvs \<Longrightarrow> \<not> (contains (jobj kvs) ''error'' \<and> contains (jobj kvs) ''code'')"
  by (simp add: jobj_contains)

text \<open>A request object, for the examples.\<close>

definition call_of :: "string \<Rightarrow> json \<Rightarrow> json" where
  "call_of m params = jobj [(''jsonrpc'', JString ''2.0''), (''method'', JString m), (''params'', params), (''id'', JInt 1)]"

lemma call_fields:
  "valid_request (call_of m params)" "field (call_of m params) ''method'' = JString m"
  "contains (call_of m params) ''params''" "field (call_of m params) ''params'' = params"
  "request_id (call_of m params) = JInt 1"
  by (simp_all add: call_of_def jobj_def valid_request_def request_id_def)

text \<open>
  C28: Every answer is a JSON-RPC 2.0 reply to its request: an object with the version, the id
  of the request (null when it has none), and exactly one of result and error.
\<close>

theorem replies_match_requests:
  assumes "processSingleRequest L r req s = (Inr res, s')"
  shows "is_object res \<and> field res ''jsonrpc'' = JString ''2.0'' \<and>
    contains res ''id'' \<and> field res ''id'' = (if contains req ''id'' then field req ''id'' else JNull) \<and>
    (contains res ''result'' \<longleftrightarrow> \<not> contains res ''error'')"
proof -
  have "fst (processSingleRequest L r req s) = Inr res" using assms by simp
  from single_reply [OF this] show ?thesis by (auto simp: is_reply_def request_id_def)
qed

theorem replies_match_requests_witness:
  "field (makeErrorResponse (JInt 1) (- 32601) ''Method not found: ping'') ''id'' = JInt 1"
proof -
  have "processSingleRequest (table_lib []) (daemon_router (table_lib []) (base_device sil_ops))
      (call_of ''ping'' JNull) demo =
    (Inr (makeErrorResponse (JInt 1) (- 32601) ''Method not found: ping''), demo)"
    using json_lawsD(4) [OF json_laws_table]
    by (simp add: processSingleRequest_def call_fields dispatch_def daemon_methods Let_def)
  from replies_match_requests [OF this] show ?thesis by (simp add: call_of_def jobj_def)
qed



text \<open>
  A request whose method is not a string is not answered at all: the conversion throws
  outside the try block, the exception leaves processRequest, and nothing catches it.
\<close>

theorem bad_method_escapes:
  assumes "json_laws L" "valid_request req" "\<And>t. field req ''method'' \<noteq> JString t" "parse L raw = Inr req"
  shows "\<exists>w. processRequest L r raw s = (Inl (Std_exception w), s)"
proof -
  obtain w where w: "get_string L (field req ''method'') = Inl (Std_exception w)"
    using throws_obtain [OF json_lawsD(8) [OF assms(1,3)]] by metis
  have "is_object req" using assms(2) by (simp add: valid_request_def)
  then have "\<not> is_array req" by (cases req) simp_all
  with w assms(2,4) show ?thesis by (simp add: processRequest_def processSingleRequest_def Let_def)
qed

theorem bad_method_escapes_witness:
  "\<exists>w. processRequest (table_lib [(''q'', jobj [(''jsonrpc'', JString ''2.0''), (''method'', JInt 1)])])
     (daemon_router (table_lib []) (base_device sil_ops)) ''q'' demo = (Inl (Std_exception w), demo)"
proof (rule bad_method_escapes [OF json_laws_table])
  show "valid_request (jobj [(''jsonrpc'', JString ''2.0''), (''method'', JInt 1)])"
    "\<And>t. field (jobj [(''jsonrpc'', JString ''2.0''), (''method'', JInt 1)]) ''method'' \<noteq> JString t"
    by (simp_all add: jobj_def valid_request_def)
qed (simp add: table_lib_def)

lemma batch_total:
  assumes "\<And>q. q \<in> set qs \<Longrightarrow> valid_request q \<Longrightarrow> \<exists>m. get_string L (field q ''method'') = Inr m"
  shows "\<exists>rs. fst (processBatch L r qs acc s) = Inr rs"
  using assms
proof (induction qs arbitrary: acc s)
  case (Cons q qs)
  have "\<exists>res. fst (processSingleRequest L r q s) = Inr res"
  proof (cases "valid_request q")
    case True
    then obtain m where "get_string L (field q ''method'') = Inr m" using Cons.prems [of q] by auto
    then show ?thesis by (intro single_answers)
  qed (rule single_answers, simp)
  then obtain res s' where res: "processSingleRequest L r q s = (Inr res, s')"
    by (metis prod.collapse)
  have "\<exists>rs. fst (processBatch L r qs acc' s') = Inr rs" for acc'
    using Cons.prems by (intro Cons.IH) simp
  with res show ?case by simp
qed simp

text \<open>
  A batch is answered with one reply for each of its requests, in their order, each with
  the id of its request, when every valid request in it names its method by a string.
\<close>

theorem batch_answers_each:
  assumes "\<And>q. q \<in> set qs \<Longrightarrow> valid_request q \<Longrightarrow> \<exists>m. get_string L (field q ''method'') = Inr m"
  shows "\<exists>rs. fst (processBatch L r qs [] s) = Inr rs \<and> length rs = length qs \<and>
    (\<forall>i < length qs. is_reply (request_id (qs ! i)) (rs ! i))"
proof -
  obtain rs where rs: "fst (processBatch L r qs [] s) = Inr rs"
    by (rule exE [OF batch_total [where qs = qs and L = L and r = r and acc = "[]" and s = s, OF assms]])
  then have "list_all2 (\<lambda>q. is_reply (request_id q)) qs rs" using batch_replies [OF rs] by simp
  with rs show ?thesis by (auto simp: list_all2_conv_all_nth)
qed

theorem batch_answers_each_witness:
  "\<exists>rs. fst (processBatch (table_lib []) (daemon_router (table_lib []) (base_device sil_ops))
     [JNull, call_of ''get_relays'' JNull] [] demo) = Inr rs \<and> length rs = 2"
proof -
  let ?qs = "[JNull, call_of ''get_relays'' JNull]"
  have str: "\<exists>m. get_string (table_lib []) (field q ''method'') = Inr m"
    if "q \<in> set ?qs" "valid_request q" for q
  proof -
    have "q = JNull \<or> q = call_of ''get_relays'' JNull" using that(1) by simp
    moreover have "\<not> valid_request JNull" by (simp add: valid_request_def)
    ultimately have "q = call_of ''get_relays'' JNull" using that(2) by blast
    then show ?thesis using json_lawsD(4) [OF json_laws_table, of "[]" "''get_relays''"]
      by (simp only: call_fields) blast
  qed
  have "\<exists>rs. fst (processBatch (table_lib []) (daemon_router (table_lib []) (base_device sil_ops)) ?qs [] demo) = Inr rs \<and>
      length rs = length ?qs \<and> (\<forall>i < length ?qs. is_reply (request_id (?qs ! i)) (rs ! i))"
    by (rule batch_answers_each) (rule str)
  then obtain rs where
    "fst (processBatch (table_lib []) (daemon_router (table_lib []) (base_device sil_ops)) ?qs [] demo) = Inr rs"
    "length rs = length ?qs" by (elim exE conjE)
  then show ?thesis by (intro exI [of _ rs] conjI) simp_all
qed

text \<open>
  Whatever the line, an answer is never empty and ends in a newline: also a notification,
  a request without an id, is answered, though the code has a branch that sends nothing.
\<close>

theorem notifications_are_answered:
  assumes "processRequest L r raw s = (Inr resp, s')"
  shows "\<exists>l. resp = l @ [nl]"
  using request_line [of L r raw s resp] assms by simp

theorem notifications_are_answered_witness:
  "\<exists>l. ''null id error'' @ [nl] = l @ [nl]"
proof -
  let ?L = "table_lib [(''null id error'', makeErrorResponse JNull (- 32700) ''Parse error: syntax error'')]"
  have "processRequest ?L JsonRpcRouter ''x'' () = (Inr (''null id error'' @ [nl]), ())"
    by (simp add: processRequest_def table_lib_def dump_line_def)
  from notifications_are_answered [OF this] show ?thesis .
qed

section \<open>The methods\<close>

lemma set_relay_single:
  assumes "json_laws L" "ctrl_reachable ops h c" "1 \<le> i" "i \<le> 8"
    and "valid_request req" "field req ''method'' = JString ''set_relay''" "contains req ''params''"
    and "contains (field req ''params'') ''relay_id''" "field (field req ''params'') ''relay_id'' = JInt i"
    and "contains (field req ''params'') ''state''" "field (field req ''params'') ''state'' = JBool b"
  shows "processSingleRequest L (daemon_router L (base_device ops)) req c =
    (Inr (makeSuccessResponse (request_id req)
       (jobj [(''success'', JBool True), (''relay_id'', JInt i), (''state'', JBool b)])),
     snd (setRelay ops i b c)) \<and>
    relay_on (snd (setRelay ops i b c)) j = (if j = i then b else relay_on c j)"
proof
  have ok: "\<not> bad_channel i" using assms(3,4) by (simp add: bad_channel_def)
  have res: "rpc_set_relay L (base_device ops) (field req ''params'') (request_id req) c =
      (Inr (jobj [(''success'', JBool True), (''relay_id'', JInt i), (''state'', JBool b)]),
       snd (setRelay ops i b c))"
    using reach.set_relay_ok [OF assms(1,2) ok assms(8-11)] by (simp add: base_device_def)
  have m: "get_string L (field req ''method'') = Inr ''set_relay''"
    using json_lawsD(4) [OF assms(1)] by (simp add: assms(6))
  have h: "map_of (m_methods (daemon_router L (base_device ops))) ''set_relay'' =
      Some (rpc_set_relay L (base_device ops))" by (simp add: daemon_methods)
  show "processSingleRequest L (daemon_router L (base_device ops)) req c =
    (Inr (makeSuccessResponse (request_id req)
       (jobj [(''success'', JBool True), (''relay_id'', JInt i), (''state'', JBool b)])),
     snd (setRelay ops i b c))"
    by (rule single_call [OF assms(5) m h assms(7) res]) (simp add: success_plain)
  show "relay_on (snd (setRelay ops i b c)) j = (if j = i then b else relay_on c j)"
    using reach.set_on [OF assms(2) ok, of b j] by (simp add: base_device_def)
qed

text \<open>
  A set_relay request with a channel in range and a boolean state sets the relay and is
  answered with success, the channel and the state; the new state of the device is the one
  setRelay leaves.
\<close>

theorem set_relay_request:
  assumes "json_laws L" "ctrl_reachable ops h c" "1 \<le> i" "i \<le> 8"
    and "valid_request req" "field req ''method'' = JString ''set_relay''" "contains req ''params''"
    and "contains (field req ''params'') ''relay_id''" "field (field req ''params'') ''relay_id'' = JInt i"
    and "contains (field req ''params'') ''state''" "field (field req ''params'') ''state'' = JBool b"
  shows "processSingleRequest L (daemon_router L (base_device ops)) req c =
    (Inr (makeSuccessResponse (request_id req)
       (jobj [(''success'', JBool True), (''relay_id'', JInt i), (''state'', JBool b)])),
     snd (setRelay ops i b c)) \<and>
    relay_on (snd (setRelay ops i b c)) j = (if j = i then b else relay_on c j)"
  by (rule set_relay_single [OF assms])

definition set_relay_call :: "int \<Rightarrow> bool \<Rightarrow> json" where
  "set_relay_call i b = call_of ''set_relay'' (jobj [(''relay_id'', JInt i), (''state'', JBool b)])"

lemma set_relay_call_params:
  "contains (jobj [(''relay_id'', JInt i), (''state'', JBool b)]) ''relay_id''"
  "field (jobj [(''relay_id'', JInt i), (''state'', JBool b)]) ''relay_id'' = JInt i"
  "contains (jobj [(''relay_id'', JInt i), (''state'', JBool b)]) ''state''"
  "field (jobj [(''relay_id'', JInt i), (''state'', JBool b)]) ''state'' = JBool b"
  by (simp_all add: jobj_def)

theorem set_relay_request_witness:
  "relay_on (snd (setRelay sil_ops 3 True demo)) 3"
proof -
  let ?q = "set_relay_call 3 True"
  have q: "valid_request ?q" "field ?q ''method'' = JString ''set_relay''" "contains ?q ''params''"
    "contains (field ?q ''params'') ''relay_id''" "field (field ?q ''params'') ''relay_id'' = JInt 3"
    "contains (field ?q ''params'') ''state''" "field (field ?q ''params'') ''state'' = JBool True"
    unfolding set_relay_call_def call_fields by (fact call_fields refl set_relay_call_params)+
  from set_relay_request [OF json_laws_table demo_reachable _ _ q, of "[]" 3] show ?thesis by simp
qed

lemma start_request:
  assumes "json_laws L" "valid_request req" "field req ''method'' = JString m" "contains req ''params''"
    and "map_of (m_methods (daemon_router L dev)) m = Some h"
    and "h (field req ''params'') (request_id req) c = (Inr (jobj kvs), c')" "''error'' \<notin> fst ` set kvs"
  shows "processSingleRequest L (daemon_router L dev) req c =
    (Inr (makeSuccessResponse (request_id req) (jobj kvs)), c')"
proof -
  have m: "get_string L (field req ''method'') = Inr m"
    using json_lawsD(4) [OF assms(1)] by (simp add: assms(3))
  show ?thesis
    by (rule single_call [OF assms(2) m assms(5,4,6)]) (rule success_plain [OF assms(7)])
qed

lemma base_device_sel:
  "dev_startTimer (base_device ops) = startTimer ops" "dev_startPulse (base_device ops) = startPulse ops"
  "dev_startBlink (base_device ops) = startBlink ops"
  by (simp_all add: base_device_def)

text \<open>
  The requests start_timer, start_pulse and start_blink with a channel in range and
  unsigned 32-bit numbers run the operation of the controller with exactly those numbers and
  echo them; a duration has no upper bound but the width of the type.
\<close>

theorem start_requests:
  assumes "json_laws L" "ctrl_reachable ops h c" "1 \<le> i" "i \<le> 8"
    and "valid_request req" "contains req ''params''" "p = field req ''params''"
    and "contains p ''relay_id''" "field p ''relay_id'' = JInt i"
  shows "(field req ''method'' = JString ''start_timer'' \<and>
      contains p ''seconds'' \<and> field p ''seconds'' = JInt (uint s) \<longrightarrow>
      processSingleRequest L (daemon_router L (base_device ops)) req c =
        (Inr (makeSuccessResponse (request_id req)
          (jobj [(''success'', JBool True), (''relay_id'', JInt i), (''seconds'', JInt (uint s))])),
         snd (startTimer ops i s c))) \<and>
    (field req ''method'' = JString ''start_pulse'' \<and>
      contains p ''duration_ms'' \<and> field p ''duration_ms'' = JInt (uint d) \<longrightarrow>
      processSingleRequest L (daemon_router L (base_device ops)) req c =
        (Inr (makeSuccessResponse (request_id req)
          (jobj [(''success'', JBool True), (''relay_id'', JInt i), (''duration_ms'', JInt (uint d))])),
         snd (startPulse ops i d c))) \<and>
    (field req ''method'' = JString ''start_blink'' \<and>
      contains p ''on_ms'' \<and> field p ''on_ms'' = JInt (uint x) \<and>
      contains p ''off_ms'' \<and> field p ''off_ms'' = JInt (uint y) \<and>
      contains p ''count'' \<and> field p ''count'' = JInt (uint n) \<longrightarrow>
      processSingleRequest L (daemon_router L (base_device ops)) req c =
        (Inr (makeSuccessResponse (request_id req)
          (jobj [(''success'', JBool True), (''relay_id'', JInt i), (''on_ms'', JInt (uint x)),
                 (''off_ms'', JInt (uint y)), (''count'', JInt (uint n))])),
         snd (startBlink ops i x y n c)))"
proof (intro conjI impI; elim conjE)
  have ok: "\<not> bad_channel i" using assms(3,4) by (simp add: bad_channel_def)
  note call = start_request [OF assms(1,5) _ assms(6), of _ "base_device ops"]
  { assume m: "field req ''method'' = JString ''start_timer''"
      and s: "contains p ''seconds''" "field p ''seconds'' = JInt (uint s)"
    show "processSingleRequest L (daemon_router L (base_device ops)) req c =
        (Inr (makeSuccessResponse (request_id req)
          (jobj [(''success'', JBool True), (''relay_id'', JInt i), (''seconds'', JInt (uint s))])),
         snd (startTimer ops i s c))"
      by (rule call [where h = "rpc_start_timer L (base_device ops)", OF m _ reach.start_timer_ok [OF assms(1,2) ok assms(8,9) s, unfolded base_device_sel assms(7)]])
        (simp_all add: daemon_methods) }
  { assume m: "field req ''method'' = JString ''start_pulse''"
      and d: "contains p ''duration_ms''" "field p ''duration_ms'' = JInt (uint d)"
    show "processSingleRequest L (daemon_router L (base_device ops)) req c =
        (Inr (makeSuccessResponse (request_id req)
          (jobj [(''success'', JBool True), (''relay_id'', JInt i), (''duration_ms'', JInt (uint d))])),
         snd (startPulse ops i d c))"
      by (rule call [where h = "rpc_start_pulse L (base_device ops)", OF m _ reach.start_pulse_ok [OF assms(1,2) ok assms(8,9) d, unfolded base_device_sel assms(7)]])
        (simp_all add: daemon_methods) }
  { assume m: "field req ''method'' = JString ''start_blink''"
      and b: "contains p ''on_ms''" "field p ''on_ms'' = JInt (uint x)"
        "contains p ''off_ms''" "field p ''off_ms'' = JInt (uint y)"
        "contains p ''count''" "field p ''count'' = JInt (uint n)"
    show "processSingleRequest L (daemon_router L (base_device ops)) req c =
        (Inr (makeSuccessResponse (request_id req)
          (jobj [(''success'', JBool True), (''relay_id'', JInt i), (''on_ms'', JInt (uint x)),
                 (''off_ms'', JInt (uint y)), (''count'', JInt (uint n))])),
         snd (startBlink ops i x y n c))"
      by (rule call [where h = "rpc_start_blink L (base_device ops)", OF m _ reach.start_blink_ok [OF assms(1,2) ok assms(8,9) b, unfolded base_device_sel assms(7)]])
        (simp_all add: daemon_methods) }
qed

theorem start_requests_witness:
  "\<exists>c. processSingleRequest (table_lib []) (daemon_router (table_lib []) (base_device sil_ops))
     (call_of ''start_pulse'' (jobj [(''relay_id'', JInt 2), (''duration_ms'', JInt 4294967295)])) demo =
   (Inr (makeSuccessResponse (JInt 1)
      (jobj [(''success'', JBool True), (''relay_id'', JInt 2), (''duration_ms'', JInt 4294967295)])), c)"
proof -
  let ?p = "jobj [(''relay_id'', JInt 2), (''duration_ms'', JInt 4294967295)]"
  have p: "contains ?p ''relay_id''" "field ?p ''relay_id'' = JInt 2"
    "contains ?p ''duration_ms''" "field ?p ''duration_ms'' = JInt (uint (4294967295 :: u32))"
    by (simp_all add: jobj_def)
  have q: "?p = field (call_of ''start_pulse'' ?p) ''params''" by (simp only: call_fields)
  from start_requests [OF json_laws_table demo_reachable _ _ call_fields(1,3) q p(1,2), where d = 4294967295]
  show ?thesis using p(3,4) by (simp add: call_fields)
qed

lemma throws_bind: "throws r \<Longrightarrow> \<exists>w. bindE r f s = (Inl (Std_exception w), s)"
  by (erule throws_obtain) simp

text \<open>
  Parameters that do not fit change nothing. A missing relay_id, and a channel out of range
  whose other parameters are well typed, are answered by every method as invalid params; a
  relay_id that is no number makes the conversion throw, which the router answers as an
  internal error (-32603) where JSON-RPC has invalid params (-32602).
\<close>

theorem bad_parameters:
  assumes "json_laws L"
  shows "(\<not> contains p ''relay_id'' \<longrightarrow>
      (\<forall>h \<in> {rpc_set_relay L dev, rpc_start_timer L dev, rpc_start_pulse L dev, rpc_start_blink L dev,
             rpc_get_relay_status L dev}.
         \<exists>m. h p rid c = (Inr (rpc_error (- 32602) m), c))) \<and>
    (contains p ''relay_id'' \<and> field p ''relay_id'' = JInt i \<and> fits_int i \<and> (i < 1 \<or> 8 < i) \<longrightarrow>
      (contains p ''state'' \<and> field p ''state'' = JBool b \<longrightarrow> rpc_set_relay L dev p rid c = (Inr channel_error, c)) \<and>
      (contains p ''seconds'' \<and> field p ''seconds'' = JInt (uint (w::u32)) \<longrightarrow> rpc_start_timer L dev p rid c = (Inr channel_error, c)) \<and>
      (contains p ''duration_ms'' \<and> field p ''duration_ms'' = JInt (uint w) \<longrightarrow> rpc_start_pulse L dev p rid c = (Inr channel_error, c)) \<and>
      rpc_get_relay_status L dev p rid c = (Inr channel_error, c)) \<and>
    (contains p ''relay_id'' \<and> \<not> is_numeric (field p ''relay_id'') \<and> contains p ''state'' \<longrightarrow>
      (\<exists>e. rpc_set_relay L dev p rid c = (Inl (Std_exception e), c)))"
proof (intro conjI impI ballI)
  fix h
  assume "\<not> contains p ''relay_id''"
    and "h \<in> {rpc_set_relay L dev, rpc_start_timer L dev, rpc_start_pulse L dev, rpc_start_blink L dev,
             rpc_get_relay_status L dev}"
  then show "\<exists>m. h p rid c = (Inr (rpc_error (- 32602) m), c)"
    unfolding insert_iff empty_iff
    by (elim disjE) (simp_all add: rpc_set_relay_def rpc_start_timer_def rpc_start_pulse_def
      rpc_start_blink_def rpc_get_relay_status_def, blast+)
next
  assume i: "contains p ''relay_id'' \<and> field p ''relay_id'' = JInt i \<and> fits_int i \<and> (i < 1 \<or> 8 < i)"
  then have g: "get_int L (field p ''relay_id'') = Inr i" and o: "is_object p" "bad_channel i"
    using json_lawsD(1) [OF assms] contains_is_object [of p] by (auto simp: bad_channel_def)
  show "rpc_set_relay L dev p rid c = (Inr channel_error, c)"
    if "contains p ''state'' \<and> field p ''state'' = JBool b"
    using that i g o json_lawsD(3) [OF assms] by (simp add: rpc_set_relay_def)
  show "rpc_start_timer L dev p rid c = (Inr channel_error, c)"
    if "contains p ''seconds'' \<and> field p ''seconds'' = JInt (uint w)"
    using that i g o get_u32_word [OF assms] by (simp add: rpc_start_timer_def)
  show "rpc_start_pulse L dev p rid c = (Inr channel_error, c)"
    if "contains p ''duration_ms'' \<and> field p ''duration_ms'' = JInt (uint w)"
    using that i g o get_u32_word [OF assms] by (simp add: rpc_start_pulse_def)
  show "rpc_get_relay_status L dev p rid c = (Inr channel_error, c)"
    using i g o by (simp add: rpc_get_relay_status_def)
next
  assume t: "contains p ''relay_id'' \<and> \<not> is_numeric (field p ''relay_id'') \<and> contains p ''state''"
  then have "is_object p" using contains_is_object by blast
  moreover have "throws (get_int L (field p ''relay_id''))" using t json_lawsD(5) [OF assms] by blast
  ultimately show "\<exists>e. rpc_set_relay L dev p rid c = (Inl (Std_exception e), c)"
    using t throws_bind by (simp add: rpc_set_relay_def)
qed

theorem bad_parameters_witness:
  "\<exists>m. rpc_set_relay (table_lib []) (base_device sil_ops) JNull JNull demo = (Inr (rpc_error (- 32602) m), demo)"
  using bad_parameters [OF json_laws_table, of JNull "[]" "base_device sil_ops" JNull demo 0 True 0] by simp

lemma get_relays_members:
  assumes "ctrl_reachable ops h c"
  shows "\<exists>j. rpc_get_relays (base_device ops) p rid c = (Inr j, c) \<and>
    (\<forall>k. contains j k \<longleftrightarrow> k \<in> show_int ` {1..8}) \<and>
    (\<forall>i. 1 \<le> i \<longrightarrow> i \<le> 8 \<longrightarrow> field j (show_int i) = JBool (relay_on c i))"
proof -
  let ?add = "\<lambda>i j. jset (show_int i) (JBool (relay_on c i)) j"
  have mem: "contains (fold ?add ks j) k \<longleftrightarrow> k \<in> show_int ` set ks \<or> contains j k" for ks j k
    by (induction ks arbitrary: j) auto
  have field: "field (fold ?add ks j) (show_int i) = JBool (relay_on c i)"
    if "i \<in> set ks \<or> field j (show_int i) = JBool (relay_on c i)" "0 \<le> i" "\<forall>i \<in> set ks. 0 \<le> i" for ks j i
    using that
  proof (induction ks arbitrary: j)
    case (Cons k ks)
    have "i \<noteq> k \<longrightarrow> show_int i \<noteq> show_int k" using Cons.prems show_int_inj [of i k] by auto
    then show ?case using Cons.IH [of "?add k j"] Cons.prems by (cases "i = k") auto
  qed simp
  show ?thesis
  proof (intro exI conjI allI impI)
    show "rpc_get_relays (base_device ops) p rid c = (Inr (fold ?add [1..8] (JObject [])), c)"
      by (rule reach.get_relays_states [OF assms])
    show "contains (fold ?add [1..8] (JObject [])) k \<longleftrightarrow> k \<in> show_int ` {1..8}" for k
      unfolding mem by simp
    show "field (fold ?add [1..8] (JObject [])) (show_int i) = JBool (relay_on c i)"
      if "1 \<le> i" "i \<le> 8" for i using that by (intro field) auto
  qed
qed

text \<open>
  get_relays answers with one boolean member for each channel 1 to 8 and no other member,
  and it is the state of the channel; it does not change the device.
\<close>

theorem get_relays_lists_all:
  assumes "ctrl_reachable ops h c"
  shows "\<exists>j. rpc_get_relays (base_device ops) p rid c = (Inr j, c) \<and>
    (\<forall>k. contains j k \<longleftrightarrow> k \<in> show_int ` {1..8}) \<and>
    (\<forall>i. 1 \<le> i \<longrightarrow> i \<le> 8 \<longrightarrow> field j (show_int i) = JBool (relay_on c i))"
  by (rule get_relays_members [OF assms])

theorem get_relays_lists_all_witness:
  "\<exists>j. rpc_get_relays (base_device sil_ops) JNull JNull demo = (Inr j, demo) \<and> field j ''8'' = JBool False"
proof -
  have "show_int 8 = ''8''" by (simp add: show_int_def show_nat.simps)
  moreover have "\<not> relay_on demo 8"
    using om_ref_Some [of "m_relayStates demo" 8 RelayState RelayState]
    by (simp add: relay_on_def demo_fields RelayState_def)
  ultimately show ?thesis
    using get_relays_lists_all [OF demo_reachable, of JNull JNull] by (metis numeral_le_iff one_le_numeral semiring_norm(68) order_refl)
qed

text \<open>
  The answer ''Failed to update GPIO pin state'' (-32603) is never given: no failure of the
  hardware reaches the client of set_relay.
\<close>

theorem gpio_error_unreachable:
  assumes "ctrl_reachable ops h c" "rpc_set_relay L (base_device ops) p rid c = (Inr j, c')"
  shows "field j ''code'' \<noteq> JInt (- 32603)"
  using reach.set_relay_never_internal [OF assms(1), of L p rid j] assms(2) by simp

theorem gpio_error_unreachable_witness:
  "field channel_error ''code'' \<noteq> JInt (- 32603)"
proof -
  have j: "fits_int 9" "bad_channel 9" by (simp_all add: fits_int_def bad_channel_def)
  from gpio_error_unreachable [OF demo_reachable
      reach.set_relay_bad_channel [OF json_laws_table j(2,1) set_relay_call_params]]
  show ?thesis .
qed

end
