(* ===== verification/Framing.thy ===== *)
theory Framing
  imports Prelude
begin

text \<open>
  Lines in a stream of bytes: the specification of the buffers of the TCP server of the daemon
  (handleClient) and of the TCP client of the desktop (receiveLine).
\<close>

section \<open>Framing\<close>

text \<open>
  The lines of a byte stream that are complete, and the bytes after the last newline. What
  the buffer does is specified by \<open>frames\<close>.
\<close>

fun frames :: "string \<Rightarrow> string list \<times> string" where
  "frames [] = ([], [])"
| "frames (c # cs) =
     (let (ls, r) = frames cs
      in if c = nl then ([] # ls, r)
         else case ls of [] \<Rightarrow> ([], c # r) | l # ls' \<Rightarrow> ((c # l) # ls', r))"

lemma frames_tail: "nl \<notin> set r \<Longrightarrow> frames r = ([], r)"
  by (induction r) auto

lemma frames_line: "nl \<notin> set l \<Longrightarrow> frames (l @ nl # r) = (l # fst (frames r), snd (frames r))"
  by (induction l) (auto split: prod.splits)

lemma frames_concat: "concat (map (\<lambda>l. l @ [nl]) (fst (frames s))) @ snd (frames s) = s"
  by (induction s) (auto split: prod.splits list.splits)

lemma frames_no_nl: "nl \<notin> set (snd (frames s)) \<and> (\<forall>l \<in> set (fst (frames s)). nl \<notin> set l)"
  by (induction s) (auto split: prod.splits list.splits)

lemma frames_unique:
  "(\<forall>l \<in> set ls. nl \<notin> set l) \<Longrightarrow> nl \<notin> set r \<Longrightarrow>
     frames (concat (map (\<lambda>l. l @ [nl]) ls) @ r) = (ls, r)"
  by (induction ls) (simp_all add: frames_tail frames_line)

lemma frames_append:
  "frames (a @ b) = (fst (frames a) @ fst (frames (snd (frames a) @ b)), snd (frames (snd (frames a) @ b)))"
proof -
  let ?n = "\<lambda>ls. concat (map (\<lambda>l. l @ [nl]) ls)"
  let ?t = "snd (frames a) @ b"
  have "a @ b = ?n (fst (frames a)) @ ?t"
    using frames_concat [of a] by (metis append.assoc)
  also have "\<dots> = ?n (fst (frames a) @ fst (frames ?t)) @ snd (frames ?t)"
    using frames_concat [of ?t] by simp
  finally have eq: "a @ b = \<dots>" .
  show ?thesis
    unfolding eq using frames_no_nl [of a] frames_no_nl [of ?t] by (intro frames_unique) auto
qed

text \<open>The division into lines is the only one of its kind.\<close>

lemma frames_exact:
  "frames stream = (ls, r) \<longleftrightarrow>
     stream = concat (map (\<lambda>l. l @ [nl]) ls) @ r \<and> nl \<notin> set r \<and> list_all (\<lambda>l. nl \<notin> set l) ls"
  using frames_concat [of stream] frames_no_nl [of stream] frames_unique [of ls r]
  by (auto simp: list_all_iff)

lemma buffer_line:
  assumes "find_char nl buf = Some p"
  shows "\<exists>r. buf = take p buf @ nl # r \<and> r = drop (p + 1) buf \<and> nl \<notin> set (take p buf)"
  using find_char_SomeD [OF assms] by simp

end
