(* ===== verification/Tcp_Server.thy ===== *)
theory Tcp_Server
  imports Jsonrpc_Router Framing
begin

text \<open>
  TcpServer (include/network/tcp_server.h, src/network/tcp_server.cc), its data: how start()
  acquires the TLS context and the listening socket and gives them back on failure, and how
  the body of handleClient turns the bytes of a connection into requests and answers. The
  threads and stop() are in Server_Threads. OpenSSL and the socket calls are the answers
  of a record \<open>server_env\<close>; whatever uses the handler uses only the contract \<open>rpc_handler\<close>.
\<close>

section \<open>Starting\<close>

record client_session =
  socketFd :: int
  ssl :: "nat option"

text \<open>
  The members of the class, then the resources of the process: the live TLS contexts, those
  that demand a client certificate, and the open sockets.
\<close>

record tcp_server =
  m_port :: int
  srv_running :: bool
  m_serverSocket :: int
  m_listenerThread :: bool
  m_useSsl :: bool
  m_useMtls :: bool
  m_caPath :: string
  m_certPath :: string
  m_keyPath :: string
  m_sslCtx :: "nat option"
  m_clientSessions :: "client_session list"
  live_ctx :: "nat set"
  verifying :: "nat set"
  open_fds :: "int set"

definition TcpServer :: "int \<Rightarrow> bool \<Rightarrow> bool \<Rightarrow> string \<Rightarrow> string \<Rightarrow> string \<Rightarrow> tcp_server" where
  "TcpServer port useSsl useMtls caPath certPath keyPath =
     \<lparr>m_port = port, srv_running = False, m_serverSocket = - 1, m_listenerThread = False,
      m_useSsl = useSsl, m_useMtls = useMtls, m_caPath = caPath, m_certPath = certPath,
      m_keyPath = keyPath, m_sslCtx = None, m_clientSessions = [],
      live_ctx = {}, verifying = {}, open_fds = {}\<rparr>"

record server_env =
  ssl_ctx_new :: "nat option"
  use_certificate_file :: "nat \<Rightarrow> string \<Rightarrow> int"
  use_private_key_file :: "nat \<Rightarrow> string \<Rightarrow> int"
  load_verify_locations :: "nat \<Rightarrow> string \<Rightarrow> int"
  new_socket :: int
  set_reuse_addr :: "int \<Rightarrow> int"
  bind_port :: "int \<Rightarrow> 16 word \<Rightarrow> int"
  listen_on :: "int \<Rightarrow> int \<Rightarrow> int"

definition free_ctx :: "nat \<Rightarrow> tcp_server \<Rightarrow> tcp_server" where
  "free_ctx ctx v = v\<lparr>live_ctx := live_ctx v - {ctx}, verifying := verifying v - {ctx}\<rparr>"

definition drop_ctx :: "tcp_server \<Rightarrow> tcp_server" where
  "drop_ctx v = (case m_sslCtx v of None \<Rightarrow> v | Some ctx \<Rightarrow> (free_ctx ctx v)\<lparr>m_sslCtx := None\<rparr>)"

definition close_listener :: "tcp_server \<Rightarrow> tcp_server" where
  "close_listener v = v\<lparr>open_fds := open_fds v - {m_serverSocket v}, m_serverSocket := - 1\<rparr>"

text \<open>The first part of start(): the TLS context. The result tells whether to go on.\<close>

definition start_tls :: "server_env \<Rightarrow> tcp_server \<Rightarrow> bool \<times> tcp_server" where
  "start_tls env v =
     (if \<not> m_useSsl v then (True, v)
      else case ssl_ctx_new env of
        None \<Rightarrow> (False, v)
      | Some ctx \<Rightarrow>
          let v1 = v\<lparr>live_ctx := insert ctx (live_ctx v)\<rparr>
          in if use_certificate_file env ctx (m_certPath v1) \<le> 0 then (False, free_ctx ctx v1)
             else if use_private_key_file env ctx (m_keyPath v1) \<le> 0 then (False, free_ctx ctx v1)
             else if m_useMtls v1 \<and> m_caPath v1 \<noteq> [] then
               (if load_verify_locations env ctx (m_caPath v1) \<le> 0 then (False, free_ctx ctx v1)
                else (True, v1\<lparr>verifying := insert ctx (verifying v1), m_sslCtx := Some ctx\<rparr>))
             else (True, v1\<lparr>m_sslCtx := Some ctx\<rparr>))"

definition start_socket :: "server_env \<Rightarrow> tcp_server \<Rightarrow> bool \<times> tcp_server" where
  "start_socket env v =
     (let v1 = v\<lparr>m_serverSocket := new_socket env\<rparr>
      in if m_serverSocket v1 < 0 then (False, drop_ctx v1)
         else let v2 = v1\<lparr>open_fds := insert (m_serverSocket v1) (open_fds v1)\<rparr>
           in if bind_port env (m_serverSocket v2) (word_of_int (m_port v2)) < 0
              then (False, drop_ctx (close_listener v2))
              else if listen_on env (m_serverSocket v2) 5 < 0
              then (False, drop_ctx (close_listener v2))
              else (True, v2\<lparr>srv_running := True, m_listenerThread := True\<rparr>))"

definition start :: "server_env \<Rightarrow> tcp_server \<Rightarrow> bool \<times> tcp_server" where
  "start env v =
     (if srv_running v then (True, v)
      else let (ok, v1) = start_tls env v
           in if \<not> ok then (False, v1) else start_socket env v1)"

text \<open>
  The environment gives what it documents: a new context is not one in use, a new socket is
  not open yet.
\<close>

definition env_fresh :: "server_env \<Rightarrow> tcp_server \<Rightarrow> bool" where
  "env_fresh env v \<longleftrightarrow>
     (\<forall>ctx. ssl_ctx_new env = Some ctx \<longrightarrow> ctx \<notin> live_ctx v \<and> ctx \<notin> verifying v) \<and>
     (0 \<le> new_socket env \<longrightarrow> new_socket env \<notin> open_fds v)"

definition stopped :: "tcp_server \<Rightarrow> bool" where
  "stopped v \<longleftrightarrow> \<not> srv_running v \<and> m_sslCtx v = None"

lemma free_fresh_ctx:
  assumes "ctx \<notin> live_ctx v" "ctx \<notin> verifying v"
  shows "free_ctx ctx (v\<lparr>live_ctx := insert ctx (live_ctx v)\<rparr>) = v"
  using assms by (cases v) (simp add: free_ctx_def)

text \<open>What makes the TLS part of start() give up on a context it got.\<close>

definition tls_refused :: "server_env \<Rightarrow> tcp_server \<Rightarrow> nat \<Rightarrow> bool" where
  "tls_refused env v ctx \<longleftrightarrow> use_certificate_file env ctx (m_certPath v) \<le> 0 \<or>
     use_private_key_file env ctx (m_keyPath v) \<le> 0 \<or>
     (m_useMtls v \<and> m_caPath v \<noteq> [] \<and> load_verify_locations env ctx (m_caPath v) \<le> 0)"

definition demands_cert :: "tcp_server \<Rightarrow> bool" where
  "demands_cert v \<longleftrightarrow> m_useMtls v \<and> m_caPath v \<noteq> []"

definition with_ctx :: "nat \<Rightarrow> tcp_server \<Rightarrow> tcp_server" where
  "with_ctx ctx v = v\<lparr>live_ctx := insert ctx (live_ctx v),
     verifying := (if demands_cert v then insert ctx (verifying v) else verifying v),
     m_sslCtx := Some ctx\<rparr>"

lemma start_tls_Some:
  assumes "m_useSsl v" "ssl_ctx_new env = Some ctx" "ctx \<notin> live_ctx v" "ctx \<notin> verifying v"
  shows "start_tls env v =
    (if tls_refused env v ctx then (False, v) else (True, with_ctx ctx v))"
proof -
  note fresh = free_fresh_ctx [OF assms(3,4)]
  show ?thesis
  proof (cases "tls_refused env v ctx")
    case True
    then show ?thesis using assms(1,2) fresh
      by (auto simp: start_tls_def Let_def tls_refused_def)
  next
    case False
    then have loaded: "\<not> use_certificate_file env ctx (m_certPath v) \<le> 0"
      "\<not> use_private_key_file env ctx (m_keyPath v) \<le> 0"
      by (simp_all add: tls_refused_def)
    show ?thesis
    proof (cases "demands_cert v")
      case True
      with False have "\<not> load_verify_locations env ctx (m_caPath v) \<le> 0"
        by (simp add: tls_refused_def demands_cert_def)
      with True False loaded show ?thesis using assms(1,2)
        by (simp add: start_tls_def with_ctx_def demands_cert_def Let_def)
    next
      case no: False
      have "with_ctx ctx v = v\<lparr>live_ctx := insert ctx (live_ctx v), m_sslCtx := Some ctx\<rparr>"
        using no by (simp add: with_ctx_def)
      moreover have skip: "(m_useMtls v \<and> m_caPath v \<noteq> []) = False"
        using no by (simp add: demands_cert_def)
      ultimately show ?thesis
        using assms(1,2) False loaded by (simp only: start_tls_def Let_def) (simp add: skip)
    qed
  qed
qed

lemma env_fresh_ctx:
  "env_fresh env v \<Longrightarrow> ssl_ctx_new env = Some ctx \<Longrightarrow> ctx \<notin> live_ctx v \<and> ctx \<notin> verifying v"
  by (simp add: env_fresh_def)

lemma start_tls_cases:
  assumes "env_fresh env v"
  obtains (plain) "\<not> m_useSsl v" "start_tls env v = (True, v)"
  | (none) "m_useSsl v" "ssl_ctx_new env = None" "start_tls env v = (False, v)"
  | (refused) ctx where "m_useSsl v" "ssl_ctx_new env = Some ctx" "tls_refused env v ctx"
      "start_tls env v = (False, v)"
  | (ok) ctx where "m_useSsl v" "ssl_ctx_new env = Some ctx" "\<not> tls_refused env v ctx"
      "ctx \<notin> live_ctx v" "ctx \<notin> verifying v" "start_tls env v = (True, with_ctx ctx v)"
proof (cases "m_useSsl v")
  case False
  then show thesis by (intro plain) (simp_all add: start_tls_def)
next
  case ssl: True
  show thesis
  proof (cases "ssl_ctx_new env")
    case None
    then show thesis using ssl by (intro none) (simp_all add: start_tls_def)
  next
    case (Some ctx)
    have fresh: "ctx \<notin> live_ctx v" "ctx \<notin> verifying v"
      using env_fresh_ctx [OF assms Some] by auto
    note start = start_tls_Some [OF ssl Some fresh]
    show thesis
    proof (cases "tls_refused env v ctx")
      case True
      then show thesis using start by (intro refused [OF ssl Some]) simp_all
    next
      case False
      then show thesis using start by (intro ok [OF ssl Some _ fresh]) simp_all
    qed
  qed
qed

lemma with_ctx_fields:
  "live_ctx (with_ctx ctx v) = insert ctx (live_ctx v)" "m_sslCtx (with_ctx ctx v) = Some ctx"
  "verifying (with_ctx ctx v) = (if demands_cert v then insert ctx (verifying v) else verifying v)"
  "open_fds (with_ctx ctx v) = open_fds v" "srv_running (with_ctx ctx v) = srv_running v"
  "m_port (with_ctx ctx v) = m_port v" "m_serverSocket (with_ctx ctx v) = m_serverSocket v"
  "m_listenerThread (with_ctx ctx v) = m_listenerThread v"
  "m_clientSessions (with_ctx ctx v) = m_clientSessions v"
  by (simp_all add: with_ctx_def)

lemma drop_ctx_fields:
  "open_fds (drop_ctx v) = open_fds v" "m_sslCtx (drop_ctx v) = None"
  "live_ctx (drop_ctx v) = live_ctx v - set_option (m_sslCtx v)"
  "srv_running (drop_ctx v) = srv_running v" "m_serverSocket (drop_ctx v) = m_serverSocket v"
  "m_listenerThread (drop_ctx v) = m_listenerThread v"
  "m_clientSessions (drop_ctx v) = m_clientSessions v"
  by (cases "m_sslCtx v"; simp add: drop_ctx_def free_ctx_def)+

lemma start_socket_fail:
  assumes "\<not> fst (start_socket env v)" "0 \<le> new_socket env \<longrightarrow> new_socket env \<notin> open_fds v"
  shows "open_fds (snd (start_socket env v)) = open_fds v \<and>
    live_ctx (snd (start_socket env v)) = live_ctx v - set_option (m_sslCtx v) \<and>
    m_sslCtx (snd (start_socket env v)) = None \<and>
    srv_running (snd (start_socket env v)) = srv_running v \<and>
    m_serverSocket (snd (start_socket env v)) < 0"
proof (cases "new_socket env < 0")
  case True
  then show ?thesis by (simp add: start_socket_def Let_def drop_ctx_fields)
next
  case False
  then show ?thesis
    using assms by (simp add: start_socket_def Let_def drop_ctx_fields close_listener_def split: if_splits)
qed

lemma start_socket_ok:
  assumes "fst (start_socket env v)"
  shows "0 \<le> new_socket env \<and> snd (start_socket env v) =
    v\<lparr>m_serverSocket := new_socket env, open_fds := insert (new_socket env) (open_fds v),
      srv_running := True, m_listenerThread := True\<rparr>"
  using assms by (simp add: start_socket_def Let_def split: if_splits)

section \<open>One connection\<close>

text \<open>
  recv and SSL_read give some bytes, at most 2047, or an end (zero or an error). The flag
  m_running is read at each turn of the loop and before each answer is sent: \<open>flag n\<close> is the
  n-th reading of this thread.
\<close>

datatype recv_result = Bytes string | Closed

record connection =
  requestBuffer :: string
  sent :: "string list"
  flag_reads :: nat

definition new_connection :: connection where
  "new_connection = \<lparr>requestBuffer = [], sent = [], flag_reads = 0\<rparr>"

text \<open>Sending the answer of one request, if there is one and the server still runs.\<close>

definition answer :: "(nat \<Rightarrow> bool) \<Rightarrow> string \<Rightarrow> connection \<Rightarrow> connection" where
  "answer flag rawResponse k =
     (if rawResponse = [] then k
      else let k1 = k\<lparr>flag_reads := Suc (flag_reads k)\<rparr>
           in if flag (flag_reads k) then k1\<lparr>sent := sent k1 @ [rawResponse]\<rparr> else k1)"

text \<open>The inner loop: each complete line of the buffer is handled and answered.\<close>

function drain :: "(string \<Rightarrow> 's \<Rightarrow> (exn + string) \<times> 's) \<Rightarrow> (nat \<Rightarrow> bool) \<Rightarrow> connection \<Rightarrow> 's \<Rightarrow>
    (exn + connection) \<times> 's" where
  "drain handle flag k s =
     (case find_char nl (requestBuffer k) of
        None \<Rightarrow> (Inr k, s)
      | Some newlinePos \<Rightarrow>
          let rawRequest = take newlinePos (requestBuffer k);
              k1 = k\<lparr>requestBuffer := drop (newlinePos + 1) (requestBuffer k)\<rparr>
          in if rawRequest \<noteq> [] \<and> rawRequest \<noteq> [cr]
             then (case handle rawRequest s of
                     (Inl e, s') \<Rightarrow> (Inl e, s')
                   | (Inr rawResponse, s') \<Rightarrow> drain handle flag (answer flag rawResponse k1) s')
             else drain handle flag k1 s)"
  by pat_completeness auto
termination
  by (relation "measure (\<lambda>(_, _, k, _). length (requestBuffer k))")
    (auto simp: answer_def Let_def dest: find_char_SomeD)

declare drain.simps [simp del]

text \<open>The outer loop over what recv returns. An exception of the handler ends the process.\<close>

fun serve :: "(string \<Rightarrow> 's \<Rightarrow> (exn + string) \<times> 's) \<Rightarrow> (nat \<Rightarrow> bool) \<Rightarrow> recv_result list \<Rightarrow>
    connection \<Rightarrow> 's \<Rightarrow> (exn + connection) \<times> 's" where
  "serve handle flag [] k s = (Inr k, s)"
| "serve handle flag (ev # evs) k s =
     (let k1 = k\<lparr>flag_reads := Suc (flag_reads k)\<rparr>
      in if \<not> flag (flag_reads k) then (Inr k1, s)
         else case ev of
           Closed \<Rightarrow> (Inr k1, s)
         | Bytes b \<Rightarrow> bindS (drain handle flag (k1\<lparr>requestBuffer := requestBuffer k1 @ b\<rparr>) s)
                        (\<lambda>k2 s'. serve handle flag evs k2 s'))"


section \<open>Line by line\<close>

text \<open>The requests among the lines, handled one after the other while the server runs.\<close>

definition blank :: "string \<Rightarrow> bool" where
  "blank l \<longleftrightarrow> l = [] \<or> l = [cr]"

fun handle_lines :: "(string \<Rightarrow> 's \<Rightarrow> (exn + string) \<times> 's) \<Rightarrow> string list \<Rightarrow> 's \<Rightarrow>
    (exn + string list) \<times> 's" where
  "handle_lines handle [] s = (Inr [], s)"
| "handle_lines handle (l # ls) s =
     bindS (handle l s) (\<lambda>resp s'. bindS (handle_lines handle ls s')
       (\<lambda>rs s''. (Inr (if resp = [] then rs else resp # rs), s'')))"

definition requests :: "string \<Rightarrow> string list" where
  "requests stream = filter (\<lambda>l. \<not> blank l) (fst (frames stream))"

text \<open>What the connection has sent, and what is left in its buffer.\<close>

definition seen :: "(exn + connection) \<times> 's \<Rightarrow> (exn + string list \<times> string) \<times> 's" where
  "seen p = (map_sum id (\<lambda>k. (sent k, requestBuffer k)) (fst p), snd p)"

definition also_sent :: "string list \<Rightarrow> string \<Rightarrow> (exn + string list) \<times> 's \<Rightarrow>
    (exn + string list \<times> string) \<times> 's" where
  "also_sent before rest p = (map_sum id (\<lambda>rs. (before @ rs, rest)) (fst p), snd p)"


abbreviation always :: "nat \<Rightarrow> bool" where
  "always \<equiv> \<lambda>_. True"

lemma answer_always:
  "sent (answer always resp k) = (if resp = [] then sent k else sent k @ [resp])"
  "requestBuffer (answer flag resp k) = requestBuffer k"
  by (simp_all add: answer_def Let_def)

lemma requests_tail: "nl \<notin> set r \<Longrightarrow> requests r = []"
  by (simp add: requests_def frames_tail)

lemma requests_line:
  "nl \<notin> set l \<Longrightarrow> requests (l @ nl # r) = (if blank l then requests r else l # requests r)"
  by (simp add: requests_def frames_line)

lemma requests_append:
  "requests (a @ b) = requests a @ requests (snd (frames a) @ b)"
  by (simp add: requests_def frames_append [of a b])

lemma drain_frames:
  "seen (drain handle always k s) =
     also_sent (sent k) (snd (frames (requestBuffer k))) (handle_lines handle (requests (requestBuffer k)) s)"
proof (induction handle always k s rule: drain.induct)
  case (1 handle k s)
  show ?case
  proof (cases "find_char nl (requestBuffer k)")
    case None
    then have "nl \<notin> set (requestBuffer k)" by (simp add: find_char_None)
    then show ?thesis using None
      by (simp add: drain.simps [of handle always k] frames_tail requests_tail seen_def also_sent_def)
  next
    case (Some p)
    define l where "l = take p (requestBuffer k)"
    define r where "r = drop (p + 1) (requestBuffer k)"
    have buf: "requestBuffer k = l @ nl # r" and l: "nl \<notin> set l"
      using buffer_line [OF Some] by (simp_all add: l_def r_def)
    have pos: "find_char nl (l @ nl # r) = Some (length l)" using l by (rule find_char_append)
    let ?k = "k\<lparr>requestBuffer := r\<rparr>"
    note unfold = drain.simps [of handle always k s] and IH = 1 [OF Some l_def, of ?k]
    show ?thesis
    proof (cases "blank l")
      case True
      then have "drain handle always k s = drain handle always ?k s"
        by (auto simp: unfold buf pos blank_def)
      moreover have "seen (drain handle always ?k s) =
          also_sent (sent k) (snd (frames r)) (handle_lines handle (requests r) s)"
        using IH(2) True by (simp add: r_def blank_def)
      ultimately show ?thesis using True l by (simp add: buf requests_line frames_line)
    next
      case False
      then have step: "drain handle always k s = (case handle l s of
          (Inl e, s') \<Rightarrow> (Inl e, s')
        | (Inr resp, s') \<Rightarrow> drain handle always (answer always resp ?k) s')"
        by (simp add: unfold buf pos blank_def)
      show ?thesis
      proof (cases "handle l s")
        case (Pair res s')
        show ?thesis
        proof (cases res)
          case (Inl e)
          with Pair step False l show ?thesis
            by (simp add: buf requests_line frames_line seen_def also_sent_def)
        next
          case (Inr resp)
          have "seen (drain handle always (answer always resp ?k) s') =
              also_sent (sent (answer always resp ?k)) (snd (frames r)) (handle_lines handle (requests r) s')"
            using IH(1) False Pair Inr by (simp add: r_def blank_def answer_always)
          with Pair Inr step False l show ?thesis
            by (cases "handle_lines handle (requests r) s'"; cases "fst (handle_lines handle (requests r) s')")
              (simp_all add: buf requests_line frames_line answer_always also_sent_def)
        qed
      qed
    qed
  qed
qed


lemma handle_lines_append:
  "handle_lines handle (xs @ ys) s =
     bindS (handle_lines handle xs s) (\<lambda>rs s'. bindS (handle_lines handle ys s')
       (\<lambda>rs' s''. (Inr (rs @ rs'), s'')))"
proof (induction xs arbitrary: s)
  case Nil
  then show ?case
    by (cases "handle_lines handle ys s"; cases "fst (handle_lines handle ys s)") simp_all
next
  case (Cons x xs)
  then show ?case by (simp add: bindS_def bindE_def split: sum.splits)
qed

lemma also_sent_append:
  "also_sent before rest (bindS p (\<lambda>rs' s. (Inr (rs @ rs'), s))) = also_sent (before @ rs) rest p"
  by (cases p; cases "fst p") (simp_all add: also_sent_def)

lemma seen_Inr:
  assumes "seen p = (Inr (rs, b), s)"
  obtains k where "p = (Inr k, s)" "sent k = rs" "requestBuffer k = b"
  using assms by (cases p; cases "fst p") (auto simp: seen_def)

lemma seen_Inl: "seen p = (Inl e, s) \<longleftrightarrow> p = (Inl e, s)"
  by (cases p; cases "fst p") (auto simp: seen_def)

lemma serve_frames:
  assumes "evs = [] \<or> (\<exists>evs'. evs = Closed # evs')" and "nl \<notin> set (requestBuffer k)"
  shows "seen (serve handle always (map Bytes cs @ evs) k s) =
    also_sent (sent k) (snd (frames (requestBuffer k @ concat cs)))
      (handle_lines handle (requests (requestBuffer k @ concat cs)) s)"
  using assms(2)
proof (induction cs arbitrary: k s)
  case Nil
  have "seen (serve handle always evs k s) = (Inr (sent k, requestBuffer k), s)"
    using assms(1) by (auto simp: seen_def)
  with Nil show ?case by (simp add: frames_tail requests_tail also_sent_def)
next
  case (Cons b cs)
  let ?k = "k\<lparr>flag_reads := Suc (flag_reads k), requestBuffer := requestBuffer k @ b\<rparr>"
  let ?buf = "requestBuffer k @ b"
  let ?p = "drain handle always ?k s"
  have drain: "seen ?p = also_sent (sent k) (snd (frames ?buf)) (handle_lines handle (requests ?buf) s)"
    using drain_frames [of handle ?k s] by simp
  have serve: "serve handle always (map Bytes (b # cs) @ evs) k s =
      bindS ?p (serve handle always (map Bytes cs @ evs))"
    by (simp add: Let_def)
  have stream: "requests (requestBuffer k @ concat (b # cs)) =
      requests ?buf @ requests (snd (frames ?buf) @ concat cs)"
    "snd (frames (requestBuffer k @ concat (b # cs))) = snd (frames (snd (frames ?buf) @ concat cs))"
    using requests_append [of ?buf "concat cs"] frames_append [of ?buf "concat cs"] by simp_all
  show ?case
  proof (cases "handle_lines handle (requests ?buf) s")
    case (Pair res s')
    show ?thesis
    proof (cases res)
      case (Inl e)
      with Pair drain have "?p = (Inl e, s')" by (simp add: also_sent_def seen_Inl)
      with Pair Inl show ?thesis
        unfolding serve stream handle_lines_append by (simp add: seen_def also_sent_def)
    next
      case (Inr rs)
      with Pair drain have "seen ?p = (Inr (sent k @ rs, snd (frames ?buf)), s')"
        by (simp add: also_sent_def)
      then obtain k' where k': "?p = (Inr k', s')" "sent k' = sent k @ rs"
          "requestBuffer k' = snd (frames ?buf)" by (rule seen_Inr)
      have "seen (serve handle always (map Bytes cs @ evs) k' s') =
          also_sent (sent k @ rs) (snd (frames (snd (frames ?buf) @ concat cs)))
            (handle_lines handle (requests (snd (frames ?buf) @ concat cs)) s')"
        using Cons.IH [of k' s'] k' frames_no_nl [of ?buf] by simp
      moreover have "bindS ?p (serve handle always (map Bytes cs @ evs)) =
          serve handle always (map Bytes cs @ evs) k' s'" by (simp only: k'(1) bindS_simps)
      moreover have "handle_lines handle (requests ?buf) s = (Inr rs, s')" using Pair Inr by simp
      ultimately show ?thesis
        unfolding serve stream handle_lines_append by (simp only: bindS_simps also_sent_append)
    qed
  qed
qed

section \<open>What a handler's contract gives\<close>

lemma drain_state:
  assumes "\<And>raw s. P s \<Longrightarrow> P (snd (handle raw s))"
  shows "P s \<Longrightarrow> P (snd (drain handle flag k s))"
  using assms
proof (induction handle flag k s rule: drain.induct)
  case (1 handle flag k s)
  show ?case
  proof (cases "find_char nl (requestBuffer k)")
    case None
    with 1(3) show ?thesis by (simp add: drain.simps [of handle flag k s])
  next
    case (Some p)
    let ?l = "take p (requestBuffer k)" and ?k = "k\<lparr>requestBuffer := drop (p + 1) (requestBuffer k)\<rparr>"
    show ?thesis
    proof (cases "?l \<noteq> [] \<and> ?l \<noteq> [cr]")
      case True
      show ?thesis
      proof (cases "handle ?l s")
        case (Pair res s')
        have "P s'" using 1(4) [OF 1(3), of ?l] Pair by simp
        with Pair 1(1) [OF Some refl refl True Pair [symmetric]] 1(4) True Some show ?thesis
          by (cases res) (simp_all add: drain.simps [of handle flag k s])
      qed
    next
      case False
      then have "drain handle flag k s = drain handle flag ?k s"
        using Some by (auto simp: drain.simps [of handle flag k s] Let_def)
      with 1(2) [OF Some refl refl False 1(3,4)] show ?thesis by simp
    qed
  qed
qed

lemma serve_state:
  assumes "\<And>raw s. P s \<Longrightarrow> P (snd (handle raw s))"
  shows "P s \<Longrightarrow> P (snd (serve handle flag evs k s))"
proof (induction evs arbitrary: k s)
  case Nil
  then show ?case by simp
next
  case (Cons ev evs)
  show ?case
  proof (cases ev)
    case (Bytes b)
    have "P (snd (drain handle flag k' s))" for k'
      using assms Cons.prems by (rule drain_state)
    with Cons Bytes show ?thesis by (auto simp: Let_def intro!: bindS_state [where P = P])
  qed (use Cons.prems in \<open>simp add: Let_def\<close>)
qed

section \<open>Properties\<close>


lemma start_socket_verifying:
  "\<not> fst (start_socket env v) \<Longrightarrow>
    verifying (snd (start_socket env v)) = verifying v - set_option (m_sslCtx v)"
  by (cases "m_sslCtx v")
    (simp_all add: start_socket_def Let_def drop_ctx_def free_ctx_def close_listener_def split: if_splits)

text \<open>
  A start() that fails gives everything back: no TLS context and no socket of it remains,
  whatever step failed, and the server is not running. So it can be called again.
\<close>

theorem start_failure_leaks_nothing:
  assumes "stopped v" "env_fresh env v" "\<not> fst (start env v)"
  shows "live_ctx (snd (start env v)) = live_ctx v \<and> verifying (snd (start env v)) = verifying v \<and>
    open_fds (snd (start env v)) = open_fds v \<and> stopped (snd (start env v))"
proof -
  have run: "\<not> srv_running v" "m_sslCtx v = None" using assms(1) by (simp_all add: stopped_def)
  have sock: "0 \<le> new_socket env \<longrightarrow> new_socket env \<notin> open_fds v"
    using assms(2) by (simp add: env_fresh_def)
  from assms(2) show ?thesis
  proof (cases rule: start_tls_cases)
    case plain
    then have eq: "start env v = start_socket env v" using run by (simp add: start_def)
    then have fail: "\<not> fst (start_socket env v)" using assms(3) by simp
    show ?thesis
      using start_socket_fail [OF fail sock] start_socket_verifying [OF fail] run
      by (simp add: eq stopped_def)
  next
    case none
    then show ?thesis using run by (simp add: start_def stopped_def)
  next
    case (refused ctx)
    then show ?thesis using run by (simp add: start_def stopped_def)
  next
    case (ok ctx)
    let ?v = "with_ctx ctx v"
    have eq: "start env v = start_socket env ?v" using run ok by (simp add: start_def)
    then have fail: "\<not> fst (start_socket env ?v)" using assms(3) by simp
    show ?thesis
      using start_socket_fail [OF fail] sock start_socket_verifying [OF fail] ok run
      by (simp add: eq stopped_def with_ctx_fields)
  qed
qed

text \<open>An environment in which listen() fails, after everything else went well.\<close>

definition example_env :: "int \<Rightarrow> server_env" where
  "example_env lst = \<lparr>ssl_ctx_new = Some 0, use_certificate_file = (\<lambda>_ _. 1),
     use_private_key_file = (\<lambda>_ _. 1), load_verify_locations = (\<lambda>_ _. 1), new_socket = 3,
     set_reuse_addr = (\<lambda>_. 0), bind_port = (\<lambda>_ _. 0), listen_on = (\<lambda>_ _. lst)\<rparr>"

definition example_server :: "string \<Rightarrow> tcp_server" where
  "example_server ca = TcpServer 50000 True True ca ''server_cert.pem'' ''server_key.pem''"

lemma example_ready: "stopped (example_server ca)" "env_fresh (example_env lst) (example_server ca)"
  by (simp_all add: stopped_def example_server_def TcpServer_def env_fresh_def example_env_def)

lemma example_start:
  "fst (start (example_env lst) (example_server ca)) \<longleftrightarrow> 0 \<le> lst"
  by (simp add: start_def start_tls_def start_socket_def example_server_def TcpServer_def
      example_env_def Let_def case_prod_beta free_ctx_def drop_ctx_def close_listener_def)

theorem start_failure_leaks_nothing_witness:
  "open_fds (snd (start (example_env (- 1)) (example_server ''ca.pem''))) = {} \<and>
   live_ctx (snd (start (example_env (- 1)) (example_server ''ca.pem''))) = {}"
  using start_failure_leaks_nothing [OF example_ready, of "- 1" "''ca.pem''"]
  by (simp add: example_start, simp add: example_server_def TcpServer_def)

lemma start_success:
  assumes "stopped v" "env_fresh env v" "fst (start env v)"
  shows "srv_running (snd (start env v)) \<and> m_listenerThread (snd (start env v)) \<and>
    0 \<le> m_serverSocket (snd (start env v)) \<and>
    open_fds (snd (start env v)) = insert (m_serverSocket (snd (start env v))) (open_fds v) \<and>
    (m_useSsl v \<longleftrightarrow> m_sslCtx (snd (start env v)) \<noteq> None) \<and>
    (\<forall>ctx. m_sslCtx (snd (start env v)) = Some ctx \<longrightarrow>
       ctx \<in> live_ctx (snd (start env v)) \<and>
       (ctx \<in> verifying (snd (start env v)) \<longleftrightarrow> m_useMtls v \<and> m_caPath v \<noteq> ''''))"
proof -
  have run: "\<not> srv_running v" "m_sslCtx v = None" using assms(1) by (simp_all add: stopped_def)
  from assms(2) show ?thesis
  proof (cases rule: start_tls_cases)
    case plain
    then have eq: "start env v = start_socket env v" using run by (simp add: start_def)
    then have ok: "fst (start_socket env v)" using assms(3) by simp
    show ?thesis using start_socket_ok [OF ok] plain run by (simp add: eq)
  next
    case none
    then show ?thesis using assms(3) run by (simp add: start_def)
  next
    case (refused ctx)
    then show ?thesis using assms(3) run by (simp add: start_def)
  next
    case (ok ctx)
    let ?v = "with_ctx ctx v"
    have eq: "start env v = start_socket env ?v" using run ok by (simp add: start_def)
    then have good: "fst (start_socket env ?v)" using assms(3) by simp
    show ?thesis
      using start_socket_ok [OF good] ok by (simp add: eq with_ctx_fields demands_cert_def)
  qed
qed

text \<open>
  A start() that succeeds has the server listening: the running flag and the listener
  thread are set, the socket is open, a context exists exactly when TLS is on, and this
  context demands a client certificate when mutual TLS is asked for with a CA file.
\<close>

theorem start_success_listening:
  assumes "stopped v" "env_fresh env v" "fst (start env v)"
  shows "srv_running (snd (start env v)) \<and> m_listenerThread (snd (start env v)) \<and>
    0 \<le> m_serverSocket (snd (start env v)) \<and>
    open_fds (snd (start env v)) = insert (m_serverSocket (snd (start env v))) (open_fds v) \<and>
    (m_useSsl v \<longleftrightarrow> m_sslCtx (snd (start env v)) \<noteq> None) \<and>
    (\<forall>ctx. m_sslCtx (snd (start env v)) = Some ctx \<longrightarrow>
       ctx \<in> live_ctx (snd (start env v)) \<and>
       (ctx \<in> verifying (snd (start env v)) \<longleftrightarrow> m_useMtls v \<and> m_caPath v \<noteq> ''''))"
  by (rule start_success [OF assms])

theorem start_success_listening_witness:
  "srv_running (snd (start (example_env 0) (example_server ''ca.pem'')))"
  using start_success_listening [OF example_ready, of 0 "''ca.pem''"] by (simp add: example_start)

text \<open>
  Mutual TLS with an empty CA path starts all the same and demands no client certificate,
  while it announces mTLS as enabled.
\<close>

theorem empty_ca_unverified:
  "fst (start (example_env 0) (example_server '''')) \<and>
   m_useMtls (example_server '''') \<and> m_sslCtx (snd (start (example_env 0) (example_server ''''))) = Some 0 \<and>
   0 \<notin> verifying (snd (start (example_env 0) (example_server '''')))"
  by (simp add: start_def start_tls_def start_socket_def example_server_def TcpServer_def
      example_env_def Let_def case_prod_beta)

text \<open>
  C6: The answers to a connection depend on the byte stream alone, not on how recv cuts it
  into pieces: while the server runs, the connection sends the answers of the complete lines
  of the stream, blank ones skipped, in order, keeps the rest for later, and leaves the
  handler's state as if the lines had been handled one by one.
\<close>

theorem serve_is_line_by_line:
  "seen (serve handle always (map Bytes cs @ Closed # evs) new_connection s) =
   also_sent [] (snd (frames (concat cs))) (handle_lines handle (requests (concat cs)) s)"
  using serve_frames [of "Closed # evs" new_connection handle cs s] by (simp add: new_connection_def)

end
