(* ===== verification/Server_Threads.thy ===== *)
theory Server_Threads
  imports Tcp_Server
begin

text \<open>
  The threads of TcpServer (src/network/tcp_server.cc): the listener (listenLoop), one detached
  thread per client (handleClient) and the thread that calls stop(). They share the list of
  sessions, the TLS context and the flag m_running; a step is what one of them does between
  two points where another can come in. What a client thread does with the bytes it reads is
  \<open>Tcp_Server.serve\<close>.
\<close>

section \<open>State\<close>

text \<open>Where the listener is; with the socket, and the TLS object, of the client at hand.\<close>

datatype listener_pc =
    L_test
  | L_accept
  | L_ssl int
  | L_push int "nat option"
  | L_spawn int
  | L_end

text \<open>
  Where a client thread is, with its local variable \<open>ssl\<close>: before it looks up its session, in
  SSL_accept, at the test of its loop, in recv or SSL_read, before SSL_free, before close, and
  before it takes its session off the list.
\<close>

datatype client_pc =
    C_lookup
  | C_handshake nat
  | C_test "nat option"
  | C_read "nat option"
  | C_free nat
  | C_close
  | C_erase

datatype stop_pc = S_idle | S_close | S_join | S_shutdown | S_wait | S_free | S_end

text \<open>
  The threads, the TLS objects that are alive, the sockets that were shut down, and whether a
  thread has used or freed a TLS object that was not alive.
\<close>

record world =
  server :: tcp_server
  listener :: listener_pc
  stopper :: stop_pc
  clients :: "(int \<times> client_pc) list"
  live_ssl :: "nat set"
  shut :: "int set"
  misuse :: bool

definition init_world :: "tcp_server \<Rightarrow> world" where
  "init_world v = \<lparr>server = v, listener = L_test, stopper = S_idle, clients = [], live_ssl = {},
     shut = {}, misuse = False\<rparr>"

section \<open>Operations on the shared state\<close>

text \<open>The search of a client thread for its session: the first one with its socket.\<close>

fun session_ssl :: "int \<Rightarrow> client_session list \<Rightarrow> nat option" where
  "session_ssl fd [] = None"
| "session_ssl fd (s # ss) = (if socketFd s = fd then ssl s else session_ssl fd ss)"

fun erase_session :: "int \<Rightarrow> client_session list \<Rightarrow> client_session list" where
  "erase_session fd [] = []"
| "erase_session fd (s # ss) = (if socketFd s = fd then ss else s # erase_session fd ss)"

definition push_session :: "int \<Rightarrow> nat option \<Rightarrow> tcp_server \<Rightarrow> tcp_server" where
  "push_session fd x v = v\<lparr>m_clientSessions := m_clientSessions v @ [\<lparr>socketFd = fd, ssl = x\<rparr>]\<rparr>"

text \<open>The first thing a client thread does, and what it does after its loop.\<close>

definition start_pc :: "tcp_server \<Rightarrow> client_pc" where
  "start_pc v = (if m_useSsl v then C_lookup else C_test None)"

definition leave_pc :: "nat option \<Rightarrow> client_pc" where
  "leave_pc x = (case x of Some s \<Rightarrow> C_free s | None \<Rightarrow> C_close)"

text \<open>A thread uses the TLS object, if it has one.\<close>

definition use_ssl :: "nat option \<Rightarrow> world \<Rightarrow> world" where
  "use_ssl x w = w\<lparr>misuse := misuse w \<or> \<not> set_option x \<subseteq> live_ssl w\<rparr>"

text \<open>stop() by its steps; joining waits for the listener, waiting for the last session.\<close>

definition stop_flag :: "world \<Rightarrow> world" where
  "stop_flag w =
     (if \<not> srv_running (server w) then w\<lparr>stopper := S_end\<rparr>
      else w\<lparr>server := (server w)\<lparr>srv_running := False\<rparr>, stopper := S_close\<rparr>)"

definition stop_close :: "world \<Rightarrow> world" where
  "stop_close w = w\<lparr>server := (if m_serverSocket (server w) \<ge> 0 then close_listener (server w) else server w),
     stopper := S_join\<rparr>"

definition stop_join :: "world \<Rightarrow> world" where
  "stop_join w = w\<lparr>server := (server w)\<lparr>m_listenerThread := False\<rparr>, stopper := S_shutdown\<rparr>"

definition stop_shutdown :: "world \<Rightarrow> world" where
  "stop_shutdown w = w\<lparr>shut := shut w \<union> {fd \<in> socketFd ` set (m_clientSessions (server w)). fd \<ge> 0},
     stopper := S_wait\<rparr>"

definition stop_free :: "world \<Rightarrow> world" where
  "stop_free w = w\<lparr>server := drop_ctx (server w), stopper := S_end\<rparr>"

section \<open>Steps\<close>

text \<open>
  \<open>reuse\<close> tells whether accept may give a descriptor that was closed while its session is
  still in the list; \<open>own\<close> whether the step needs nothing from a peer. SSL_new is taken to
  succeed. A read or a handshake on a socket that was shut down returns by itself.
\<close>

inductive listener_step :: "bool \<Rightarrow> bool \<Rightarrow> world \<Rightarrow> world \<Rightarrow> bool" for reuse where
  test: "listener w = L_test \<Longrightarrow>
    listener_step reuse True w (w\<lparr>listener := if srv_running (server w) then L_accept else L_end\<rparr>)"
| accept: "listener w = L_accept \<Longrightarrow> m_serverSocket (server w) \<ge> 0 \<Longrightarrow> fd \<ge> 0 \<Longrightarrow> fd \<notin> open_fds (server w) \<Longrightarrow>
    reuse \<or> fd \<notin> socketFd ` set (m_clientSessions (server w)) \<Longrightarrow>
    listener_step reuse False w (w\<lparr>server := (server w)\<lparr>open_fds := insert fd (open_fds (server w))\<rparr>,
      shut := shut w - {fd},
      listener := if m_useSsl (server w) \<and> m_sslCtx (server w) \<noteq> None then L_ssl fd else L_push fd None\<rparr>)"
| accept_failed: "listener w = L_accept \<Longrightarrow>
    listener_step reuse (m_serverSocket (server w) < 0) w
      (w\<lparr>listener := if srv_running (server w) then L_test else L_end\<rparr>)"
| new_ssl: "listener w = L_ssl fd \<Longrightarrow> s \<notin> live_ssl w \<Longrightarrow>
    listener_step reuse True w (w\<lparr>live_ssl := insert s (live_ssl w), listener := L_push fd (Some s)\<rparr>)"
| push: "listener w = L_push fd x \<Longrightarrow>
    listener_step reuse True w (w\<lparr>server := push_session fd x (server w), listener := L_spawn fd\<rparr>)"
| spawn: "listener w = L_spawn fd \<Longrightarrow>
    listener_step reuse True w (w\<lparr>clients := clients w @ [(fd, start_pc (server w))], listener := L_test\<rparr>)"

text \<open>One client thread, at its place in the list of threads: before, thread, after.\<close>

inductive client_step :: "bool \<Rightarrow> world \<Rightarrow> world \<Rightarrow> bool" where
  lookup: "clients w = xs @ (fd, C_lookup) # ys \<Longrightarrow> x = session_ssl fd (m_clientSessions (server w)) \<Longrightarrow>
    pc = (case x of Some s \<Rightarrow> C_handshake s | None \<Rightarrow> C_test None) \<Longrightarrow>
    client_step True w (w\<lparr>clients := xs @ (fd, pc) # ys\<rparr>)"
| handshake: "clients w = xs @ (fd, C_handshake s) # ys \<Longrightarrow> fd \<notin> shut w \<Longrightarrow>
    client_step False w ((use_ssl (Some s) w)\<lparr>clients := xs @ (fd, C_test (Some s)) # ys\<rparr>)"
| handshake_failed: "clients w = xs @ (fd, C_handshake s) # ys \<Longrightarrow>
    client_step (fd \<in> shut w) w ((use_ssl (Some s) w)\<lparr>clients := xs @ (fd, C_free s) # ys\<rparr>)"
| test: "clients w = xs @ (fd, C_test x) # ys \<Longrightarrow>
    client_step True w
      (w\<lparr>clients := xs @ (fd, if srv_running (server w) then C_read x else leave_pc x) # ys\<rparr>)"
| read: "clients w = xs @ (fd, C_read x) # ys \<Longrightarrow>
    client_step False w ((use_ssl x w)\<lparr>clients := xs @ (fd, C_test x) # ys\<rparr>)"
| read_failed: "clients w = xs @ (fd, C_read x) # ys \<Longrightarrow>
    client_step (fd \<in> shut w) w ((use_ssl x w)\<lparr>clients := xs @ (fd, leave_pc x) # ys\<rparr>)"
| free: "clients w = xs @ (fd, C_free s) # ys \<Longrightarrow>
    client_step True w ((use_ssl (Some s) w)\<lparr>live_ssl := live_ssl w - {s}, clients := xs @ (fd, C_close) # ys\<rparr>)"
| close: "clients w = xs @ (fd, C_close) # ys \<Longrightarrow>
    client_step True w (w\<lparr>server := (server w)\<lparr>open_fds := open_fds (server w) - {fd}\<rparr>,
      clients := xs @ (fd, C_erase) # ys\<rparr>)"
| erase: "clients w = xs @ (fd, C_erase) # ys \<Longrightarrow>
    client_step True w (w\<lparr>server := (server w)\<lparr>m_clientSessions := erase_session fd (m_clientSessions (server w))\<rparr>,
      clients := xs @ ys\<rparr>)"

inductive stop_step :: "world \<Rightarrow> world \<Rightarrow> bool" where
  flag: "stopper w = S_idle \<Longrightarrow> stop_step w (stop_flag w)"
| close: "stopper w = S_close \<Longrightarrow> stop_step w (stop_close w)"
| join: "stopper w = S_join \<Longrightarrow> \<not> m_listenerThread (server w) \<or> listener w = L_end \<Longrightarrow> stop_step w (stop_join w)"
| shutdown: "stopper w = S_shutdown \<Longrightarrow> stop_step w (stop_shutdown w)"
| empty: "stopper w = S_wait \<Longrightarrow> m_clientSessions (server w) = [] \<Longrightarrow> stop_step w (w\<lparr>stopper := S_free\<rparr>)"
| free: "stopper w = S_free \<Longrightarrow> stop_step w (stop_free w)"

inductive step :: "bool \<Rightarrow> bool \<Rightarrow> world \<Rightarrow> world \<Rightarrow> bool" for reuse own where
  listener: "listener_step reuse own w w' \<Longrightarrow> step reuse own w w'"
| client: "client_step own w w' \<Longrightarrow> step reuse own w w'"
| stopper: "stop_step w w' \<Longrightarrow> own \<Longrightarrow> step reuse own w w'"

definition some_step :: "bool \<Rightarrow> world \<Rightarrow> world \<Rightarrow> bool" where
  "some_step reuse w w' \<longleftrightarrow> (\<exists>own. step reuse own w w')"

section \<open>Ownership\<close>

text \<open>
  The two views of the connections that have to agree: the threads and the sessions, by
  socket. A client that is about to get its thread counts as a thread.
\<close>

definition view :: "world \<Rightarrow> (int \<times> client_pc) list" where
  "view w = clients w @ (case listener w of L_spawn fd \<Rightarrow> [(fd, start_pc (server w))] | _ \<Rightarrow> [])"

definition thr :: "world \<Rightarrow> int \<rightharpoonup> client_pc" where
  "thr w = map_of (view w)"

definition sess :: "world \<Rightarrow> int \<rightharpoonup> nat option" where
  "sess w = map_of (map (\<lambda>s. (socketFd s, ssl s)) (m_clientSessions (server w)))"

fun holding :: "client_pc \<Rightarrow> bool" where
  "holding C_close = False"
| "holding C_erase = False"
| "holding _ = True"

fun agrees :: "client_pc \<Rightarrow> nat option \<Rightarrow> bool" where
  "agrees (C_handshake s) x = (x = Some s)"
| "agrees (C_test y) x = (x = y)"
| "agrees (C_read y) x = (x = y)"
| "agrees (C_free s) x = (x = Some s)"
| "agrees _ x = True"

fun pend_ssl :: "listener_pc \<Rightarrow> nat set" where
  "pend_ssl (L_push fd x) = set_option x"
| "pend_ssl _ = {}"

fun pend_fd :: "listener_pc \<Rightarrow> int set" where
  "pend_fd (L_push fd x) = {fd}"
| "pend_fd (L_ssl fd) = {fd}"
| "pend_fd _ = {}"

text \<open>Which socket holds which TLS object, and the sockets that threads have open.\<close>

definition holders :: "(int \<rightharpoonup> client_pc) \<Rightarrow> (int \<rightharpoonup> nat option) \<Rightarrow> (int \<times> nat) set" where
  "holders T S = {(fd, s). \<exists>pc. T fd = Some pc \<and> holding pc \<and> S fd = Some (Some s)}"

definition open_socks :: "(int \<rightharpoonup> client_pc) \<Rightarrow> int set" where
  "open_socks T = {fd. \<exists>pc. T fd = Some pc \<and> pc \<noteq> C_erase}"

definition conns_ok :: "(int \<rightharpoonup> client_pc) \<Rightarrow> (int \<rightharpoonup> nat option) \<Rightarrow> nat set \<Rightarrow> nat set \<Rightarrow> int set \<Rightarrow> int set \<Rightarrow> bool" where
  "conns_ok T S live pssl socks pfd \<longleftrightarrow> dom T = dom S \<and>
     (\<forall>fd pc x. T fd = Some pc \<longrightarrow> S fd = Some x \<longrightarrow> agrees pc x) \<and>
     live = snd ` holders T S \<union> pssl \<and> inj_on snd (holders T S) \<and> pssl \<inter> snd ` holders T S = {} \<and>
     socks = open_socks T \<union> pfd \<and> pfd \<inter> dom S = {}"

lemma conns_okD:
  assumes "conns_ok T S live pssl socks pfd"
  shows "dom T = dom S" "live = snd ` holders T S \<union> pssl" "inj_on snd (holders T S)"
    "pssl \<inter> snd ` holders T S = {}" "socks = open_socks T \<union> pfd" "pfd \<inter> dom S = {}"
    "T fd = Some pc \<Longrightarrow> S fd = Some x \<Longrightarrow> agrees pc x"
  using assms by (simp_all add: conns_ok_def)

lemma conns_ok_session:
  assumes "conns_ok T S live pssl socks pfd" "T fd = Some pc"
  obtains x where "S fd = Some x" "agrees pc x" "fd \<notin> pfd"
proof -
  have "fd \<in> dom S" using conns_okD(1) [OF assms(1)] assms(2) by blast
  then obtain x where x: "S fd = Some x" by blast
  have "fd \<notin> pfd" using conns_okD(6) [OF assms(1)] \<open>fd \<in> dom S\<close> by blast
  with x conns_okD(7) [OF assms] show thesis using that by blast
qed

lemma holders_same:
  assumes "T fd = Some pc" "holding pc' = holding pc \<or> S fd = Some None"
  shows "holders (T(fd \<mapsto> pc')) S = holders T S"
  using assms by (auto simp: holders_def split: if_splits)

lemma conns_ok_move:
  assumes "conns_ok T S live pssl socks pfd" "T fd = Some pc" "holding pc' = holding pc \<or> S fd = Some None"
    and "pc \<noteq> C_erase" "pc' \<noteq> C_erase" "\<And>x. S fd = Some x \<Longrightarrow> agrees pc x \<Longrightarrow> agrees pc' x"
  shows "conns_ok (T(fd \<mapsto> pc')) S live pssl socks pfd"
proof -
  have "open_socks (T(fd \<mapsto> pc')) = open_socks T"
    using assms(2,4,5) by (auto simp: open_socks_def split: if_splits)
  moreover have "dom (T(fd \<mapsto> pc')) = dom T" using assms(2) by auto
  ultimately show ?thesis
    using assms(1,2,6) holders_same [of T fd pc pc' S, OF assms(2,3)]
    by (auto simp: conns_ok_def split: if_splits)
qed

lemma conns_ok_holds:
  assumes "conns_ok T S live pssl socks pfd" "T fd = Some pc" "holding pc" "agrees pc x" "\<And>y. agrees pc y \<Longrightarrow> y = x"
  shows "S fd = Some x \<and> set_option x \<subseteq> live"
proof -
  obtain y where y: "S fd = Some y" and "agrees pc y" by (rule conns_ok_session [OF assms(1,2)])
  have "y = x" using \<open>agrees pc y\<close> by (rule assms(5))
  moreover have "s \<in> live" if "y = Some s" for s
  proof -
    have "(fd, s) \<in> holders T S" using y that assms(2,3) by (auto simp: holders_def)
    then have "s \<in> snd ` holders T S" by force
    then show ?thesis using conns_okD(2) [OF assms(1)] by blast
  qed
  ultimately show ?thesis using y by auto
qed

lemma conns_ok_free:
  assumes "conns_ok T S live pssl socks pfd" "T fd = Some (C_free s)"
  shows "conns_ok (T(fd \<mapsto> C_close)) S (live - {s}) pssl socks pfd"
proof -
  note ok = conns_okD [OF assms(1)]
  obtain y where "S fd = Some y" "agrees (C_free s) y" by (rule conns_ok_session [OF assms])
  then have S: "S fd = Some (Some s)" by (simp only: agrees.simps)
  then have h: "(fd, s) \<in> holders T S" using assms(2) by (auto simp: holders_def)
  have eq: "holders (T(fd \<mapsto> C_close)) S = holders T S - {(fd, s)}"
    using S by (auto simp: holders_def split: if_splits)
  have img: "snd ` (holders T S - {(fd, s)}) = snd ` holders T S - {s}"
    using inj_on_image_set_diff [OF ok(3), of "holders T S" "{(fd, s)}"] h by auto
  have "s \<in> snd ` holders T S" using h by force
  then have "s \<notin> pssl" using ok(4) by blast
  then have "live - {s} = snd ` holders (T(fd \<mapsto> C_close)) S \<union> pssl"
    unfolding eq img ok(2) by blast
  moreover have "pssl \<inter> snd ` holders (T(fd \<mapsto> C_close)) S = {}"
    unfolding eq img using ok(4) by blast
  moreover have "inj_on snd (holders (T(fd \<mapsto> C_close)) S)"
    unfolding eq using ok(3) by (rule inj_on_diff)
  moreover have "open_socks (T(fd \<mapsto> C_close)) = open_socks T"
    using assms(2) by (auto simp: open_socks_def split: if_splits)
  moreover have "dom (T(fd \<mapsto> C_close)) = dom T" using assms(2) by auto
  moreover have "agrees pc x" if "(T(fd \<mapsto> C_close)) gd = Some pc" "S gd = Some x" for gd pc x
    using that ok(7) [of gd pc x] by (cases "gd = fd") auto
  ultimately show ?thesis
    using ok(1,5,6) unfolding conns_ok_def by simp
qed

lemma conns_ok_close:
  assumes "conns_ok T S live pssl socks pfd" "T fd = Some C_close"
  shows "conns_ok (T(fd \<mapsto> C_erase)) S live pssl (socks - {fd}) pfd"
proof -
  note ok = conns_okD [OF assms(1)]
  have o: "open_socks (T(fd \<mapsto> C_erase)) = open_socks T - {fd}"
    by (auto simp: open_socks_def split: if_splits)
  obtain x where "fd \<notin> pfd" by (rule conns_ok_session [OF assms])
  then have "socks - {fd} = open_socks (T(fd \<mapsto> C_erase)) \<union> pfd" unfolding o ok(5) by blast
  moreover have "holders (T(fd \<mapsto> C_erase)) S = holders T S"
    using holders_same [of T fd C_close C_erase S] assms(2) by simp
  moreover have "agrees pc x" if "(T(fd \<mapsto> C_erase)) gd = Some pc" "S gd = Some x" for gd pc x
    using that ok(7) [of gd pc x] by (cases "gd = fd") auto
  moreover have "dom (T(fd \<mapsto> C_erase)) = dom T" using assms(2) by auto
  ultimately show ?thesis
    using ok(1-4,6) unfolding conns_ok_def by simp
qed

lemma conns_ok_erase:
  assumes "conns_ok T S live pssl socks pfd" "T fd = Some C_erase"
  shows "conns_ok (T(fd := None)) (S(fd := None)) live pssl socks pfd"
proof -
  have "holders (T(fd := None)) (S(fd := None)) = holders T S"
    using assms(2) by (auto simp: holders_def split: if_splits)
  moreover have "open_socks (T(fd := None)) = open_socks T"
    using assms(2) by (auto simp: open_socks_def split: if_splits)
  ultimately show ?thesis
    using assms(1) by (auto simp: conns_ok_def split: if_splits)
qed

lemma conns_ok_push:
  assumes "conns_ok T S live (set_option x) socks {fd}" "holding pc" "pc \<noteq> C_erase" "agrees pc x"
  shows "conns_ok (T(fd \<mapsto> pc)) (S(fd \<mapsto> x)) live {} socks {}"
proof -
  have new: "fd \<notin> dom S" "T fd = None" "S fd = None" using assms(1) by (auto simp: conns_ok_def)
  have h: "holders (T(fd \<mapsto> pc)) (S(fd \<mapsto> x)) = holders T S \<union> {fd} \<times> set_option x"
    using assms(2) new by (auto simp: holders_def split: if_splits)
  have "inj_on snd (holders T S \<union> {fd} \<times> set_option x)"
    using assms(1) by (cases x) (auto simp: conns_ok_def inj_on_def)
  moreover have "open_socks (T(fd \<mapsto> pc)) = open_socks T \<union> {fd}"
    using assms(3) by (auto simp: open_socks_def split: if_splits)
  ultimately show ?thesis
    using assms(1,4) by (auto simp: conns_ok_def h image_Un split: if_splits)
qed

section \<open>The invariant\<close>

definition listening :: "tcp_server \<Rightarrow> int set" where
  "listening v = (if m_serverSocket v \<ge> 0 then {m_serverSocket v} else {})"

text \<open>The listener makes TLS objects, and finds them in sessions, only when TLS is on.\<close>

definition tls_ok :: "world \<Rightarrow> bool" where
  "tls_ok w \<longleftrightarrow> m_useSsl (server w) \<or>
     ((\<forall>x \<in> ran (sess w). x = None) \<and> pend_ssl (listener w) = {} \<and> (\<forall>fd. listener w \<noteq> L_ssl fd))"

definition conns_inv :: "world \<Rightarrow> bool" where
  "conns_inv w \<longleftrightarrow> distinct (map fst (view w)) \<and> distinct (map socketFd (m_clientSessions (server w))) \<and>
     conns_ok (thr w) (sess w) (live_ssl w) (pend_ssl (listener w))
       (open_fds (server w) - listening (server w)) (pend_fd (listener w)) \<and>
     listening (server w) \<subseteq> open_fds (server w) \<and> tls_ok w \<and> \<not> misuse w \<and>
     (\<forall>fd \<in> dom (sess w) \<union> pend_fd (listener w). 0 \<le> fd)"

lemma map_of_snoc: "k \<notin> fst ` set xs \<Longrightarrow> map_of (xs @ [(k, v)]) = (map_of xs)(k \<mapsto> v)"
  by (induction xs) (auto simp: fun_eq_iff)

lemma map_of_mid:
  assumes "distinct (map fst (xs @ (k, v) # zs))"
  shows "map_of (xs @ (k, v) # zs) k = Some v"
    "map_of (xs @ (k, v') # zs) = (map_of (xs @ (k, v) # zs))(k \<mapsto> v')"
    "map_of (xs @ zs) = (map_of (xs @ (k, v) # zs))(k := None)"
proof -
  have k: "map_of xs k = None" "map_of zs k = None"
    using assms by (auto simp: map_of_eq_None_iff)
  then show "map_of (xs @ (k, v) # zs) k = Some v" by (simp add: map_add_def)
  show "map_of (xs @ (k, v') # zs) = (map_of (xs @ (k, v) # zs))(k \<mapsto> v')"
    "map_of (xs @ zs) = (map_of (xs @ (k, v) # zs))(k := None)"
    using k by (auto simp: fun_eq_iff map_add_def split: option.split)
qed

lemma view_mid:
  assumes "clients w = xs @ (fd, pc) # ys" "listener w' = listener w" "m_useSsl (server w') = m_useSsl (server w)"
    and "distinct (map fst (view w))"
  shows "thr w fd = Some pc"
    "clients w' = xs @ (fd, pc') # ys \<Longrightarrow> thr w' = (thr w)(fd \<mapsto> pc') \<and> distinct (map fst (view w'))"
    "clients w' = xs @ ys \<Longrightarrow> thr w' = (thr w)(fd := None) \<and> distinct (map fst (view w'))"
proof -
  define zs where "zs = ys @ (case listener w of L_spawn fd \<Rightarrow> [(fd, start_pc (server w))] | _ \<Rightarrow> [])"
  have v: "view w = xs @ (fd, pc) # zs" by (simp add: view_def assms(1) zs_def)
  note m = map_of_mid [OF assms(4) [unfolded v]]
  show "thr w fd = Some pc" unfolding thr_def v by (rule m(1))
  have s: "start_pc (server w') = start_pc (server w)" by (simp add: start_pc_def assms(3))
  show "thr w' = (thr w)(fd \<mapsto> pc') \<and> distinct (map fst (view w'))" if "clients w' = xs @ (fd, pc') # ys"
  proof -
    have v': "view w' = xs @ (fd, pc') # zs" using that by (simp add: view_def assms(2) s zs_def cong: listener_pc.case_cong)
    show ?thesis using m(2) [of pc'] assms(4) by (simp add: thr_def v v')
  qed
  show "thr w' = (thr w)(fd := None) \<and> distinct (map fst (view w'))" if "clients w' = xs @ ys"
  proof -
    have v': "view w' = xs @ zs" using that by (simp add: view_def assms(2) s zs_def cong: listener_pc.case_cong)
    show ?thesis using m(3) assms(4) by (simp add: thr_def v v')
  qed
qed

lemma view_same:
  "clients w' = clients w \<Longrightarrow> listener w' = listener w \<Longrightarrow> m_useSsl (server w') = m_useSsl (server w) \<Longrightarrow>
     view w' = view w"
  by (simp add: view_def start_pc_def cong: listener_pc.case_cong)

lemma session_ssl_sess: "session_ssl fd (m_clientSessions (server w)) = (case sess w fd of Some x \<Rightarrow> x | None \<Rightarrow> None)"
proof -
  have "session_ssl fd ss = (case map_of (map (\<lambda>s. (socketFd s, ssl s)) ss) fd of Some x \<Rightarrow> x | None \<Rightarrow> None)" for ss
    by (induction ss) auto
  then show ?thesis by (simp add: sess_def)
qed

lemma erase_session_set: "set (erase_session fd ss) \<subseteq> set ss"
  by (induction ss) auto

lemma erase_session_distinct:
  "distinct (map socketFd ss) \<Longrightarrow> distinct (map socketFd (erase_session fd ss))"
  using erase_session_set by (induction ss) fastforce+

lemma erase_session_map:
  "distinct (map socketFd ss) \<Longrightarrow> map_of (map (\<lambda>s. (socketFd s, ssl s)) (erase_session fd ss)) =
     (map_of (map (\<lambda>s. (socketFd s, ssl s)) ss))(fd := None)"
proof (induction ss)
  case Nil
  then show ?case by simp
next
  case (Cons s ss)
  have "map_of (map (\<lambda>s. (socketFd s, ssl s)) ss) fd = None" if "socketFd s = fd"
    using Cons.prems that by (auto simp: map_of_eq_None_iff)
  with Cons show ?case by (auto simp: fun_eq_iff)
qed

text \<open>A step of a client thread that keeps the object it holds, if it holds one.\<close>

lemma conns_inv_move:
  assumes inv: "conns_inv w" and c: "clients w = xs @ (fd, pc) # ys"
    and w': "w' = w\<lparr>clients := xs @ (fd, pc') # ys\<rparr>"
    and pc: "holding pc' = holding pc \<or> sess w fd = Some None" "pc \<noteq> C_erase" "pc' \<noteq> C_erase"
      "\<And>x. sess w fd = Some x \<Longrightarrow> agrees pc x \<Longrightarrow> agrees pc' x"
  shows "conns_inv w'"
proof -
  have d: "distinct (map fst (view w))" using inv by (simp add: conns_inv_def)
  have same: "listener w' = listener w" "server w' = server w" "sess w' = sess w"
    by (simp_all add: w' sess_def)
  note v = view_mid [OF c same(1) _ d]
  have t: "thr w fd = Some pc" "thr w' = (thr w)(fd \<mapsto> pc')" "distinct (map fst (view w'))"
    using v(1) v(2) [of pc'] same(2) w' by simp_all
  have "conns_ok (thr w') (sess w') (live_ssl w') (pend_ssl (listener w'))
       (open_fds (server w') - listening (server w')) (pend_fd (listener w'))"
    unfolding t(2) same using inv pc t(1) w'
    by (intro conns_ok_move [where pc = pc]) (simp_all add: conns_inv_def)
  with inv t(3) show ?thesis
    by (simp add: conns_inv_def same tls_ok_def) (simp add: w')
qed

lemma use_ssl_live:
  assumes "conns_inv w" "clients w = xs @ (fd, pc) # ys" "holding pc" "agrees pc x" "\<And>y. agrees pc y \<Longrightarrow> y = x"
  shows "use_ssl x w = w"
proof -
  have d: "distinct (map fst (view w))" using assms(1) by (simp add: conns_inv_def)
  have t: "thr w fd = Some pc" by (rule view_mid(1) [OF assms(2) refl refl d])
  have "conns_ok (thr w) (sess w) (live_ssl w) (pend_ssl (listener w))
       (open_fds (server w) - listening (server w)) (pend_fd (listener w))"
    using assms(1) by (simp add: conns_inv_def)
  from conns_ok_holds [OF this t assms(3-5)] have "set_option x \<subseteq> live_ssl w" by blast
  then show ?thesis by (simp add: use_ssl_def)
qed

lemma leave_pc_simps [simp]: "holding (leave_pc x) = (x \<noteq> None)" "leave_pc x \<noteq> C_erase"
  by (cases x; simp add: leave_pc_def)+

lemma conns_invD:
  assumes "conns_inv w"
  shows "distinct (map fst (view w))" "distinct (map socketFd (m_clientSessions (server w)))"
    "conns_ok (thr w) (sess w) (live_ssl w) (pend_ssl (listener w))
       (open_fds (server w) - listening (server w)) (pend_fd (listener w))"
    "listening (server w) \<subseteq> open_fds (server w)" "tls_ok w" "\<not> misuse w"
    "fd \<in> dom (sess w) \<Longrightarrow> 0 \<le> fd" "fd \<in> pend_fd (listener w) \<Longrightarrow> 0 \<le> fd"
  using assms by (auto simp: conns_inv_def)

lemma client_thread:
  assumes "conns_inv w" "clients w = xs @ (fd, pc) # ys"
  obtains x where "thr w fd = Some pc" "sess w fd = Some x" "agrees pc x"
proof -
  have t: "thr w fd = Some pc"
    by (rule view_mid(1) [OF assms(2) refl refl conns_invD(1) [OF assms(1)]])
  obtain x where "sess w fd = Some x" "agrees pc x"
    by (rule conns_ok_session [OF conns_invD(3) [OF assms(1)] t])
  with t show thesis by (rule that)
qed

lemma client_step_inv:
  assumes "client_step own w w'" "conns_inv w"
  shows "conns_inv w'"
  using assms(1)
proof (cases rule: client_step.cases)
  case (lookup xs fd ys x pc)
  obtain y where y: "sess w fd = Some y" by (rule client_thread [OF assms(2) lookup(3)])
  then have "x = y" using lookup(4) by (simp add: session_ssl_sess)
  then show ?thesis
    by (intro conns_inv_move [OF assms(2) lookup(3) lookup(2)]) (auto simp: lookup(5) y split: option.splits)
next
  case (handshake xs fd s ys)
  have "use_ssl (Some s) w = w" by (rule use_ssl_live [OF assms(2) handshake(3)]) simp_all
  then show ?thesis
    by (intro conns_inv_move [OF assms(2) handshake(3), where pc' = "C_test (Some s)"]) (simp_all add: handshake(2))
next
  case (handshake_failed xs fd s ys)
  have "use_ssl (Some s) w = w" by (rule use_ssl_live [OF assms(2) handshake_failed(3)]) simp_all
  then show ?thesis
    by (intro conns_inv_move [OF assms(2) handshake_failed(3), where pc' = "C_free s"])
      (simp_all add: handshake_failed(2))
next
  case (test xs fd x ys)
  obtain y where y: "sess w fd = Some y" "agrees (C_test x) y" by (rule client_thread [OF assms(2) test(3)])
  show ?thesis
    by (rule conns_inv_move [OF assms(2) test(3,2)]) (use y in \<open>auto simp: leave_pc_def split: option.split\<close>)
next
  case (read xs fd x ys)
  have "use_ssl x w = w" by (rule use_ssl_live [OF assms(2) read(3)]) simp_all
  then show ?thesis
    by (intro conns_inv_move [OF assms(2) read(3), where pc' = "C_test x"]) (simp_all add: read(2))
next
  case (read_failed xs fd x ys)
  obtain y where y: "sess w fd = Some y" "agrees (C_read x) y" by (rule client_thread [OF assms(2) read_failed(3)])
  have "use_ssl x w = w" by (rule use_ssl_live [OF assms(2) read_failed(3)]) simp_all
  then have w': "w' = w\<lparr>clients := xs @ (fd, leave_pc x) # ys\<rparr>" by (simp add: read_failed(2))
  show ?thesis
    by (rule conns_inv_move [OF assms(2) read_failed(3) w'])
      (use y in \<open>auto simp: leave_pc_def split: option.split\<close>)
next
  case (free xs fd s ys)
  have "use_ssl (Some s) w = w" by (rule use_ssl_live [OF assms(2) free(3)]) simp_all
  then have w': "w' = w\<lparr>live_ssl := live_ssl w - {s}, clients := xs @ (fd, C_close) # ys\<rparr>" by (simp add: free(2))
  have t: "thr w fd = Some (C_free s)" by (rule client_thread [OF assms(2) free(3)])
  have same: "listener w' = listener w" "server w' = server w" "sess w' = sess w"
    by (simp_all add: w' sess_def)
  have "thr w' = (thr w)(fd \<mapsto> C_close) \<and> distinct (map fst (view w'))"
    using view_mid(2) [OF free(3) same(1) _ conns_invD(1) [OF assms(2)]] w' by simp
  moreover have "conns_ok ((thr w)(fd \<mapsto> C_close)) (sess w) (live_ssl w - {s}) (pend_ssl (listener w))
       (open_fds (server w) - listening (server w)) (pend_fd (listener w))"
    by (rule conns_ok_free [OF conns_invD(3) [OF assms(2)] t])
  ultimately show ?thesis
    using assms(2) by (simp add: conns_inv_def same tls_ok_def) (simp add: w')
next
  case (close xs fd ys)
  have t: "thr w fd = Some C_close" by (rule client_thread [OF assms(2) close(3)])
  have same: "listener w' = listener w" "sess w' = sess w" "live_ssl w' = live_ssl w" "misuse w' = misuse w"
    "m_useSsl (server w') = m_useSsl (server w)" "listening (server w') = listening (server w)"
    "m_clientSessions (server w') = m_clientSessions (server w)" "open_fds (server w') = open_fds (server w) - {fd}"
    by (simp_all add: close(2) sess_def listening_def)
  have "thr w' = (thr w)(fd \<mapsto> C_erase) \<and> distinct (map fst (view w'))"
    using view_mid(2) [OF close(3) same(1,5) conns_invD(1) [OF assms(2)]] close(2) by simp
  moreover have "conns_ok ((thr w)(fd \<mapsto> C_erase)) (sess w) (live_ssl w) (pend_ssl (listener w))
       ((open_fds (server w) - listening (server w)) - {fd}) (pend_fd (listener w))"
    by (rule conns_ok_close [OF conns_invD(3) [OF assms(2)] t])
  moreover have "fd \<in> open_fds (server w) - listening (server w)"
    using conns_okD(5) [OF conns_invD(3) [OF assms(2)]] t by (auto simp: open_socks_def)
  moreover have "(open_fds (server w) - {fd}) - listening (server w) = (open_fds (server w) - listening (server w)) - {fd}"
    by blast
  ultimately show ?thesis
    using assms(2) by (auto simp: conns_inv_def same tls_ok_def)
next
  case (erase xs fd ys)
  have t: "thr w fd = Some C_erase" by (rule client_thread [OF assms(2) erase(3)])
  note d = conns_invD(2) [OF assms(2)]
  have same: "listener w' = listener w" "live_ssl w' = live_ssl w" "misuse w' = misuse w"
    "m_useSsl (server w') = m_useSsl (server w)" "listening (server w') = listening (server w)"
    "open_fds (server w') = open_fds (server w)"
    "m_clientSessions (server w') = erase_session fd (m_clientSessions (server w))"
    by (simp_all add: erase(2) listening_def)
  have s: "sess w' = (sess w)(fd := None)" using erase_session_map [OF d] by (simp add: sess_def same)
  have v: "thr w' = (thr w)(fd := None) \<and> distinct (map fst (view w'))"
    using view_mid(3) [OF erase(3) same(1,4) conns_invD(1) [OF assms(2)]] erase(2) by simp
  have "conns_ok (thr w') (sess w') (live_ssl w') (pend_ssl (listener w'))
       (open_fds (server w') - listening (server w')) (pend_fd (listener w'))"
    unfolding s v [THEN conjunct1] same by (rule conns_ok_erase [OF conns_invD(3) [OF assms(2)] t])
  moreover have "ran (sess w') \<subseteq> ran (sess w)"
    unfolding s by (auto simp: ran_def split: if_splits)
  moreover have "\<forall>gd \<in> dom (sess w') \<union> pend_fd (listener w). 0 \<le> gd"
    unfolding s using conns_invD(7,8) [OF assms(2)] by (auto split: if_splits)
  ultimately show ?thesis
    using v assms(2) erase_session_distinct [OF d, of fd]
    by (auto simp: conns_inv_def tls_ok_def same)
qed

lemma start_pc_simps [simp]:
  "holding (start_pc v)" "start_pc v \<noteq> C_erase" "agrees (start_pc v) x = (m_useSsl v \<or> x = None)"
  by (simp_all add: start_pc_def)

lemma listener_step_inv:
  assumes "listener_step False own w w'" "conns_inv w"
  shows "conns_inv w'"
  using assms(1)
proof (cases rule: listener_step.cases)
  case test
  then have "view w' = view w" "sess w' = sess w" by (simp_all add: view_def sess_def)
  with test assms(2) show ?thesis by (simp add: conns_inv_def thr_def tls_ok_def)
next
  case accept_failed
  then have "view w' = view w" "sess w' = sess w" by (simp_all add: view_def sess_def)
  with accept_failed assms(2) show ?thesis by (simp add: conns_inv_def thr_def tls_ok_def)
next
  case (accept fd)
  have v: "view w' = view w" "sess w' = sess w" using accept(2,3) by (simp_all add: view_def sess_def)
  have l: "listening (server w') = listening (server w)" by (simp add: accept(2) listening_def)
  have fresh: "fd \<notin> dom (sess w)" using accept(7) by (auto simp: sess_def dom_map_of_conv_image_fst image_image)
  have "fd \<notin> listening (server w)" using accept(6) conns_invD(4) [OF assms(2)] by blast
  then have "open_fds (server w') - listening (server w') = insert fd (open_fds (server w) - listening (server w))"
    unfolding l by (auto simp: accept(2))
  moreover have pend: "pend_fd (listener w') = {fd}" "pend_ssl (listener w') = {}"
    and same: "live_ssl w' = live_ssl w" "misuse w' = misuse w" "m_useSsl (server w') = m_useSsl (server w)"
      "m_clientSessions (server w') = m_clientSessions (server w)"
      "open_fds (server w') = insert fd (open_fds (server w))"
    by (simp_all add: accept(2))
  moreover have t: "thr w' = thr w" by (simp add: thr_def v)
  ultimately have "conns_ok (thr w') (sess w') (live_ssl w') (pend_ssl (listener w'))
       (open_fds (server w') - listening (server w')) (pend_fd (listener w'))"
    using conns_invD(3) [OF assms(2)] fresh accept(3) by (simp add: conns_ok_def v(2))
  moreover have "tls_ok w'"
    using conns_invD(5) [OF assms(2)] by (auto simp: tls_ok_def v(2) pend same(3)) (auto simp: accept(2))
  ultimately show ?thesis
    using conns_invD(1,2,4,6,7) [OF assms(2)] accept(5) by (auto simp: conns_inv_def v l pend same)
next
  case (new_ssl fd s)
  have v: "view w' = view w" "sess w' = sess w" using new_ssl(2,3) by (simp_all add: view_def sess_def)
  have same: "live_ssl w' = insert s (live_ssl w)" "misuse w' = misuse w" "server w' = server w"
    "pend_fd (listener w') = {fd}" "pend_ssl (listener w') = {s}"
    by (simp_all add: new_ssl(2))
  have t: "thr w' = thr w" by (simp add: thr_def v)
  note ok = conns_invD(3) [OF assms(2), unfolded new_ssl(3), simplified]
  have "conns_ok (thr w') (sess w') (live_ssl w') (pend_ssl (listener w'))
       (open_fds (server w') - listening (server w')) (pend_fd (listener w'))"
    using ok new_ssl(4) by (auto simp: conns_ok_def t v(2) same)
  moreover have "m_useSsl (server w)" using conns_invD(5) [OF assms(2)] new_ssl(3) by (auto simp: tls_ok_def)
  ultimately show ?thesis
    using conns_invD(1,2,4,6,7,8) [OF assms(2)] new_ssl(3) by (auto simp: conns_inv_def tls_ok_def v same)
next
  case (push fd x)
  have same: "live_ssl w' = live_ssl w" "misuse w' = misuse w" "m_useSsl (server w') = m_useSsl (server w)"
    "listening (server w') = listening (server w)" "open_fds (server w') = open_fds (server w)"
    "pend_ssl (listener w') = {}" "pend_fd (listener w') = {}"
    "m_clientSessions (server w') = m_clientSessions (server w) @ [\<lparr>socketFd = fd, ssl = x\<rparr>]"
    and lst: "listener w' = L_spawn fd"
    by (simp_all add: push(2) push_session_def listening_def)
  note ok = conns_invD(3) [OF assms(2), unfolded push(3), simplified]
  have fd: "fd \<notin> dom (sess w)" using conns_okD(6) [OF ok] by blast
  then have T: "fd \<notin> dom (thr w)" using conns_okD(1) [OF ok] by blast
  have vw: "view w = clients w" "view w' = clients w @ [(fd, start_pc (server w))]"
    by (simp_all add: view_def push(2,3) start_pc_def push_session_def)
  have new: "fd \<notin> fst ` set (clients w)" "fd \<notin> socketFd ` set (m_clientSessions (server w))"
    using T fd by (auto simp: thr_def vw sess_def dom_map_of_conv_image_fst image_image)
  have thr': "thr w' = (thr w)(fd \<mapsto> start_pc (server w))"
    using new(1) by (simp add: thr_def vw map_of_snoc del: map_of_append)
  have sess': "sess w' = (sess w)(fd \<mapsto> x)"
    using new(2) by (simp add: sess_def same map_of_snoc image_image del: map_of_append)
  have x: "m_useSsl (server w) \<or> x = None"
    using conns_invD(5) [OF assms(2)] by (auto simp: tls_ok_def push(3))
  have "conns_ok (thr w') (sess w') (live_ssl w') (pend_ssl (listener w'))
       (open_fds (server w') - listening (server w')) (pend_fd (listener w'))"
    unfolding thr' sess' same using ok x by (intro conns_ok_push) simp_all
  moreover have "distinct (map fst (view w'))" using conns_invD(1) [OF assms(2)] new(1) by (simp add: vw)
  moreover have "distinct (map socketFd (m_clientSessions (server w')))"
    using conns_invD(2) [OF assms(2)] new(2) by (simp add: same)
  moreover have "tls_ok w'"
    using conns_invD(5) [OF assms(2)] x by (auto simp: tls_ok_def same sess' ran_def lst split: if_splits)
  moreover have "\<forall>gd \<in> dom (sess w') \<union> pend_fd (listener w'). 0 \<le> gd"
    unfolding sess' same using conns_invD(7,8) [OF assms(2)] push(3) by (auto split: if_splits)
  ultimately show ?thesis
    using conns_invD(4,6) [OF assms(2)] by (simp add: conns_inv_def same)
next
  case (spawn fd)
  then have "view w' = view w" "sess w' = sess w" by (simp_all add: view_def sess_def)
  with spawn assms(2) show ?thesis by (simp add: conns_inv_def thr_def tls_ok_def)
qed

section \<open>Stopping\<close>

text \<open>How far stop() is, and what then holds of the rest.\<close>

definition phase_inv :: "world \<Rightarrow> bool" where
  "phase_inv w \<longleftrightarrow>
     (srv_running (server w) \<longleftrightarrow> stopper w = S_idle) \<and>
     (stopper w \<in> {S_idle, S_close, S_join} \<longrightarrow> m_listenerThread (server w)) \<and>
     (stopper w \<in> {S_shutdown, S_wait, S_free, S_end} \<longrightarrow> listener w = L_end) \<and>
     (stopper w \<notin> {S_idle, S_close} \<longrightarrow> m_serverSocket (server w) < 0) \<and>
     (stopper w \<in> {S_free, S_end} \<longrightarrow> m_clientSessions (server w) = []) \<and>
     live_ctx (server w) = set_option (m_sslCtx (server w)) \<and>
     (stopper w = S_end \<longrightarrow> m_sslCtx (server w) = None) \<and>
     (stopper w = S_wait \<longrightarrow> socketFd ` set (m_clientSessions (server w)) \<subseteq> shut w)"

lemma listener_step_phase:
  assumes "listener_step reuse own w w'" "phase_inv w"
  shows "phase_inv w'"
  using assms by (cases rule: listener_step.cases) (auto simp: phase_inv_def push_session_def)

lemma erase_session_mem: "x \<in> set (erase_session fd ss) \<Longrightarrow> x \<in> set ss"
  using erase_session_set by fast

lemma phase_inv_keep:
  assumes "phase_inv w" "stopper w' = stopper w" "listener w' = listener w" "shut w' = shut w"
    and "srv_running (server w') = srv_running (server w)" "m_listenerThread (server w') = m_listenerThread (server w)"
    "m_serverSocket (server w') = m_serverSocket (server w)" "live_ctx (server w') = live_ctx (server w)"
    "m_sslCtx (server w') = m_sslCtx (server w)"
    "set (m_clientSessions (server w')) \<subseteq> set (m_clientSessions (server w))"
  shows "phase_inv w'"
proof -
  have "m_clientSessions (server w) = [] \<Longrightarrow> m_clientSessions (server w') = []"
    using assms(10) by simp
  moreover have "socketFd ` set (m_clientSessions (server w')) \<subseteq> socketFd ` set (m_clientSessions (server w))"
    using assms(10) by (rule image_mono)
  ultimately show ?thesis using assms(1) unfolding phase_inv_def assms(2-9) by blast
qed

lemma client_step_phase:
  assumes "client_step own w w'" "phase_inv w"
  shows "phase_inv w'"
  using assms(1)
  by (cases rule: client_step.cases)
    (rule phase_inv_keep [OF assms(2)]; simp add: use_ssl_def erase_session_set)+

lemma conns_inv_keep:
  assumes "conns_inv w" "clients w' = clients w" "listener w' = listener w" "live_ssl w' = live_ssl w"
    and "misuse w' = misuse w" "m_useSsl (server w') = m_useSsl (server w)"
    "m_clientSessions (server w') = m_clientSessions (server w)"
    "open_fds (server w') - listening (server w') = open_fds (server w) - listening (server w)"
    "listening (server w') \<subseteq> open_fds (server w')"
  shows "conns_inv w'"
proof -
  have "view w' = view w" by (rule view_same [OF assms(2,3,6)])
  moreover have "sess w' = sess w" by (simp add: sess_def assms(7))
  ultimately show ?thesis
    using assms(1,9) by (simp add: conns_inv_def thr_def tls_ok_def assms(3-8))
qed

lemma stop_step_conns:
  assumes "stop_step w w'" "conns_inv w"
  shows "conns_inv w'"
proof -
  note l = conns_invD(4) [OF assms(2)]
  show ?thesis
    using assms(1)
  proof (cases rule: stop_step.cases)
    case close
    show ?thesis
      by (rule conns_inv_keep [OF assms(2)])
        (use l in \<open>auto simp: close(1) stop_close_def close_listener_def listening_def\<close>)
  next
    case free
    show ?thesis
      by (rule conns_inv_keep [OF assms(2)])
        (use l in \<open>auto simp: free(1) stop_free_def drop_ctx_def free_ctx_def listening_def split: option.split\<close>)
  next
    case flag
    show ?thesis
      by (rule conns_inv_keep [OF assms(2)]) (use l in \<open>auto simp: flag(1) stop_flag_def listening_def\<close>)
  next
    case join
    show ?thesis
      by (rule conns_inv_keep [OF assms(2)]) (use l in \<open>auto simp: join(1) stop_join_def listening_def\<close>)
  next
    case shutdown
    show ?thesis
      by (rule conns_inv_keep [OF assms(2)]) (use l in \<open>auto simp: shutdown(1) stop_shutdown_def\<close>)
  next
    case empty
    show ?thesis
      by (rule conns_inv_keep [OF assms(2)]) (use l in \<open>auto simp: empty(1)\<close>)
  qed
qed

lemma stop_step_phase:
  assumes "stop_step w w'" "phase_inv w" "conns_inv w"
  shows "phase_inv w'"
  using assms(1)
proof (cases rule: stop_step.cases)
  case shutdown
  have "0 \<le> fd" if "fd \<in> socketFd ` set (m_clientSessions (server w))" for fd
    using conns_invD(7) [OF assms(3), of fd] that by (auto simp: sess_def dom_map_of_conv_image_fst image_image)
  with assms(2) shutdown show ?thesis by (auto simp: phase_inv_def stop_shutdown_def)
qed (use assms(2) in \<open>auto simp: phase_inv_def stop_flag_def stop_close_def close_listener_def stop_join_def
      stop_free_def drop_ctx_def free_ctx_def split: option.split\<close>)

definition world_inv :: "world \<Rightarrow> bool" where
  "world_inv w \<longleftrightarrow> conns_inv w \<and> phase_inv w"

lemma step_inv:
  assumes "step False own w w'" "world_inv w"
  shows "world_inv w'"
  using assms(1)
proof (cases rule: step.cases)
  case listener
  with assms(2) show ?thesis
    using listener_step_inv listener_step_phase by (auto simp: world_inv_def)
next
  case client
  with assms(2) show ?thesis
    using client_step_inv client_step_phase by (auto simp: world_inv_def)
next
  case stopper
  with assms(2) show ?thesis
    using stop_step_conns stop_step_phase by (auto simp: world_inv_def)
qed

lemma steps_inv: "(some_step False)\<^sup>*\<^sup>* w w' \<Longrightarrow> world_inv w \<Longrightarrow> world_inv w'"
  by (induction rule: rtranclp_induct) (auto simp: some_step_def intro: step_inv)

text \<open>A server that start() has started.\<close>

definition started :: "tcp_server \<Rightarrow> bool" where
  "started v \<longleftrightarrow> srv_running v \<and> m_listenerThread v \<and> 0 \<le> m_serverSocket v \<and>
     open_fds v = {m_serverSocket v} \<and> m_clientSessions v = [] \<and> live_ctx v = set_option (m_sslCtx v)"

lemma init_world_inv: "started v \<Longrightarrow> world_inv (init_world v)"
  by (auto simp: world_inv_def conns_inv_def phase_inv_def started_def init_world_def view_def thr_def sess_def
      conns_ok_def holders_def open_socks_def listening_def tls_ok_def inj_on_def)

section \<open>Progress\<close>

text \<open>
  How far a thread is from its end once m_running is false; every step takes one thread
  further.
\<close>

fun listener_left :: "listener_pc \<Rightarrow> nat" where
  "listener_left L_accept = 12"
| "listener_left (L_ssl _) = 11"
| "listener_left (L_push _ _) = 10"
| "listener_left (L_spawn _) = 9"
| "listener_left L_test = 1"
| "listener_left L_end = 0"

fun client_left :: "client_pc \<Rightarrow> nat" where
  "client_left C_lookup = 7"
| "client_left (C_handshake _) = 6"
| "client_left (C_read _) = 5"
| "client_left (C_test _) = 4"
| "client_left (C_free _) = 3"
| "client_left C_close = 2"
| "client_left C_erase = 1"

fun stop_left :: "stop_pc \<Rightarrow> nat" where
  "stop_left S_idle = 6"
| "stop_left S_close = 5"
| "stop_left S_join = 4"
| "stop_left S_shutdown = 3"
| "stop_left S_wait = 2"
| "stop_left S_free = 1"
| "stop_left S_end = 0"

definition steps_left :: "world \<Rightarrow> nat" where
  "steps_left w = listener_left (listener w) + sum_list (map (client_left \<circ> snd) (clients w)) + stop_left (stopper w)"

lemma client_left_pcs [simp]:
  "client_left (leave_pc x) \<le> 3" "client_left (start_pc v) \<le> 7"
  by (auto simp: leave_pc_def start_pc_def split: option.split)

lemma step_shrinks:
  assumes "step reuse own w w'" "\<not> srv_running (server w)"
  shows "steps_left w' < steps_left w \<and> \<not> srv_running (server w')"
  using assms(1)
proof (cases rule: step.cases)
  case listener
  then show ?thesis
  proof (cases rule: listener_step.cases)
    case (spawn fd)
    with le_imp_less_Suc [OF client_left_pcs(2) [of "server w"]] assms(2) show ?thesis by (simp add: steps_left_def)
  qed (use assms(2) in \<open>simp_all add: steps_left_def push_session_def\<close>)
next
  case client
  then show ?thesis
  proof (cases rule: client_step.cases)
    case (lookup xs fd ys x pc)
    with assms(2) show ?thesis by (auto simp: steps_left_def split: option.split)
  next
    case (test xs fd x ys)
    with le_imp_less_Suc [OF client_left_pcs(1) [of x]] assms(2) show ?thesis by (simp add: steps_left_def)
  next
    case (read_failed xs fd x ys)
    with le_imp_less_Suc [OF client_left_pcs(1) [of x]] assms(2) show ?thesis by (simp add: steps_left_def use_ssl_def)
  qed (use assms(2) in \<open>simp_all add: steps_left_def use_ssl_def\<close>)
next
  case stopper
  from stopper(1) assms(2) show ?thesis
    by (cases rule: stop_step.cases)
      (simp_all add: steps_left_def stop_flag_def stop_close_def close_listener_def stop_join_def stop_shutdown_def
        stop_free_def drop_ctx_def free_ctx_def split: option.split)
qed

text \<open>Some thread can always go on without its peer.\<close>

lemma client_goes_on:
  assumes "world_inv w" "stopper w = S_wait" "(fd, pc) \<in> set (clients w)"
  shows "\<exists>w'. client_step True w w'"
proof -
  obtain xs ys where c: "clients w = xs @ (fd, pc) # ys" using assms(3) by (meson split_list)
  have inv: "conns_inv w" "phase_inv w" using assms(1) by (simp_all add: world_inv_def)
  obtain x where "sess w fd = Some x" by (rule client_thread [OF inv(1) c])
  then have "fd \<in> socketFd ` set (m_clientSessions (server w))"
    by (force simp: sess_def dest: map_of_SomeD)
  then have shut: "fd \<in> shut w" using inv(2) assms(2) by (auto simp: phase_inv_def)
  show ?thesis
  proof (cases pc)
    case C_lookup
    from client_step.lookup [OF c [unfolded C_lookup] refl refl] show ?thesis by (rule exI)
  next
    case (C_handshake s)
    then show ?thesis using client_step.handshake_failed [OF c [unfolded C_handshake]] shut by auto
  next
    case (C_test x)
    from client_step.test [OF c [unfolded C_test]] show ?thesis by (rule exI)
  next
    case (C_read x)
    then show ?thesis using client_step.read_failed [OF c [unfolded C_read]] shut by auto
  next
    case (C_free s)
    from client_step.free [OF c [unfolded C_free]] show ?thesis by (rule exI)
  next
    case C_close
    from client_step.close [OF c [unfolded C_close]] show ?thesis by (rule exI)
  next
    case C_erase
    from client_step.erase [OF c [unfolded C_erase]] show ?thesis by (rule exI)
  qed
qed

lemma live_ssl_finite:
  assumes "conns_inv w"
  shows "finite (live_ssl w)"
proof -
  have "(\<lambda>s. Some (Some s)) ` snd ` holders (thr w) (sess w) \<subseteq> range (sess w)"
    by (auto simp: holders_def) (metis rangeI)
  then have "finite ((\<lambda>s. Some (Some s)) ` snd ` holders (thr w) (sess w))"
    by (rule finite_subset) (simp add: sess_def finite_range_map_of)
  then have "finite (snd ` holders (thr w) (sess w))"
    by (rule finite_imageD) (simp add: inj_on_def)
  moreover have "finite (pend_ssl l)" for l by (cases l) simp_all
  ultimately show ?thesis unfolding conns_okD(2) [OF conns_invD(3) [OF assms]] by blast
qed

lemma listener_goes_on:
  assumes "conns_inv w" "listener w \<noteq> L_end" "m_serverSocket (server w) < 0"
  shows "\<exists>w'. listener_step reuse True w w'"
proof (cases "listener w")
  case (L_ssl fd)
  obtain s where "s \<notin> live_ssl w" using ex_new_if_finite [OF infinite_UNIV_nat live_ssl_finite [OF assms(1)]] by blast
  from listener_step.new_ssl [OF L_ssl this] show ?thesis by (rule exI)
next
  case L_accept
  from listener_step.accept_failed [OF L_accept, of reuse] assms(3) show ?thesis by (simp only: simp_thms) (rule exI)
next
  case L_test
  from listener_step.test [OF L_test] show ?thesis by (rule exI)
next
  case (L_push fd x)
  from listener_step.push [OF L_push] show ?thesis by (rule exI)
next
  case (L_spawn fd)
  from listener_step.spawn [OF L_spawn] show ?thesis by (rule exI)
qed (use assms(2) in simp)

lemma stop_goes_on:
  assumes "world_inv w" "stopper w \<noteq> S_end"
  shows "\<exists>w'. step reuse True w w'"
proof -
  have inv: "conns_inv w" "phase_inv w" using assms(1) by (simp_all add: world_inv_def)
  have stop: ?thesis if "\<exists>w'. stop_step w w'"
    using that by (elim exE) (rule exI, rule step.stopper, simp_all)
  show ?thesis
  proof (cases "stopper w")
    case S_idle
    show ?thesis by (rule stop [OF exI, OF stop_step.flag [OF S_idle]])
  next
    case S_close
    show ?thesis by (rule stop [OF exI, OF stop_step.close [OF S_close]])
  next
    case S_join
    then have "m_serverSocket (server w) < 0" using inv(2) by (simp add: phase_inv_def)
    show ?thesis
    proof (cases "listener w = L_end")
      case True
      show ?thesis by (rule stop [OF exI, OF stop_step.join [OF S_join disjI2 [OF True]]])
    next
      case False
      obtain w' where "listener_step reuse True w w'"
        using listener_goes_on [OF inv(1) False \<open>m_serverSocket (server w) < 0\<close>, of reuse] by (elim exE)
      then show ?thesis by (intro exI) (rule step.listener)
    qed
  next
    case S_shutdown
    show ?thesis by (rule stop [OF exI, OF stop_step.shutdown [OF S_shutdown]])
  next
    case S_wait
    then have l: "listener w = L_end" using inv(2) by (simp add: phase_inv_def)
    show ?thesis
    proof (cases "clients w")
      case Nil
      then have "dom (thr w) = {}" by (simp add: thr_def view_def l)
      then have "dom (sess w) = {}" using conns_okD(1) [OF conns_invD(3) [OF inv(1)]] by simp
      then have "m_clientSessions (server w) = []"
        by (simp add: sess_def dom_map_of_conv_image_fst)
      show ?thesis by (rule stop [OF exI, OF stop_step.empty [OF S_wait \<open>m_clientSessions (server w) = []\<close>]])
    next
      case (Cons c cs)
      then have "(fst c, snd c) \<in> set (clients w)" by simp
      from client_goes_on [OF assms(1) S_wait this] obtain w' where "client_step True w w'" by (elim exE)
      then show ?thesis by (intro exI) (rule step.client)
    qed
  next
    case S_free
    show ?thesis by (rule stop [OF exI, OF stop_step.free [OF S_free]])
  qed (use assms(2) in simp)
qed

section \<open>Properties\<close>

text \<open>The server start() leaves is one the threads can start from.\<close>

lemma start_started:
  assumes "env_fresh env (TcpServer p tls mtls ca crt key)" "start env (TcpServer p tls mtls ca crt key) = (True, v)"
  shows "started v"
proof -
  let ?v = "TcpServer p tls mtls ca crt key"
  have init: "\<not> srv_running ?v" "m_sslCtx ?v = None" "live_ctx ?v = {}" "open_fds ?v = {}" "m_clientSessions ?v = []"
    by (simp_all add: TcpServer_def)
  obtain v1 where v1: "start_tls env ?v = (True, v1)" "start_socket env v1 = (True, v)"
    using assms(2) init(1) by (cases "start_tls env ?v") (auto simp: start_def split: if_splits)
  have t: "live_ctx v1 = set_option (m_sslCtx v1)" "open_fds v1 = {}" "m_clientSessions v1 = []"
    using assms(1) by (cases rule: start_tls_cases; use v1(1) init in \<open>auto simp: with_ctx_fields\<close>)+
  from start_socket_ok [of env v1] v1(2) t show ?thesis by (simp add: started_def)
qed

definition demo_server_env :: server_env where
  "demo_server_env = \<lparr>ssl_ctx_new = Some 1, use_certificate_file = (\<lambda>_ _. 1), use_private_key_file = (\<lambda>_ _. 1),
     load_verify_locations = (\<lambda>_ _. 1), new_socket = 3, set_reuse_addr = (\<lambda>_. 0), bind_port = (\<lambda>_ _. 0),
     listen_on = (\<lambda>_ _. 0)\<rparr>"

definition demo_server :: tcp_server where
  "demo_server = snd (start demo_server_env (TcpServer 9000 True False [] ''c'' ''k''))"

lemma demo_server_eq:
  "demo_server = \<lparr>m_port = 9000, srv_running = True, m_serverSocket = 3, m_listenerThread = True,
     m_useSsl = True, m_useMtls = False, m_caPath = [], m_certPath = ''c'', m_keyPath = ''k'',
     m_sslCtx = Some 1, m_clientSessions = [], live_ctx = {1}, verifying = {}, open_fds = {3}\<rparr>"
  by (simp add: demo_server_def demo_server_env_def start_def start_tls_def start_socket_def TcpServer_def)

lemma demo_server_started: "started demo_server"
  by (simp add: started_def demo_server_eq)

text \<open>
  C10: Threads that share the server keep to their own: as long as the kernel gives no new
  client a descriptor that is still in the list of sessions, no thread ever uses or frees a
  TLS object that is not alive, in any interleaving with the listener and with stop(); and no
  TLS object is lost, each one alive belongs to one session or is about to.
\<close>

theorem threads_keep_to_their_own:
  assumes "started v" "(some_step False)\<^sup>*\<^sup>* (init_world v) w"
  shows "\<not> misuse w \<and> inj_on snd (holders (thr w) (sess w)) \<and>
    live_ssl w = snd ` holders (thr w) (sess w) \<union> pend_ssl (listener w)"
proof -
  have "conns_inv w" using steps_inv [OF assms(2) init_world_inv [OF assms(1)]] by (simp add: world_inv_def)
  from conns_okD [OF conns_invD(3) [OF this]] conns_invD(6) [OF this] show ?thesis by simp
qed

text \<open>Steps of the examples.\<close>

lemma some_stepI:
  "listener_step reuse own w w' \<Longrightarrow> some_step reuse w w'" "client_step own w w' \<Longrightarrow> some_step reuse w w'"
  "stop_step w w' \<Longrightarrow> some_step reuse w w'"
  by (auto simp: some_step_def intro: step.intros)

lemma then_step: "w1 = w2 \<Longrightarrow> R w w1 \<Longrightarrow> R\<^sup>*\<^sup>* w2 w' \<Longrightarrow> R\<^sup>*\<^sup>* w w'"
  by (simp add: converse_rtranclp_into_rtranclp)

theorem threads_keep_to_their_own_witness:
  "\<not> misuse ((init_world demo_server)\<lparr>listener := L_accept\<rparr>)"
proof -
  have "listener_step False True (init_world demo_server) ((init_world demo_server)\<lparr>listener := L_accept\<rparr>)"
    using listener_step.test [of "init_world demo_server" False] by (simp add: init_world_def demo_server_eq)
  then have "some_step False (init_world demo_server) ((init_world demo_server)\<lparr>listener := L_accept\<rparr>)"
    unfolding some_step_def by (intro exI) (rule step.listener)
  from threads_keep_to_their_own [OF demo_server_started r_into_rtranclp [where r = "some_step False", OF this]]
  show ?thesis by blast
qed

lemma ended_world:
  assumes "world_inv w" "stopper w = S_end"
  shows "listener w = L_end \<and> clients w = [] \<and> m_clientSessions (server w) = [] \<and> live_ssl w = {} \<and>
    open_fds (server w) = {} \<and> live_ctx (server w) = {} \<and> m_sslCtx (server w) = None \<and> \<not> srv_running (server w)"
proof -
  have inv: "conns_inv w" "phase_inv w" using assms(1) by (simp_all add: world_inv_def)
  have p: "listener w = L_end" "m_clientSessions (server w) = []" "m_serverSocket (server w) < 0"
    "m_sslCtx (server w) = None" "live_ctx (server w) = {}" "\<not> srv_running (server w)"
    using inv(2) assms(2) by (simp_all add: phase_inv_def)
  note ok = conns_okD [OF conns_invD(3) [OF inv(1)]]
  have s: "sess w = Map.empty" by (simp add: sess_def p(2))
  then have "dom (thr w) = {}" using ok(1) by simp
  then have t: "thr w = Map.empty" "clients w = []"
    by (simp_all add: thr_def view_def p(1) dom_map_of_conv_image_fst)
  have "live_ssl w = {}" using ok(2) by (simp add: p(1) holders_def t(1))
  moreover have "open_fds (server w) = {}"
    using ok(5) p(3) by (simp add: p(1) open_socks_def t(1) listening_def)
  ultimately show ?thesis using p t(2) by simp
qed


text \<open>The run of stop() on a server without clients.\<close>

definition demo_stopped :: world where
  "demo_stopped = \<lparr>server = demo_server\<lparr>srv_running := False, m_serverSocket := - 1, m_listenerThread := False,
     m_sslCtx := None, live_ctx := {}, open_fds := {}\<rparr>, listener = L_end, stopper = S_end, clients = [],
     live_ssl = {}, shut = {}, misuse = False\<rparr>"

lemma demo_stop_run: "(some_step False)\<^sup>*\<^sup>* (init_world demo_server) demo_stopped"
proof -
  let ?w1 = "stop_flag (init_world demo_server)"
  let ?w2 = "stop_close ?w1"
  let ?w3 = "?w2\<lparr>listener := L_end\<rparr>"
  let ?w4 = "stop_join ?w3"
  let ?w5 = "stop_shutdown ?w4"
  let ?w6 = "?w5\<lparr>stopper := S_free\<rparr>"
  note defs = init_world_def demo_server_eq stop_flag_def stop_close_def close_listener_def stop_join_def
    stop_shutdown_def stop_free_def drop_ctx_def free_ctx_def demo_stopped_def
  have "some_step False (init_world demo_server) ?w1"
    by (rule some_stepI(3), rule stop_step.flag) (simp add: defs)
  moreover have "some_step False ?w1 ?w2" by (rule some_stepI(3), rule stop_step.close) (simp add: defs)
  moreover have "some_step False ?w2 ?w3"
    using some_stepI(1) [OF listener_step.test [of ?w2 False]] by (simp add: defs)
  moreover have "some_step False ?w3 ?w4" by (rule some_stepI(3), rule stop_step.join) (simp_all add: defs)
  moreover have "some_step False ?w4 ?w5" by (rule some_stepI(3), rule stop_step.shutdown) (simp add: defs)
  moreover have "some_step False ?w5 ?w6" by (rule some_stepI(3), rule stop_step.empty) (simp_all add: defs)
  moreover have "some_step False ?w6 demo_stopped"
    using some_stepI(3) [OF stop_step.free [of ?w6], of False] by (simp add: defs)
  ultimately show ?thesis by (meson converse_rtranclp_into_rtranclp rtranclp.rtrancl_refl)
qed


text \<open>
  C11: stop() ends. Once the flag m_running is false every step of any thread brings the
  whole closer to the end, so that there is no endless run, and as long as stop() has not
  returned some thread can go on without waiting for a client: silent clients cannot hold it up.
\<close>

theorem stop_terminates:
  assumes "started v" "(some_step False)\<^sup>*\<^sup>* (init_world v) w" "\<not> srv_running (server w)"
  shows "(\<forall>w'. some_step False w w' \<longrightarrow> steps_left w' < steps_left w \<and> \<not> srv_running (server w')) \<and>
    (stopper w \<noteq> S_end \<longrightarrow> (\<exists>w'. step False True w w'))"
  using step_shrinks [OF _ assms(3)] stop_goes_on [OF steps_inv [OF assms(2) init_world_inv [OF assms(1)]]]
  by (auto simp: some_step_def)

theorem stop_terminates_witness:
  "steps_left demo_stopped = 0 \<and> (\<forall>w'. \<not> some_step False demo_stopped w')"
proof -
  have "\<not> srv_running (server demo_stopped)" by (simp add: demo_stopped_def)
  from stop_terminates [OF demo_server_started demo_stop_run this] show ?thesis
    by (auto simp: demo_stopped_def steps_left_def)
qed

text \<open>The states of the run below: the sessions, the listener, the threads, the TLS objects, the sockets.\<close>

definition tls_world :: "client_session list \<Rightarrow> listener_pc \<Rightarrow> (int \<times> client_pc) list \<Rightarrow> nat set \<Rightarrow> int set \<Rightarrow> world" where
  "tls_world ss l cs live fds =
     \<lparr>server = demo_server\<lparr>m_clientSessions := ss, open_fds := fds\<rparr>, listener = l, stopper = S_idle, clients = cs,
      live_ssl = live, shut = {}, misuse = False\<rparr>"

lemma tls_world_sel [simp]:
  "server (tls_world ss l cs live fds) = demo_server\<lparr>m_clientSessions := ss, open_fds := fds\<rparr>"
  "listener (tls_world ss l cs live fds) = l" "clients (tls_world ss l cs live fds) = cs"
  "live_ssl (tls_world ss l cs live fds) = live" "shut (tls_world ss l cs live fds) = {}"
  "stopper (tls_world ss l cs live fds) = S_idle" "misuse (tls_world ss l cs live fds) = False"
  by (simp_all add: tls_world_def)

lemma listener_run:
  "some_step True (tls_world ss L_test cs live fds) (tls_world ss L_accept cs live fds)"
  "fd \<notin> fds \<Longrightarrow> 0 \<le> fd \<Longrightarrow>
     some_step True (tls_world ss L_accept cs live fds) (tls_world ss (L_ssl fd) cs live (insert fd fds))"
  "s \<notin> live \<Longrightarrow>
     some_step True (tls_world ss (L_ssl fd) cs live fds) (tls_world ss (L_push fd (Some s)) cs (insert s live) fds)"
  "some_step True (tls_world ss (L_push fd x) cs live fds)
     (tls_world (ss @ [\<lparr>socketFd = fd, ssl = x\<rparr>]) (L_spawn fd) cs live fds)"
  "some_step True (tls_world ss (L_spawn fd) cs live fds) (tls_world ss L_test (cs @ [(fd, C_lookup)]) live fds)"
proof -
  show "some_step True (tls_world ss L_test cs live fds) (tls_world ss L_accept cs live fds)"
    using some_stepI(1) [OF listener_step.test [of "tls_world ss L_test cs live fds" True]]
    by (simp add: tls_world_def demo_server_eq)
  show "some_step True (tls_world ss L_accept cs live fds) (tls_world ss (L_ssl fd) cs live (insert fd fds))"
    if "fd \<notin> fds" "0 \<le> fd"
    using some_stepI(1) [OF listener_step.accept [of "tls_world ss L_accept cs live fds" fd True]] that
    by (simp add: tls_world_def demo_server_eq)
  show "some_step True (tls_world ss (L_ssl fd) cs live fds) (tls_world ss (L_push fd (Some s)) cs (insert s live) fds)"
    if "s \<notin> live"
    using some_stepI(1) [OF listener_step.new_ssl [of "tls_world ss (L_ssl fd) cs live fds" fd s True]] that
    by (simp add: tls_world_def)
  show "some_step True (tls_world ss (L_push fd x) cs live fds)
     (tls_world (ss @ [\<lparr>socketFd = fd, ssl = x\<rparr>]) (L_spawn fd) cs live fds)"
    using some_stepI(1) [OF listener_step.push [of "tls_world ss (L_push fd x) cs live fds" fd x True]]
    by (simp add: tls_world_def push_session_def demo_server_eq)
  show "some_step True (tls_world ss (L_spawn fd) cs live fds) (tls_world ss L_test (cs @ [(fd, C_lookup)]) live fds)"
    using some_stepI(1) [OF listener_step.spawn [of "tls_world ss (L_spawn fd) cs live fds" fd True]]
    by (simp add: tls_world_def start_pc_def demo_server_eq)
qed

lemma client_run:
  assumes "session_ssl fd ss = Some s"
  shows "some_step True (tls_world ss l [(fd, C_lookup)] live fds) (tls_world ss l [(fd, C_handshake s)] live fds)"
    "s \<in> live \<Longrightarrow>
       some_step True (tls_world ss l [(fd, C_handshake s)] live fds) (tls_world ss l [(fd, C_free s)] live fds)"
    "s \<in> live \<Longrightarrow>
       some_step True (tls_world ss l [(fd, C_free s)] live fds) (tls_world ss l [(fd, C_close)] (live - {s}) fds)"
    "some_step True (tls_world ss l [(fd, C_close)] live fds) (tls_world ss l [(fd, C_erase)] live (fds - {fd}))"
    "some_step True (tls_world ss l [c, (fd, C_lookup)] live fds) (tls_world ss l [c, (fd, C_handshake s)] live fds)"
proof -
  show "some_step True (tls_world ss l [(fd, C_lookup)] live fds) (tls_world ss l [(fd, C_handshake s)] live fds)"
    using some_stepI(2) [OF client_step.lookup [of "tls_world ss l [(fd, C_lookup)] live fds" "[]" fd "[]", OF _ refl refl]]
      assms by (simp add: tls_world_def)
  show "some_step True (tls_world ss l [(fd, C_handshake s)] live fds) (tls_world ss l [(fd, C_free s)] live fds)"
    if "s \<in> live"
    using some_stepI(2) [OF client_step.handshake_failed [of "tls_world ss l [(fd, C_handshake s)] live fds" "[]" fd s "[]"]]
      that by (simp add: tls_world_def use_ssl_def)
  show "some_step True (tls_world ss l [(fd, C_free s)] live fds) (tls_world ss l [(fd, C_close)] (live - {s}) fds)"
    if "s \<in> live"
    using some_stepI(2) [OF client_step.free [of "tls_world ss l [(fd, C_free s)] live fds" "[]" fd s "[]"]]
      that by (simp add: tls_world_def use_ssl_def)
  show "some_step True (tls_world ss l [(fd, C_close)] live fds) (tls_world ss l [(fd, C_erase)] live (fds - {fd}))"
    using some_stepI(2) [OF client_step.close [of "tls_world ss l [(fd, C_close)] live fds" "[]" fd "[]"]]
    by (simp add: tls_world_def)
  show "some_step True (tls_world ss l [c, (fd, C_lookup)] live fds) (tls_world ss l [c, (fd, C_handshake s)] live fds)"
    using some_stepI(2) [OF client_step.lookup [of "tls_world ss l [c, (fd, C_lookup)] live fds" "[c]" fd "[]", OF _ refl refl]]
      assms by (simp add: tls_world_def)
qed

text \<open>
  C27: A thread can use a TLS object that was freed: a client thread closes its socket before
  it takes its session off the list, a new client gets the same descriptor in between, and
  the new thread finds the old session, with the TLS object that is gone. The run needs two
  clients and a first one whose handshake fails.
\<close>

theorem stale_session_is_used:
  "\<exists>w. (some_step True)\<^sup>*\<^sup>* (init_world demo_server) w \<and> misuse w"
proof (intro exI conjI)
  let ?s1 = "\<lparr>socketFd = 5, ssl = Some 1\<rparr>" and ?s2 = "\<lparr>socketFd = 5, ssl = Some (2::nat)\<rparr>"
  let ?fin = "tls_world [?s1, ?s2] L_test [(5, C_erase), (5, C_handshake 1)] {2} {3, 5}"
  let ?last = "(use_ssl (Some 1) ?fin)\<lparr>clients := [(5, C_erase), (5, C_free 1)]\<rparr>"
  have init: "init_world demo_server = tls_world [] L_test [] {} {3}"
    by (simp add: init_world_def tls_world_def demo_server_eq)
  note go = converse_rtranclp_into_rtranclp [where r = "some_step True"]
  have last: "some_step True ?fin ?last"
    using some_stepI(2) [OF client_step.handshake_failed [of ?fin "[(5, C_erase)]" 5 1 "[]"]] by simp
  have second: "(some_step True)\<^sup>*\<^sup>* (tls_world [?s1] L_test [(5, C_erase)] {} {3}) ?fin"
    by (rule go [OF listener_run(1)], rule go [OF listener_run(2) [of 5]], simp, simp,
        rule go [OF listener_run(3) [of 2]], simp, rule go [OF listener_run(4)], rule go [OF listener_run(5)])
      (use client_run(5) [of 5 "[?s1, ?s2]" 1] in \<open>simp add: insert_commute r_into_rtranclp\<close>)
  have first: "(some_step True)\<^sup>*\<^sup>* (tls_world [] L_test [] {} {3}) (tls_world [?s1] L_test [(5, C_erase)] {} {3})"
  proof -
    let ?c = "\<lambda>pc live fds. tls_world [?s1] L_test [(5, pc)] live fds"
    have "(some_step True)\<^sup>*\<^sup>* (tls_world [] L_test [] {} {3}) (?c C_lookup {1} {5, 3})"
      by (rule go [OF listener_run(1)], rule go [OF listener_run(2) [of 5]], simp, simp,
          rule go [OF listener_run(3) [of 1]], simp, rule go [OF listener_run(4)], rule go [OF listener_run(5)]) simp
    also have "(some_step True)\<^sup>*\<^sup>* (?c C_lookup {1} {5, 3}) (?c C_erase ({1} - {1}) ({5, 3} - {5}))"
      by (rule go [OF client_run(1) [where s = 1]], simp, rule go [OF client_run(2) [where s = 1]], simp, simp,
          rule go [OF client_run(3) [where s = 1]], simp, simp, rule go [OF client_run(4) [where s = 1]], simp) simp
    finally show ?thesis by simp
  qed
  show "(some_step True)\<^sup>*\<^sup>* (init_world demo_server) ?last"
    unfolding init using first second last by (meson rtranclp_trans rtranclp.rtrancl_into_rtrancl)
  show "misuse ?last" by (simp add: use_ssl_def)
qed

end
