(* ===== verification/Pki.thy ===== *)
theory Pki
  imports Prelude
begin

text \<open>
  The certificates the daemon makes for itself (generatePki and its helpers in src/main.cc):
  a root CA, a server and a client key pair with their certificates, written to six files.
  OpenSSL and the file system are the answers of a record \<open>pki_env\<close>; its objects live in a
  heap, so that what is allocated and freed can be counted.
\<close>

section \<open>Data\<close>

datatype nid = Basic_constraints | Key_usage | Ext_key_usage

type_synonym x509_name = "(string \<times> string) list"

text \<open>Times are seconds from the moment of the call, as X509_gmtime_adj takes them.\<close>

record x509 =
  version :: int
  serial :: int
  not_before :: int
  not_after :: int
  pubkey :: "nat option"
  subject :: x509_name
  issuer :: x509_name
  extensions :: "(nid \<times> string) list"
  signed_by :: "nat option"

definition blank_x509 :: x509 where
  "blank_x509 = \<lparr>version = 0, serial = 0, not_before = 0, not_after = 0, pubkey = None,
     subject = [], issuer = [], extensions = [], signed_by = None\<rparr>"

text \<open>A file that was opened for writing and not written whole is \<open>Truncated\<close>.\<close>

datatype file_data = Truncated | Private_key nat | Certificate x509 | Other_data string

text \<open>
  The answers of OpenSSL and of fopen. The functions that allocate are asked with the number
  of the allocation; the key generation also says whether it set its result.
\<close>

record pki_env =
  pkey_ctx_new :: "nat \<Rightarrow> bool"
  keygen_init :: "nat \<Rightarrow> int"
  set_keygen_bits :: "nat \<Rightarrow> int \<Rightarrow> int"
  keygen :: "nat \<Rightarrow> int \<times> bool"
  cert_new :: "nat \<Rightarrow> bool"
  ext_conf :: "nid \<Rightarrow> string \<Rightarrow> bool"
  sign_cert :: "nat \<Rightarrow> bool"
  can_open :: "string \<Rightarrow> bool"
  pem_write :: "string \<Rightarrow> int"

record pki =
  allocs :: nat
  live_pctx :: "nat set"
  live_keys :: "nat set"
  live_certs :: "nat \<rightharpoonup> x509"
  files :: "string \<rightharpoonup> file_data"

section \<open>Operations\<close>

definition free_key :: "nat \<Rightarrow> pki \<Rightarrow> pki" where
  "free_key k p = p\<lparr>live_keys := live_keys p - {k}\<rparr>"

definition free_cert :: "nat \<Rightarrow> pki \<Rightarrow> pki" where
  "free_cert x p = p\<lparr>live_certs := (live_certs p)(x := None)\<rparr>"

definition generateKeyPair :: "pki_env \<Rightarrow> pki \<Rightarrow> nat option \<times> pki" where
  "generateKeyPair env p =
     (let n = allocs p; p1 = p\<lparr>allocs := Suc n\<rparr>
      in if \<not> pkey_ctx_new env n then (None, p1)
         else let p2 = p1\<lparr>live_pctx := insert n (live_pctx p1)\<rparr>;
                  free_pctx = (\<lambda>q. q\<lparr>live_pctx := live_pctx q - {n}\<rparr>)
           in if keygen_init env n \<le> 0 \<or> set_keygen_bits env n 2048 \<le> 0 then (None, free_pctx p2)
              else let (rc, made) = keygen env n;
                       p3 = (if made then p2\<lparr>live_keys := insert n (live_keys p2)\<rparr> else p2)
                in if rc \<le> 0 then (None, if made then free_key n (free_pctx p3) else free_pctx p3)
                   else (if made then Some n else None, free_pctx p3))"

definition X509_new :: "pki_env \<Rightarrow> pki \<Rightarrow> nat option \<times> pki" where
  "X509_new env p =
     (let n = allocs p; p1 = p\<lparr>allocs := Suc n\<rparr>
      in if cert_new env n then (Some n, p1\<lparr>live_certs := (live_certs p1)(n \<mapsto> blank_x509)\<rparr>)
         else (None, p1))"

definition cert :: "nat \<Rightarrow> pki \<Rightarrow> x509" where
  "cert x p = (case live_certs p x of Some c \<Rightarrow> c | None \<Rightarrow> blank_x509)"

definition upd_cert :: "nat \<Rightarrow> (x509 \<Rightarrow> x509) \<Rightarrow> pki \<Rightarrow> pki" where
  "upd_cert x f p = p\<lparr>live_certs := (live_certs p)(x \<mapsto> f (cert x p))\<rparr>"

text \<open>
  An extension whose text OpenSSL refuses is left out, and no caller looks at the result. The
  two functions of the source differ in the context, the certificate itself or its issuer,
  from which OpenSSL builds the extension; none of the texts used refers to it.
\<close>

definition add_ext :: "pki_env \<Rightarrow> nid \<Rightarrow> string \<Rightarrow> x509 \<Rightarrow> bool \<times> x509" where
  "add_ext env n v c =
     (if \<not> ext_conf env n v then (False, c) else (True, c\<lparr>extensions := extensions c @ [(n, v)]\<rparr>))"

definition add_ext_signed :: "pki_env \<Rightarrow> x509 \<Rightarrow> nid \<Rightarrow> string \<Rightarrow> x509 \<Rightarrow> bool \<times> x509" where
  "add_ext_signed env iss n v c =
     (if \<not> ext_conf env n v then (False, c) else (True, c\<lparr>extensions := extensions c @ [(n, v)]\<rparr>))"

definition entity_name :: "string \<Rightarrow> x509_name" where
  "entity_name cn = [(''C'', ''US''), (''O'', ''Electux''), (''CN'', cn)]"

definition fill :: "int \<Rightarrow> int \<Rightarrow> nat \<Rightarrow> string \<Rightarrow> x509 \<Rightarrow> x509" where
  "fill ser seconds key cn c =
     c\<lparr>version := 2, serial := ser, not_before := 0, not_after := seconds, pubkey := Some key,
       subject := subject c @ entity_name cn\<rparr>"

definition ca_cert :: "pki_env \<Rightarrow> nat \<Rightarrow> x509 \<Rightarrow> x509" where
  "ca_cert env key c0 =
     (let c1 = fill 1 315360000 key ''MiniHIL Root CA'' c0;
          c2 = c1\<lparr>issuer := subject c1\<rparr>;
          c3 = snd (add_ext env Basic_constraints ''critical,CA:TRUE'' c2)
      in snd (add_ext env Key_usage ''critical,keyCertSign,cRLSign'' c3))"

definition server_cert :: "pki_env \<Rightarrow> x509 \<Rightarrow> nat \<Rightarrow> x509 \<Rightarrow> x509" where
  "server_cert env ca key c0 =
     (let c1 = fill 2 31536000 key ''localhost'' c0;
          c2 = c1\<lparr>issuer := subject ca\<rparr>;
          c3 = snd (add_ext_signed env ca Basic_constraints ''CA:FALSE'' c2);
          c4 = snd (add_ext_signed env ca Key_usage ''critical,digitalSignature,keyEncipherment'' c3)
      in snd (add_ext_signed env ca Ext_key_usage ''serverAuth'' c4))"

definition client_cert :: "pki_env \<Rightarrow> x509 \<Rightarrow> nat \<Rightarrow> x509 \<Rightarrow> x509" where
  "client_cert env ca key c0 =
     (let c1 = fill 3 31536000 key ''minihildesk'' c0;
          c2 = c1\<lparr>issuer := subject ca\<rparr>;
          c3 = snd (add_ext_signed env ca Basic_constraints ''CA:FALSE'' c2);
          c4 = snd (add_ext_signed env ca Key_usage ''critical,digitalSignature'' c3)
      in snd (add_ext_signed env ca Ext_key_usage ''clientAuth'' c4))"

definition X509_sign :: "pki_env \<Rightarrow> nat \<Rightarrow> nat \<Rightarrow> pki \<Rightarrow> bool \<times> pki" where
  "X509_sign env x key p =
     (if sign_cert env x then (True, upd_cert x (\<lambda>c. c\<lparr>signed_by := Some key\<rparr>) p) else (False, p))"

definition writePrivateKey :: "pki_env \<Rightarrow> string \<Rightarrow> nat \<Rightarrow> pki \<Rightarrow> bool \<times> pki" where
  "writePrivateKey env path pkey p =
     (if \<not> can_open env path then (False, p)
      else let p1 = p\<lparr>files := (files p)(path \<mapsto> Truncated)\<rparr>
        in if pem_write env path > 0 then (True, p1\<lparr>files := (files p1)(path \<mapsto> Private_key pkey)\<rparr>)
           else (False, p1))"

definition writeCert :: "pki_env \<Rightarrow> string \<Rightarrow> nat \<Rightarrow> pki \<Rightarrow> bool \<times> pki" where
  "writeCert env path x p =
     (if \<not> can_open env path then (False, p)
      else let p1 = p\<lparr>files := (files p)(path \<mapsto> Truncated)\<rparr>
        in if pem_write env path > 0 then (True, p1\<lparr>files := (files p1)(path \<mapsto> Certificate (cert x p1))\<rparr>)
           else (False, p1))"

section \<open>generatePki\<close>

text \<open>
  The three stages of the function. A stage that fails frees what it made and what the stages
  before it made; the server and the client stage differ in the certificate they fill in and
  in what is already there to free.
\<close>

definition generate_ca :: "pki_env \<Rightarrow> pki \<Rightarrow> (nat \<times> nat) option \<times> pki" where
  "generate_ca env p =
     (case generateKeyPair env p of
        (None, p1) \<Rightarrow> (None, p1)
      | (Some caKey, p1) \<Rightarrow>
          (case X509_new env p1 of
             (None, p2) \<Rightarrow> (None, free_key caKey p2)
           | (Some caCert, p2) \<Rightarrow>
               let (ok, p3) = X509_sign env caCert caKey (upd_cert caCert (ca_cert env caKey) p2)
               in if \<not> ok then (None, free_key caKey (free_cert caCert p3))
                  else (Some (caKey, caCert), p3)))"

definition generate_entity :: "pki_env \<Rightarrow> nat \<Rightarrow> (nat \<Rightarrow> x509 \<Rightarrow> x509) \<Rightarrow> (pki \<Rightarrow> pki) \<Rightarrow> pki \<Rightarrow>
    (nat \<times> nat) option \<times> pki" where
  "generate_entity env caKey fill_in release p =
     (case generateKeyPair env p of
        (None, p1) \<Rightarrow> (None, release p1)
      | (Some key, p1) \<Rightarrow>
          (case X509_new env p1 of
             (None, p2) \<Rightarrow> (None, release (free_key key p2))
           | (Some x, p2) \<Rightarrow>
               let (ok, p3) = X509_sign env x caKey (upd_cert x (fill_in key) p2)
               in if \<not> ok then (None, release (free_key key (free_cert x p3)))
                  else (Some (key, x), p3)))"

definition release_pair :: "nat \<times> nat \<Rightarrow> pki \<Rightarrow> pki" where
  "release_pair kx p = free_key (fst kx) (free_cert (snd kx) p)"

definition generate_server :: "pki_env \<Rightarrow> nat \<times> nat \<Rightarrow> pki \<Rightarrow> (nat \<times> nat) option \<times> pki" where
  "generate_server env ca p =
     generate_entity env (fst ca) (server_cert env (cert (snd ca) p)) (release_pair ca) p"

definition generate_client :: "pki_env \<Rightarrow> nat \<times> nat \<Rightarrow> nat \<times> nat \<Rightarrow> pki \<Rightarrow> (nat \<times> nat) option \<times> pki" where
  "generate_client env ca srv p =
     generate_entity env (fst ca) (client_cert env (cert (snd ca) p))
       (\<lambda>q. release_pair ca (release_pair srv q)) p"

record pki_paths =
  caCertPath :: string
  caKeyPath :: string
  certPath :: string
  keyPath :: string
  clientCertPath :: string
  clientKeyPath :: string

text \<open>All six files are tried, whether the ones before could be written or not.\<close>

definition write_all :: "pki_env \<Rightarrow> pki_paths \<Rightarrow> nat \<times> nat \<Rightarrow> nat \<times> nat \<Rightarrow> nat \<times> nat \<Rightarrow> pki \<Rightarrow> bool \<times> pki" where
  "write_all env ps ca srv cli p =
     (let (s1, p1) = writePrivateKey env (caKeyPath ps) (fst ca) p;
          (s2, p2) = writeCert env (caCertPath ps) (snd ca) p1;
          (s3, p3) = writePrivateKey env (keyPath ps) (fst srv) p2;
          (s4, p4) = writeCert env (certPath ps) (snd srv) p3;
          (s5, p5) = writePrivateKey env (clientKeyPath ps) (fst cli) p4;
          (s6, p6) = writeCert env (clientCertPath ps) (snd cli) p5
      in (s1 \<and> s2 \<and> s3 \<and> s4 \<and> s5 \<and> s6, p6))"

definition generatePki :: "pki_env \<Rightarrow> pki_paths \<Rightarrow> pki \<Rightarrow> bool \<times> pki" where
  "generatePki env ps p =
     (case generate_ca env p of
        (None, p1) \<Rightarrow> (False, p1)
      | (Some ca, p1) \<Rightarrow>
          (case generate_server env ca p1 of
             (None, p2) \<Rightarrow> (False, p2)
           | (Some srv, p2) \<Rightarrow>
               (case generate_client env ca srv p2 of
                  (None, p3) \<Rightarrow> (False, p3)
                | (Some cli, p3) \<Rightarrow>
                    let (success, p4) = write_all env ps ca srv cli p3
                    in (success, release_pair ca (release_pair srv (release_pair cli p4))))))"

section \<open>What is allocated is freed\<close>

text \<open>
  The heap of OpenSSL objects; every object has the number of its allocation, below \<open>allocs\<close>.
\<close>

definition heap :: "pki \<Rightarrow> nat set \<times> nat set \<times> (nat \<rightharpoonup> x509)" where
  "heap p = (live_pctx p, live_keys p, live_certs p)"

definition pki_ok :: "pki \<Rightarrow> bool" where
  "pki_ok p \<longleftrightarrow> (\<forall>n. n \<in> live_pctx p \<or> n \<in> live_keys p \<or> n \<in> dom (live_certs p) \<longrightarrow> n < allocs p)"

lemma pki_ok_fresh:
  assumes "pki_ok p"
  shows "allocs p \<notin> live_pctx p" "allocs p \<notin> live_keys p" "live_certs p (allocs p) = None"
proof -
  have below: "n < allocs p" if "n \<in> live_pctx p \<or> n \<in> live_keys p \<or> n \<in> dom (live_certs p)" for n
    using assms that by (auto simp: pki_ok_def)
  show "allocs p \<notin> live_pctx p" "allocs p \<notin> live_keys p"
    using below [of "allocs p"] by auto
  show "live_certs p (allocs p) = None"
    using below [of "allocs p"] by (cases "live_certs p (allocs p)") auto
qed

lemma generateKeyPair_heap:
  assumes "pki_ok p"
  shows "heap (snd (generateKeyPair env p)) =
      (live_pctx p, live_keys p \<union> set_option (fst (generateKeyPair env p)), live_certs p) \<and>
    allocs (snd (generateKeyPair env p)) = Suc (allocs p) \<and>
    files (snd (generateKeyPair env p)) = files p \<and>
    fst (generateKeyPair env p) \<in> {None, Some (allocs p)}"
proof -
  let ?n = "allocs p"
  note fresh = pki_ok_fresh [OF assms]
  consider (no) "\<not> pkey_ctx_new env ?n"
    | (init) "pkey_ctx_new env ?n" "keygen_init env ?n \<le> 0 \<or> set_keygen_bits env ?n 2048 \<le> 0"
    | (gen) "pkey_ctx_new env ?n" "\<not> (keygen_init env ?n \<le> 0 \<or> set_keygen_bits env ?n 2048 \<le> 0)"
    by blast
  then show ?thesis
  proof cases
    case no
    then show ?thesis by (simp add: generateKeyPair_def heap_def)
  next
    case init
    then show ?thesis using fresh by (simp add: generateKeyPair_def heap_def Let_def)
  next
    case gen
    obtain rc made where k: "keygen env ?n = (rc, made)" by (cases "keygen env ?n")
    from gen k fresh show ?thesis
      by (cases "rc \<le> 0"; cases made)
        (simp_all add: generateKeyPair_def heap_def Let_def free_key_def)
  qed
qed

lemma heap_fields:
  "heap p = (a, b, c) \<longleftrightarrow> live_pctx p = a \<and> live_keys p = b \<and> live_certs p = c"
  by (auto simp: heap_def)

lemma free_key_fields [simp]:
  "allocs (free_key k p) = allocs p" "files (free_key k p) = files p"
  "live_pctx (free_key k p) = live_pctx p" "live_keys (free_key k p) = live_keys p - {k}"
  "live_certs (free_key k p) = live_certs p"
  by (simp_all add: free_key_def)

lemma free_cert_fields [simp]:
  "allocs (free_cert x p) = allocs p" "files (free_cert x p) = files p"
  "live_pctx (free_cert x p) = live_pctx p" "live_keys (free_cert x p) = live_keys p"
  "live_certs (free_cert x p) = (live_certs p)(x := None)"
  by (simp_all add: free_cert_def)

text \<open>One stage after the key pair: a new certificate filled in and signed, or nothing.\<close>

definition signed_cert :: "nat \<Rightarrow> (x509 \<Rightarrow> x509) \<Rightarrow> x509" where
  "signed_cert caKey f = (f blank_x509)\<lparr>signed_by := Some caKey\<rparr>"

lemma X509_new_cases:
  obtains (none) "X509_new env p = (None, p\<lparr>allocs := Suc (allocs p)\<rparr>)"
  | (some) "X509_new env p = (Some (allocs p),
      p\<lparr>allocs := Suc (allocs p), live_certs := (live_certs p)(allocs p \<mapsto> blank_x509)\<rparr>)"
  by (cases "cert_new env (allocs p)") (simp_all add: X509_new_def Let_def)

definition releasing :: "(pki \<Rightarrow> pki) \<Rightarrow> bool" where
  "releasing release \<longleftrightarrow> (\<forall>p q. heap p = heap q \<longrightarrow> heap (release p) = heap (release q)) \<and>
     (\<forall>p. files (release p) = files p)"

lemma releasingD:
  assumes "releasing release" "heap p = heap q"
  shows "heap (release p) = heap (release q)" "files (release p) = files p"
  using assms unfolding releasing_def by blast+

lemma pki_ok_keypair:
  assumes "pki_ok p" "generateKeyPair env p = (r, p1)"
  shows "pki_ok p1" "allocs p1 = Suc (allocs p)" "files p1 = files p" "live_pctx p1 = live_pctx p"
    "live_keys p1 = live_keys p \<union> set_option r" "live_certs p1 = live_certs p"
    "r = None \<or> r = Some (allocs p)"
proof -
  note h = generateKeyPair_heap [OF assms(1), of env, unfolded assms(2)]
  show "allocs p1 = Suc (allocs p)" "files p1 = files p" "live_pctx p1 = live_pctx p"
    "live_keys p1 = live_keys p \<union> set_option r" "live_certs p1 = live_certs p"
    "r = None \<or> r = Some (allocs p)"
    using h by (auto simp: heap_fields)
  then show "pki_ok p1" using assms(1) by (auto simp: pki_ok_def less_Suc_eq)
qed

lemma generate_entity_heap:
  assumes ok: "pki_ok p" and rel: "releasing release"
    and gen: "generate_entity env caKey fill_in release p = (r, p')"
  shows "files p' = files p \<and>
    (case r of
       None \<Rightarrow> heap p' = heap (release p)
     | Some (k, x) \<Rightarrow> k = allocs p \<and> x = Suc (allocs p) \<and> pki_ok p' \<and> allocs p' = allocs p + 2 \<and>
         heap p' = (live_pctx p, insert k (live_keys p),
                    (live_certs p)(x \<mapsto> signed_cert caKey (fill_in k))))"
proof (cases "generateKeyPair env p")
  case (Pair kr p1)
  note k = pki_ok_keypair [OF ok Pair]
  show ?thesis
  proof (cases kr)
    case None
    with gen Pair have r: "r = None" "p' = release p1" by (simp_all add: generate_entity_def)
    have "heap p1 = heap p" using k None by (simp add: heap_def)
    from releasingD [OF rel this] r k show ?thesis by simp
  next
    case (Some key)
    then have key: "key = allocs p" using k by simp
    note fresh = pki_ok_fresh [OF ok]
    have restored: "heap q = heap p" if "live_pctx q = live_pctx p" "live_keys q = insert key (live_keys p) - {key}"
      "live_certs q = live_certs p" for q
      using that fresh key by (simp add: heap_def)
    show ?thesis
    proof (cases rule: X509_new_cases [of env p1])
      case none
      let ?q = "free_key key (p1\<lparr>allocs := Suc (allocs p1)\<rparr>)"
      have r: "r = None" "p' = release ?q"
        using gen Pair Some none by (simp_all add: generate_entity_def)
      have "heap ?q = heap p" using k Some by (intro restored) simp_all
      from releasingD [OF rel this] r k show ?thesis by simp
    next
      case some
      let ?x = "allocs p1"
      let ?p2 = "p1\<lparr>allocs := Suc ?x, live_certs := (live_certs p1)(?x \<mapsto> blank_x509)\<rparr>"
      let ?p3 = "upd_cert ?x (fill_in key) ?p2"
      have c3: "live_certs ?p3 = (live_certs p)(?x \<mapsto> fill_in key blank_x509)"
        using k by (simp add: upd_cert_def cert_def)
      have fx: "live_certs p ?x = None" using pki_ok_fresh(3) [OF k(1)] k by simp
      show ?thesis
      proof (cases "sign_cert env ?x")
        case True
        let ?p4 = "upd_cert ?x (\<lambda>c. c\<lparr>signed_by := Some caKey\<rparr>) ?p3"
        have r: "r = Some (key, ?x)" "p' = ?p4"
          using gen Pair Some some True by (simp_all add: generate_entity_def X509_sign_def)
        have c4: "live_certs ?p4 = (live_certs p)(?x \<mapsto> signed_cert caKey (fill_in key))"
          using k by (simp add: upd_cert_def cert_def signed_cert_def)
        have f: "live_pctx ?p4 = live_pctx p" "live_keys ?p4 = insert key (live_keys p)"
          "files ?p4 = files p" "allocs ?p4 = Suc ?x"
          using k Some by (simp_all add: upd_cert_def)
        have "pki_ok ?p4" using ok key k(2) unfolding pki_ok_def c4 f
          by (auto simp: less_Suc_eq)
        with r f c4 key k(2) show ?thesis by (simp add: heap_def)
      next
        case False
        let ?q = "free_key key (free_cert ?x ?p3)"
        have r: "r = None" "p' = release ?q"
          using gen Pair Some some False by (simp_all add: generate_entity_def X509_sign_def)
        have "live_certs (free_cert ?x ?p3) = live_certs p"
          using c3 fx by (simp add: fun_upd_idem_iff)
        then have "heap ?q = heap p"
          using k Some by (intro restored) (simp_all add: upd_cert_def)
        moreover have "files ?q = files p" using k by (simp add: upd_cert_def)
        ultimately show ?thesis using releasingD [OF rel, of ?q p] r by simp
      qed
    qed
  qed
qed

text \<open>The CA is the case in which the new key signs its own certificate.\<close>

lemma generate_ca_entity:
  assumes "pki_ok p"
  shows "generate_ca env p = generate_entity env (allocs p) (ca_cert env) (\<lambda>q. q) p"
proof (cases "generateKeyPair env p")
  case (Pair kr p1)
  from pki_ok_keypair(7) [OF assms Pair] show ?thesis
    by (auto simp: generate_ca_def generate_entity_def Pair)
qed

lemma releasing_id: "releasing (\<lambda>q. q)"
  by (simp add: releasing_def)

lemma releasing_pair: "releasing (release_pair kx)"
  by (simp add: releasing_def release_pair_def heap_def)

lemma releasing_comp:
  assumes "releasing f" "releasing g"
  shows "releasing (\<lambda>q. f (g q))"
  unfolding releasing_def
proof (intro conjI allI impI)
  fix p q :: pki
  assume "heap p = heap q"
  from releasingD(1) [OF assms(2) this] show "heap (f (g p)) = heap (f (g q))"
    by (rule releasingD(1) [OF assms(1)])
next
  fix p :: pki
  show "files (f (g p)) = files p"
    using releasingD(2) [OF assms(1) refl, of "g p"] releasingD(2) [OF assms(2) refl, of p] by simp
qed

lemma release_pair_fields [simp]:
  "live_pctx (release_pair (k, x) p) = live_pctx p"
  "live_keys (release_pair (k, x) p) = live_keys p - {k}"
  "live_certs (release_pair (k, x) p) = (live_certs p)(x := None)"
  "files (release_pair (k, x) p) = files p"
  by (simp_all add: release_pair_def)

lemma upd_cert_fields [simp]:
  "allocs (upd_cert x f p) = allocs p" "files (upd_cert x f p) = files p"
  "live_pctx (upd_cert x f p) = live_pctx p" "live_keys (upd_cert x f p) = live_keys p"
  by (simp_all add: upd_cert_def)

lemma writePrivateKey_heap: "heap (snd (writePrivateKey env path k p)) = heap p"
  by (simp add: writePrivateKey_def heap_def Let_def)

lemma writeCert_heap: "heap (snd (writeCert env path x p)) = heap p"
  by (simp add: writeCert_def heap_def Let_def)

lemma write_all_heap: "heap (snd (write_all env ps ca srv cli p)) = heap p"
  by (simp add: write_all_def Let_def case_prod_beta writePrivateKey_heap writeCert_heap)

text \<open>The objects that exist while the files are written.\<close>

definition pki_chain :: "pki_env \<Rightarrow> nat \<Rightarrow> x509 \<times> x509 \<times> x509" where
  "pki_chain env n =
     (let ca = signed_cert n (ca_cert env n)
      in (ca, signed_cert n (server_cert env ca (n + 2)), signed_cert n (client_cert env ca (n + 4))))"

lemma pki_ok_ge:
  assumes "pki_ok p" "allocs p \<le> n"
  shows "n \<notin> live_keys p" "live_certs p n = None"
proof -
  have below: "m < allocs p" if "m \<in> live_keys p \<or> m \<in> dom (live_certs p)" for m
    using assms(1) that by (auto simp: pki_ok_def)
  show "n \<notin> live_keys p" using below [of n] assms(2) by auto
  show "live_certs p n = None" using below [of n] assms(2) by (cases "live_certs p n") auto
qed

lemma generate_entity_cases:
  assumes "pki_ok p" "releasing release" "generate_entity env caKey fill_in release p = (r, p')"
  obtains (none) "r = None" "heap p' = heap (release p)" "files p' = files p"
  | (some) "r = Some (allocs p, Suc (allocs p))" "pki_ok p'" "allocs p' = allocs p + 2"
      "files p' = files p" "live_pctx p' = live_pctx p" "live_keys p' = insert (allocs p) (live_keys p)"
      "live_certs p' = (live_certs p)(Suc (allocs p) \<mapsto> signed_cert caKey (fill_in (allocs p)))"
  using generate_entity_heap [OF assms] by (cases r) (auto simp: heap_fields)

lemma generatePki_cases:
  assumes ok: "pki_ok p"
  obtains (failed) p' where "generatePki env ps p = (False, p')" "heap p' = heap p" "files p' = files p"
  | (made) q ca srv cli n where "n = allocs p"
      "(ca, srv, cli) = pki_chain env n"
      "live_certs q = (live_certs p)(Suc n \<mapsto> ca, n + 3 \<mapsto> srv, n + 5 \<mapsto> cli)"
      "live_keys q = {n, n + 2, n + 4} \<union> live_keys p" "live_pctx q = live_pctx p" "files q = files p"
      "generatePki env ps p = (fst (write_all env ps (n, Suc n) (n + 2, n + 3) (n + 4, n + 5) q),
         release_pair (n, Suc n) (release_pair (n + 2, n + 3) (release_pair (n + 4, n + 5)
           (snd (write_all env ps (n, Suc n) (n + 2, n + 3) (n + 4, n + 5) q)))))"
proof -
  define n where "n = allocs p"
  define ca where "ca = signed_cert n (ca_cert env n)"
  note gone = pki_ok_ge [OF ok]
  obtain r1 p1 where g1: "generate_ca env p = (r1, p1)" by (cases "generate_ca env p")
  then have e1: "generate_entity env n (ca_cert env) (\<lambda>q. q) p = (r1, p1)"
    by (simp add: generate_ca_entity [OF ok] n_def)
  from ok releasing_id e1 show thesis
  proof (cases rule: generate_entity_cases)
    case none
    then show thesis using g1 by (intro failed [of p1]) (simp_all add: generatePki_def)
  next
    case ca: some
    let ?ca = "(n, Suc n)"
    have cert: "cert (Suc n) p1 = ca" using ca by (simp add: cert_def ca_def n_def)
    obtain r2 p2 where g2: "generate_server env ?ca p1 = (r2, p2)"
      by (cases "generate_server env ?ca p1")
    then have "generate_entity env n (server_cert env ca) (release_pair ?ca) p1 = (r2, p2)"
      by (simp add: generate_server_def cert)
    from ca(2) releasing_pair this show thesis
    proof (cases rule: generate_entity_cases)
      case none
      then have "heap p2 = heap p" using ca gone [of n] gone [of "Suc n"]
        by (simp add: heap_def n_def fun_upd_idem_iff)
      with none ca g1 g2 show thesis
        by (intro failed [of p2]) (simp_all add: generatePki_def n_def)
    next
      case srv: some
      let ?srv = "(n + 2, n + 3)"
      obtain r3 p3 where g3: "generate_client env ?ca ?srv p2 = (r3, p3)"
        by (cases "generate_client env ?ca ?srv p2")
      have cert2: "cert (Suc n) p2 = ca" using srv ca by (simp add: cert_def ca_def n_def)
      have "generate_entity env n (client_cert env ca) (\<lambda>q. release_pair ?ca (release_pair ?srv q)) p2 = (r3, p3)"
        using g3 by (simp add: generate_client_def cert2)
      from srv(2) releasing_comp [OF releasing_pair releasing_pair] this show thesis
      proof (cases rule: generate_entity_cases)
        case none
        then have "heap p3 = heap p"
          using srv ca gone [of n] gone [of "Suc n"] gone [of "n + 2"] gone [of "n + 3"]
          by (auto simp: heap_def n_def fun_upd_idem_iff eval_nat_numeral)
        with none srv ca g1 g2 g3 show thesis
          by (intro failed [of p3]) (simp_all add: generatePki_def n_def eval_nat_numeral)
      next
        case cli: some
        show thesis
        proof (rule made)
          show "n = allocs p" by (fact n_def)
          show "(ca, signed_cert n (server_cert env ca (n + 2)), signed_cert n (client_cert env ca (n + 4))) =
              pki_chain env n"
            by (simp add: pki_chain_def ca_def Let_def)
          show "live_certs p3 = (live_certs p)(Suc n \<mapsto> ca, n + 3 \<mapsto> signed_cert n (server_cert env ca (n + 2)),
              n + 5 \<mapsto> signed_cert n (client_cert env ca (n + 4)))"
            using cli srv ca by (simp add: n_def ca_def eval_nat_numeral)
          show "live_keys p3 = {n, n + 2, n + 4} \<union> live_keys p" "live_pctx p3 = live_pctx p"
            "files p3 = files p"
            using cli srv ca by (auto simp: n_def eval_nat_numeral)
          show "generatePki env ps p = (fst (write_all env ps (n, Suc n) (n + 2, n + 3) (n + 4, n + 5) p3),
              release_pair (n, Suc n) (release_pair (n + 2, n + 3) (release_pair (n + 4, n + 5)
                (snd (write_all env ps (n, Suc n) (n + 2, n + 3) (n + 4, n + 5) p3)))))"
            using cli srv ca g1 g2 g3
            by (simp add: generatePki_def n_def eval_nat_numeral case_prod_beta Let_def)
        qed
      qed
    qed
  qed
qed

section \<open>Properties\<close>


text \<open>An environment in which all goes well, and one in which the second key pair fails.\<close>

definition good_env :: "nat \<Rightarrow> pki_env" where
  "good_env bad = \<lparr>pkey_ctx_new = (\<lambda>_. True), keygen_init = (\<lambda>_. 1), set_keygen_bits = (\<lambda>_ _. 1),
     keygen = (\<lambda>n. if n = bad then (0, False) else (1, True)), cert_new = (\<lambda>_. True),
     ext_conf = (\<lambda>_ _. True), sign_cert = (\<lambda>_. True), can_open = (\<lambda>path. path \<noteq> ''''),
     pem_write = (\<lambda>_. 1)\<rparr>"

definition default_paths :: pki_paths where
  "default_paths = \<lparr>caCertPath = ''ca.crt'', caKeyPath = ''ca.key'', certPath = ''server.crt'',
     keyPath = ''server.key'', clientCertPath = ''client.crt'', clientKeyPath = ''client.key''\<rparr>"

definition empty_pki :: "(string \<rightharpoonup> file_data) \<Rightarrow> pki" where
  "empty_pki fs = \<lparr>allocs = 0, live_pctx = {}, live_keys = {}, live_certs = Map.empty, files = fs\<rparr>"

lemma pki_ok_empty: "pki_ok (empty_pki fs)"
  by (simp add: pki_ok_def empty_pki_def)


lemma writePrivateKey_ok:
  "fst (writePrivateKey env path k p) \<Longrightarrow>
     snd (writePrivateKey env path k p) = p\<lparr>files := (files p)(path \<mapsto> Private_key k)\<rparr>"
  by (simp add: writePrivateKey_def Let_def split: if_splits)

lemma writeCert_ok:
  "fst (writeCert env path x p) \<Longrightarrow>
     snd (writeCert env path x p) = p\<lparr>files := (files p)(path \<mapsto> Certificate (cert x p))\<rparr>"
  by (simp add: writeCert_def Let_def cert_def split: if_splits)

lemma cert_files [simp]: "cert x (p\<lparr>files := f\<rparr>) = cert x p"
  by (simp add: cert_def)

lemma write_all_can_open:
  "fst (write_all env ps ca srv cli p) \<Longrightarrow> can_open env (caCertPath ps)"
  by (auto simp: write_all_def Let_def case_prod_beta writeCert_def split: if_splits)

lemma write_all_ok:
  assumes "fst (write_all env ps ca srv cli p)"
  shows "snd (write_all env ps ca srv cli p) = p\<lparr>files := (files p)
    (caKeyPath ps \<mapsto> Private_key (fst ca), caCertPath ps \<mapsto> Certificate (cert (snd ca) p),
     keyPath ps \<mapsto> Private_key (fst srv), certPath ps \<mapsto> Certificate (cert (snd srv) p),
     clientKeyPath ps \<mapsto> Private_key (fst cli), clientCertPath ps \<mapsto> Certificate (cert (snd cli) p))\<rparr>"
  using assms
  by (simp add: write_all_def Let_def case_prod_beta writePrivateKey_ok writeCert_ok cong: conj_cong)

lemma generatePki_can_open:
  assumes "pki_ok p" "fst (generatePki env ps p)"
  shows "can_open env (caCertPath ps)"
  using assms(1)
proof (cases rule: generatePki_cases [where env = env and ps = ps])
  case (failed p')
  with assms(2) show ?thesis by simp
next
  case (made q ca srv cli n)
  with assms(2) show ?thesis by (simp add: write_all_can_open)
qed

lemma add_ext_fields [simp]:
  "pubkey (snd (add_ext env n v c)) = pubkey c" "subject (snd (add_ext env n v c)) = subject c"
  "issuer (snd (add_ext env n v c)) = issuer c"
  "pubkey (snd (add_ext_signed env i n v c)) = pubkey c"
  "subject (snd (add_ext_signed env i n v c)) = subject c"
  "issuer (snd (add_ext_signed env i n v c)) = issuer c"
  by (simp_all add: add_ext_def add_ext_signed_def)

lemma signed_cert_fields [simp]:
  "pubkey (signed_cert k f) = pubkey (f blank_x509)" "signed_by (signed_cert k f) = Some k"
  "subject (signed_cert k f) = subject (f blank_x509)" "issuer (signed_cert k f) = issuer (f blank_x509)"
  by (simp_all add: signed_cert_def)

lemma made_cert_fields [simp]:
  "pubkey (ca_cert env k c) = Some k" "issuer (ca_cert env k c) = subject (ca_cert env k c)"
  "pubkey (server_cert env ca k c) = Some k" "issuer (server_cert env ca k c) = subject ca"
  "pubkey (client_cert env ca k c) = Some k" "issuer (client_cert env ca k c) = subject ca"
  by (simp_all add: ca_cert_def server_cert_def client_cert_def fill_def Let_def)

lemma generatePki_chain:
  assumes "pki_ok p" "fst (generatePki env ps p)"
  shows "\<exists>k ks kc ca srv cli.
    files (snd (generatePki env ps p)) = (files p)
      (caKeyPath ps \<mapsto> Private_key k, caCertPath ps \<mapsto> Certificate ca,
       keyPath ps \<mapsto> Private_key ks, certPath ps \<mapsto> Certificate srv,
       clientKeyPath ps \<mapsto> Private_key kc, clientCertPath ps \<mapsto> Certificate cli) \<and>
    k \<noteq> ks \<and> k \<noteq> kc \<and> ks \<noteq> kc \<and>
    pubkey ca = Some k \<and> pubkey srv = Some ks \<and> pubkey cli = Some kc \<and>
    signed_by ca = Some k \<and> signed_by srv = Some k \<and> signed_by cli = Some k \<and>
    issuer ca = subject ca \<and> issuer srv = subject ca \<and> issuer cli = subject ca"
  using assms(1)
proof (cases rule: generatePki_cases [where env = env and ps = ps])
  case (failed p')
  with assms(2) show ?thesis by simp
next
  case (made q ca srv cli n)
  have w: "fst (write_all env ps (n, Suc n) (n + 2, n + 3) (n + 4, n + 5) q)"
    using assms(2) by (simp add: made(7))
  have certs: "cert (Suc n) q = ca" "cert (n + 3) q = srv" "cert (n + 5) q = cli"
    by (simp_all add: cert_def made(3))
  have chain: "pubkey ca = Some n" "pubkey srv = Some (n + 2)" "pubkey cli = Some (n + 4)"
    "signed_by ca = Some n" "signed_by srv = Some n" "signed_by cli = Some n"
    "issuer ca = subject ca" "issuer srv = subject ca" "issuer cli = subject ca"
    using made(2) by (simp_all add: pki_chain_def Let_def)
  have files: "files (snd (generatePki env ps p)) = (files p)
      (caKeyPath ps \<mapsto> Private_key n, caCertPath ps \<mapsto> Certificate ca,
       keyPath ps \<mapsto> Private_key (n + 2), certPath ps \<mapsto> Certificate srv,
       clientKeyPath ps \<mapsto> Private_key (n + 4), clientCertPath ps \<mapsto> Certificate cli)"
    unfolding made(7) snd_conv release_pair_fields write_all_ok [OF w] using made(6) by (simp add: certs)
  show ?thesis
    by (rule exI [of _ n], rule exI [of _ "n + 2"], rule exI [of _ "n + 4"], rule exI [of _ ca],
        rule exI [of _ srv], rule exI [of _ cli], intro conjI)
      (fact files chain | simp)+
qed


lemmas pki_eval = generatePki_def generate_ca_def generate_server_def generate_client_def
  generate_entity_def generateKeyPair_def X509_new_def X509_sign_def write_all_def
  writePrivateKey_def writeCert_def good_env_def default_paths_def empty_pki_def


end
