(* ===== verification/Daemon_Main.thy ===== *)
theory Daemon_Main
  imports Pki Sil_Relay_Controller Rpc_Methods Tcp_Server
begin

text \<open>
  main() of the daemon (src/main.cc): the command line, the certificates made when TLS is
  asked for and a file is missing, and the start of device, router and server, up to the
  point where the main thread waits for a signal.
\<close>

section \<open>The command line\<close>

record options = pki_paths +
  useSsl :: bool
  useMtls :: bool

definition default_options :: options where
  "default_options = \<lparr>caCertPath = ''ca.crt'', caKeyPath = ''ca.key'', certPath = ''server.crt'',
     keyPath = ''server.key'', clientCertPath = ''client.crt'', clientKeyPath = ''client.key'',
     useSsl = False, useMtls = False\<rparr>"

text \<open>
  The loop over argv from index 1; \<open>None\<close> when it prints the help and returns 0. An option
  that wants a value and is the last argument falls through the tests like an unknown one.
\<close>

fun parse_args :: "string list \<Rightarrow> options \<Rightarrow> options option" where
  "parse_args [] opts = Some opts"
| "parse_args (arg # rest) opts =
     (if arg = ''--ssl'' then parse_args rest (opts\<lparr>useSsl := True\<rparr>)
      else if arg = ''--mtls'' then parse_args rest (opts\<lparr>useSsl := True, useMtls := True\<rparr>)
      else if arg = ''--ca'' \<and> rest \<noteq> [] then parse_args (tl rest) (opts\<lparr>caCertPath := hd rest\<rparr>)
      else if arg = ''--cert'' \<and> rest \<noteq> [] then parse_args (tl rest) (opts\<lparr>certPath := hd rest\<rparr>)
      else if arg = ''--key'' \<and> rest \<noteq> [] then parse_args (tl rest) (opts\<lparr>keyPath := hd rest\<rparr>)
      else if arg = ''--help'' \<or> arg = ''-h'' then None
      else parse_args rest opts)"

section \<open>Starting the daemon\<close>

definition exists_file :: "pki \<Rightarrow> string \<Rightarrow> bool" where
  "exists_file p path \<longleftrightarrow> files p path \<noteq> None"

definition pki_missing :: "options \<Rightarrow> pki \<Rightarrow> bool" where
  "pki_missing opts p \<longleftrightarrow>
     \<not> exists_file p (caCertPath opts) \<or> \<not> exists_file p (caKeyPath opts) \<or>
     \<not> exists_file p (certPath opts) \<or> \<not> exists_file p (keyPath opts) \<or>
     \<not> exists_file p (clientCertPath opts) \<or> \<not> exists_file p (clientKeyPath opts)"

definition ensure_pki :: "pki_env \<Rightarrow> options \<Rightarrow> pki \<Rightarrow> bool \<times> pki" where
  "ensure_pki env opts p =
     (if useSsl opts \<and> pki_missing opts p then generatePki env (pki_paths.truncate opts) p
      else (True, p))"

record 'hw daemon =
  disk :: pki
  device :: "'hw controller"
  rpc_router :: "'hw controller router"
  tcp :: tcp_server

datatype 'hw outcome = Exited int pki "'hw controller" | Serving "'hw daemon"

definition PORT :: int where
  "PORT = 9000"

text \<open>
  The first part of main(), until the main thread waits. On a fatal return the destructor of
  the controller runs.
\<close>

definition main_start :: "pki_env \<Rightarrow> 'hw hw_ops \<Rightarrow> server_env \<Rightarrow> json_lib \<Rightarrow> string list \<Rightarrow>
    'hw controller \<Rightarrow> pki \<Rightarrow> 'hw outcome" where
  "main_start env ops senv L args c p =
     (case parse_args args default_options of
        None \<Rightarrow> Exited 0 p c
      | Some opts \<Rightarrow>
          let (pki_made, p1) = ensure_pki env opts p
          in if \<not> pki_made then Exited 1 p1 c
             else let (ready, c1) = init ops c
               in if \<not> ready then Exited 1 p1 (destroyController c1)
                  else let r = daemon_router L (base_device ops);
                           (listening, v) = start senv (TcpServer PORT (useSsl opts) (useMtls opts)
                             (caCertPath opts) (certPath opts) (keyPath opts))
                    in if \<not> listening then Exited 1 p1 (destroyController c1)
                       else Serving \<lparr>disk = p1, device = c1, rpc_router = r, tcp = v\<rparr>)"

section \<open>What the parts promise\<close>

text \<open>The turns of the loop, by the option it meets.\<close>

lemma parse_args_cases:
  assumes "parse_args (arg # rest) opts = Some opts'"
  obtains (tls) "arg = ''--ssl''" "parse_args rest (opts\<lparr>useSsl := True\<rparr>) = Some opts'"
  | (mtls) "arg = ''--mtls''" "parse_args rest (opts\<lparr>useSsl := True, useMtls := True\<rparr>) = Some opts'"
  | (ca) "rest \<noteq> []" "parse_args (tl rest) (opts\<lparr>caCertPath := hd rest\<rparr>) = Some opts'"
  | (crt) "rest \<noteq> []" "parse_args (tl rest) (opts\<lparr>certPath := hd rest\<rparr>) = Some opts'"
  | (key) "rest \<noteq> []" "parse_args (tl rest) (opts\<lparr>keyPath := hd rest\<rparr>) = Some opts'"
  | (skip) "parse_args rest opts = Some opts'"
proof -
  let ?v = "rest \<noteq> []"
  consider "arg = ''--ssl''" | "arg = ''--mtls''" | "arg = ''--ca''" ?v | "arg = ''--cert''" ?v
    | "arg = ''--key''" ?v | "arg = ''--help'' \<or> arg = ''-h''"
    | "arg \<noteq> ''--ssl''" "arg \<noteq> ''--mtls''" "\<not> (arg = ''--ca'' \<and> ?v)" "\<not> (arg = ''--cert'' \<and> ?v)"
      "\<not> (arg = ''--key'' \<and> ?v)" "\<not> (arg = ''--help'' \<or> arg = ''-h'')" by satx
  then show thesis
  proof cases
    case 1 with assms show thesis by (intro tls) simp_all
  next
    case 2 with assms show thesis by (intro mtls) simp_all
  next
    case 3 with assms show thesis by (intro ca) simp_all
  next
    case 4 with assms show thesis by (intro crt) simp_all
  next
    case 5 with assms show thesis by (intro key) simp_all
  next
    case 6 with assms show thesis by auto
  next
    case 7
    then have "parse_args (arg # rest) opts = parse_args rest opts"
      by (simp only: parse_args.simps if_False simp_thms)
    with assms show thesis by (intro skip) simp
  qed
qed

text \<open>Whatever the options, what they keep is kept by the loop.\<close>

lemma parse_args_induct:
  assumes "parse_args args opts = Some opts'" "P args opts"
    and "\<And>rest opts. P (''--ssl'' # rest) opts \<Longrightarrow> P rest (opts\<lparr>useSsl := True\<rparr>)"
    and "\<And>rest opts. P (''--mtls'' # rest) opts \<Longrightarrow> P rest (opts\<lparr>useSsl := True, useMtls := True\<rparr>)"
    and "\<And>arg v rest opts. P (arg # v # rest) opts \<Longrightarrow> P rest (opts\<lparr>caCertPath := v\<rparr>)"
    and "\<And>arg v rest opts. P (arg # v # rest) opts \<Longrightarrow> P rest (opts\<lparr>certPath := v\<rparr>)"
    and "\<And>arg v rest opts. P (arg # v # rest) opts \<Longrightarrow> P rest (opts\<lparr>keyPath := v\<rparr>)"
    and "\<And>arg rest opts. P (arg # rest) opts \<Longrightarrow> P rest opts"
  shows "P [] opts'"
  using assms(1,2)
proof (induction "length args" arbitrary: args opts rule: less_induct)
  case less
  show ?case
  proof (cases args)
    case Nil
    with less.prems show ?thesis by simp
  next
    case (Cons arg rest)
    have step: "P [] opts'" if "parse_args as os = Some opts'" "P as os" "length as \<le> length rest" for as os
      using less.hyps [of as os] that Cons by simp
    have tl: "rest = hd rest # tl rest" if "rest \<noteq> []" using that by simp
    from less.prems(1) [unfolded Cons] show ?thesis
    proof (cases rule: parse_args_cases)
      case tls
      with less.prems(2) Cons show ?thesis by (intro step [OF tls(2)]) (simp_all add: assms(3))
    next
      case mtls
      with less.prems(2) Cons show ?thesis by (intro step [OF mtls(2)]) (simp_all add: assms(4))
    next
      case ca
      with less.prems(2) Cons tl assms(5) [of arg "hd rest" "tl rest" opts] show ?thesis
        by (intro step [OF ca(2)]) simp_all
    next
      case crt
      with less.prems(2) Cons tl assms(6) [of arg "hd rest" "tl rest" opts] show ?thesis
        by (intro step [OF crt(2)]) simp_all
    next
      case key
      with less.prems(2) Cons tl assms(7) [of arg "hd rest" "tl rest" opts] show ?thesis
        by (intro step [OF key(2)]) simp_all
    next
      case skip
      with less.prems(2) Cons assms(8) [of arg rest opts] show ?thesis
        by (intro step [OF skip]) simp_all
    qed
  qed
qed

lemma parse_mtls_ssl:
  assumes "parse_args args opts = Some opts'" "useMtls opts \<longrightarrow> useSsl opts"
  shows "useMtls opts' \<longrightarrow> useSsl opts'"
  by (rule parse_args_induct [OF assms(1), of "\<lambda>_ os. useMtls os \<longrightarrow> useSsl os"])
    (use assms(2) in simp_all)

lemma parse_plain:
  assumes "parse_args args opts = Some opts'" "''--ssl'' \<notin> set args" "''--mtls'' \<notin> set args"
    and "\<not> useSsl opts" "\<not> useMtls opts"
  shows "\<not> useSsl opts' \<and> \<not> useMtls opts'"
proof -
  have "''--ssl'' \<notin> set [] \<and> ''--mtls'' \<notin> set [] \<and> \<not> useSsl opts' \<and> \<not> useMtls opts'"
    by (rule parse_args_induct [OF assms(1), of "\<lambda>as os. ''--ssl'' \<notin> set as \<and> ''--mtls'' \<notin> set as \<and>
      \<not> useSsl os \<and> \<not> useMtls os"]) (use assms(2-) in simp_all)
  then show ?thesis by simp
qed

abbreviation server_of :: "options \<Rightarrow> tcp_server" where
  "server_of opts \<equiv> TcpServer PORT (useSsl opts) (useMtls opts) (caCertPath opts) (certPath opts) (keyPath opts)"

lemma main_Serving:
  assumes "main_start env ops senv L args c p = Serving d"
  obtains opts where "parse_args args default_options = Some opts"
    "ensure_pki env opts p = (True, disk d)" "init ops c = (True, device d)"
    "rpc_router d = daemon_router L (base_device ops)"
    "start senv (server_of opts) = (True, tcp d)"
proof -
  obtain opts where opts: "parse_args args default_options = Some opts"
    using assms by (cases "parse_args args default_options") (simp_all add: main_start_def)
  obtain made p1 where p1: "ensure_pki env opts p = (made, p1)" by (cases "ensure_pki env opts p")
  have made using assms by (cases made) (simp_all add: main_start_def opts p1)
  obtain ready c1 where c1: "init ops c = (ready, c1)" by (cases "init ops c")
  have ready using assms by (cases ready) (simp_all add: main_start_def opts p1 c1 \<open>made\<close>)
  obtain listening v where v: "start senv (server_of opts) = (listening, v)"
    by (cases "start senv (server_of opts)")
  have listening
    using assms by (cases listening) (simp_all add: main_start_def opts p1 c1 v \<open>made\<close> \<open>ready\<close>)
  with assms have "d = \<lparr>disk = p1, device = c1, rpc_router = daemon_router L (base_device ops), tcp = v\<rparr>"
    by (simp add: main_start_def opts p1 c1 v \<open>made\<close> \<open>ready\<close>)
  with opts p1 c1 v \<open>made\<close> \<open>ready\<close> \<open>listening\<close> show thesis by (intro that [of opts]) simp_all
qed

lemma TcpServer_ready:
  "stopped (TcpServer port tls mtls ca crt key)" "env_fresh senv (TcpServer port tls mtls ca crt key)"
  by (simp_all add: stopped_def env_fresh_def TcpServer_def)

lemma TcpServer_fields [simp]:
  "m_useSsl (TcpServer port tls mtls ca crt key) = tls" "m_useMtls (TcpServer port tls mtls ca crt key) = mtls"
  "m_caPath (TcpServer port tls mtls ca crt key) = ca" "open_fds (TcpServer port tls mtls ca crt key) = {}"
  by (simp_all add: TcpServer_def)

text \<open>With certificates in place, however they came there, the path of the CA is a file.\<close>

lemma ensure_pki_ca:
  assumes "pki_ok p" "ensure_pki env opts p = (True, p1)" "useSsl opts"
    and "files p '''' = None" "\<not> can_open env ''''"
  shows "caCertPath opts \<noteq> ''''"
proof (cases "pki_missing opts p")
  case False
  then show ?thesis using assms(4) by (auto simp: pki_missing_def exists_file_def)
next
  case True
  let ?ps = "pki_paths.truncate opts"
  have "fst (generatePki env ?ps p)" using True assms(2,3) by (simp add: ensure_pki_def)
  from generatePki_can_open [OF assms(1) this] show ?thesis
    using assms(5) by (auto simp: pki_paths.defs)
qed

section \<open>Properties\<close>

text \<open>A start of the simulated daemon on an empty disk.\<close>

definition demo_start :: "string list \<Rightarrow> string list outcome" where
  "demo_start args = main_start (good_env 99) sil_ops (example_env 0) (table_lib []) args
     (BaseRelayController SilRelayController (\<lambda>_. 0)) (empty_pki Map.empty)"

lemma demo_ready: "init sil_ops (BaseRelayController SilRelayController clk) =
  (True, (BaseRelayController SilRelayController clk)
     \<lparr>hw := [sil_init_line], m_running := True, m_tickThread := True\<rparr>)"
  by (simp add: init_def sil_ops_def sil_initHardware_def SilRelayController_def)

lemma good_pki: "fst (generatePki (good_env 99) default_paths (empty_pki Map.empty))"
  by (simp add: pki_eval)

lemma demo_pki: "fst (ensure_pki (good_env 99) (default_options\<lparr>useSsl := s, useMtls := m\<rparr>) (empty_pki Map.empty))"
  using good_pki by (simp add: ensure_pki_def default_options_def pki_paths.defs default_paths_def)

lemma demo_listen:
  "fst (start (example_env 0) (TcpServer port tls mtls ca crt key))"
  by (simp add: start_def start_tls_def start_socket_def TcpServer_def example_env_def Let_def case_prod_beta)

lemma demo_serving:
  assumes "parse_args args default_options = Some (default_options\<lparr>useSsl := s, useMtls := m\<rparr>)"
  shows "\<exists>d. demo_start args = Serving d"
proof -
  let ?o = "default_options\<lparr>useSsl := s, useMtls := m\<rparr>"
  obtain p1 where p1: "ensure_pki (good_env 99) ?o (empty_pki Map.empty) = (True, p1)"
    using demo_pki [where s = s and m = m] by (cases "ensure_pki (good_env 99) ?o (empty_pki Map.empty)") simp
  obtain v where v: "start (example_env 0) (server_of ?o) = (True, v)"
    using demo_listen by (cases "start (example_env 0) (server_of ?o)") (metis fst_conv)
  show ?thesis
    unfolding demo_start_def main_start_def assms option.case p1 Let_def case_prod_conv demo_ready v by simp
qed

lemma parse_one:
  "parse_args [''--mtls''] default_options = Some (default_options\<lparr>useSsl := True, useMtls := True\<rparr>)"
  "parse_args [] default_options = Some (default_options\<lparr>useSsl := False, useMtls := False\<rparr>)"
  by (simp_all add: default_options_def)

lemma daemon_method_names:
  "map fst (m_methods (daemon_router L dev)) =
     [''get_relay_status'', ''get_relays'', ''set_relay'', ''start_blink'', ''start_pulse'', ''start_timer'']"
  by (simp add: router_defs)

text \<open>
  C23: A daemon started with mutual TLS on never serves without it: when main() gets as far as
  waiting for a signal, the server has a TLS context that demands a client certificate.
  (An empty path is never a file and cannot be opened; with it the start fails.)
\<close>

theorem mtls_is_enforced:
  assumes "main_start env ops senv L args c p = Serving d"
    and "parse_args args default_options = Some opts" "useMtls opts"
    and "pki_ok p" "files p '''' = None" "\<not> can_open env ''''"
  shows "\<exists>ctx. m_sslCtx (tcp d) = Some ctx \<and> ctx \<in> live_ctx (tcp d) \<and> ctx \<in> verifying (tcp d)"
proof -
  obtain opts' where "parse_args args default_options = Some opts'"
    "ensure_pki env opts' p = (True, disk d)" "init ops c = (True, device d)"
    "rpc_router d = daemon_router L (base_device ops)"
    "start senv (server_of opts') = (True, tcp d)"
    by (rule main_Serving [OF assms(1)])
  with assms(2) have pki: "ensure_pki env opts p = (True, disk d)"
    and st: "start senv (server_of opts) = (True, tcp d)" by simp_all
  have tls: "useSsl opts"
    using parse_mtls_ssl [OF assms(2)] assms(3) by (simp add: default_options_def)
  have ca: "caCertPath opts \<noteq> ''''" by (rule ensure_pki_ca [OF assms(4) pki tls assms(5,6)])
  show ?thesis
    using start_success [OF TcpServer_ready, of senv PORT "useSsl opts" "useMtls opts" "caCertPath opts"
        "certPath opts" "keyPath opts"] st tls ca assms(3) by auto
qed

theorem mtls_is_enforced_witness:
  "\<exists>d ctx. demo_start [''--mtls''] = Serving d \<and> m_sslCtx (tcp d) = Some ctx \<and> ctx \<in> verifying (tcp d)"
proof -
  obtain d where d: "demo_start [''--mtls''] = Serving d"
    using demo_serving [OF parse_one(1)] by blast
  have "files (empty_pki Map.empty) '''' = None" "\<not> can_open (good_env 99) ''''"
    by (simp_all add: empty_pki_def good_env_def)
  from mtls_is_enforced [OF d [unfolded demo_start_def] parse_one(1) _ pki_ok_empty this] d
  show ?thesis by auto
qed

text \<open>
  Without --ssl and --mtls on the command line the daemon makes no certificate, touches no
  file and serves in plain text.
\<close>

theorem plain_by_default:
  assumes "main_start env ops senv L args c p = Serving d"
    and "''--ssl'' \<notin> set args" "''--mtls'' \<notin> set args"
  shows "disk d = p \<and> m_sslCtx (tcp d) = None \<and> srv_running (tcp d)"
proof -
  obtain opts where opts: "parse_args args default_options = Some opts"
    and pki: "ensure_pki env opts p = (True, disk d)" and "init ops c = (True, device d)"
    and "rpc_router d = daemon_router L (base_device ops)"
    and st: "start senv (server_of opts) = (True, tcp d)"
    by (rule main_Serving [OF assms(1)])
  have tls: "\<not> useSsl opts"
    using parse_plain [OF opts assms(2,3)] by (simp add: default_options_def)
  show ?thesis
    using start_success [OF TcpServer_ready, of senv PORT "useSsl opts" "useMtls opts" "caCertPath opts"
        "certPath opts" "keyPath opts"] st tls pki by (simp add: ensure_pki_def)
qed

theorem plain_by_default_witness: "\<exists>d. demo_start [] = Serving d \<and> m_sslCtx (tcp d) = None"
proof -
  obtain d where d: "demo_start [] = Serving d"
    using demo_serving [OF parse_one(2)] by blast
  from plain_by_default [OF d [unfolded demo_start_def]] d show ?thesis by simp
qed

text \<open>
  Whenever the daemon serves, its controller is in a state that init and the steps of the
  system reach, so that the invariant of the channels holds from the first request on, and
  the router it serves has the six methods.
\<close>

theorem serving_device_ready:
  assumes "main_start env ops senv L args (BaseRelayController h clk) p = Serving d" "clock_ok clk"
  shows "ctrl_reachable ops h (device d) \<and> m_running (device d) \<and>
    map fst (m_methods (rpc_router d)) =
      [''get_relay_status'', ''get_relays'', ''set_relay'', ''start_blink'', ''start_pulse'', ''start_timer'']"
proof -
  obtain opts where "parse_args args default_options = Some opts"
    and "ensure_pki env opts p = (True, disk d)"
    and ini: "init ops (BaseRelayController h clk) = (True, device d)"
    and r: "rpc_router d = daemon_router L (base_device ops)"
    and "start senv (server_of opts) = (True, tcp d)"
    by (rule main_Serving [OF assms(1)])
  have "ctrl_reachable ops h (device d)" using assms(2) ini by (rule reach_init)
  moreover have "m_running (device d)" by (rule init_True [OF ini]) simp
  moreover have "map fst (m_methods (rpc_router d)) =
      [''get_relay_status'', ''get_relays'', ''set_relay'', ''start_blink'', ''start_pulse'', ''start_timer'']"
    unfolding r by (rule daemon_method_names)
  ultimately show ?thesis by simp
qed

theorem serving_device_ready_witness:
  "\<exists>d. demo_start [] = Serving d \<and> m_running (device d)"
proof -
  obtain d where d: "demo_start [] = Serving d"
    using demo_serving [OF parse_one(2)] by blast
  have "clock_ok (\<lambda>_. 0)" by (simp add: clock_ok_def mono_def)
  from serving_device_ready [OF d [unfolded demo_start_def] this] d show ?thesis by auto
qed

end
