(* ===== verification/Daemon_Run.thy ===== *)
theory Daemon_Run
  imports Daemon_Main Server_Threads
begin

text \<open>
  The rest of main() of the daemon (src/main.cc): the wait for a signal, the signal handler,
  stop() and the return, as steps that interleave with the threads of the server. The handler
  runs on some thread of the process, on top of what that thread was doing.
\<close>

section \<open>State\<close>

text \<open>
  Where the main thread is: before the lock of g_shutdownMutex, at the test of wait() with the
  mutex held, blocked in wait() without it, in stop(), and after the return. And where the
  handler is: not running, before its lock, before the assignment, before notify_one.
\<close>

datatype main_pc = M_lock | M_test | M_blocked | M_stop | M_return int

datatype handler_pc = H_none | H_lock | H_set | H_notify

datatype holder = By_main | By_handler

record process =
  main_at :: main_pc
  handler_at :: handler_pc
  on_main :: bool
  g_shutdownMutex :: "holder option"
  g_shutdownRequested :: bool
  notified :: bool
  srv :: world

definition serving :: "'hw daemon \<Rightarrow> process" where
  "serving d = \<lparr>main_at = M_lock, handler_at = H_none, on_main = False, g_shutdownMutex = None,
     g_shutdownRequested = False, notified = False, srv = init_world (tcp d)\<rparr>"

text \<open>The main thread goes on unless the handler runs on it.\<close>

definition main_runs :: "process \<Rightarrow> bool" where
  "main_runs p \<longleftrightarrow> \<not> (handler_at p \<noteq> H_none \<and> on_main p)"

section \<open>Steps\<close>

text \<open>
  \<open>apart\<close> tells that the handler is not run on the main thread while that thread holds the
  mutex; \<open>own\<close> whether the step needs nobody outside of the process. One handler runs at a time.
\<close>

inductive handler_step :: "bool \<Rightarrow> bool \<Rightarrow> process \<Rightarrow> process \<Rightarrow> bool" for apart where
  signal: "handler_at p = H_none \<Longrightarrow> apart \<longrightarrow> \<not> (on \<and> g_shutdownMutex p = Some By_main) \<Longrightarrow>
    handler_step apart False p (p\<lparr>handler_at := H_lock, on_main := on\<rparr>)"
| lock: "handler_at p = H_lock \<Longrightarrow> g_shutdownMutex p = None \<Longrightarrow>
    handler_step apart True p (p\<lparr>handler_at := H_set, g_shutdownMutex := Some By_handler\<rparr>)"
| request: "handler_at p = H_set \<Longrightarrow>
    handler_step apart True p (p\<lparr>handler_at := H_notify, g_shutdownMutex := None, g_shutdownRequested := True\<rparr>)"
| notify: "handler_at p = H_notify \<Longrightarrow>
    handler_step apart True p (p\<lparr>handler_at := H_none, notified := notified p \<or> main_at p = M_blocked\<rparr>)"

inductive main_step :: "bool \<Rightarrow> process \<Rightarrow> process \<Rightarrow> bool" where
  lock: "main_runs p \<Longrightarrow> main_at p = M_lock \<Longrightarrow> g_shutdownMutex p = None \<Longrightarrow>
    main_step True p (p\<lparr>main_at := M_test, g_shutdownMutex := Some By_main\<rparr>)"
| leave: "main_runs p \<Longrightarrow> main_at p = M_test \<Longrightarrow> g_shutdownRequested p \<Longrightarrow>
    main_step True p (p\<lparr>main_at := M_stop, g_shutdownMutex := None\<rparr>)"
| block: "main_runs p \<Longrightarrow> main_at p = M_test \<Longrightarrow> \<not> g_shutdownRequested p \<Longrightarrow>
    main_step True p (p\<lparr>main_at := M_blocked, g_shutdownMutex := None, notified := False\<rparr>)"
| wake: "main_runs p \<Longrightarrow> main_at p = M_blocked \<Longrightarrow> g_shutdownMutex p = None \<Longrightarrow>
    main_step (notified p) p (p\<lparr>main_at := M_test, g_shutdownMutex := Some By_main\<rparr>)"
| stop: "main_runs p \<Longrightarrow> main_at p = M_stop \<Longrightarrow> stop_step (srv p) w \<Longrightarrow> main_step True p (p\<lparr>srv := w\<rparr>)"
| return: "main_runs p \<Longrightarrow> main_at p = M_stop \<Longrightarrow> stopper (srv p) = S_end \<Longrightarrow>
    main_step True p (p\<lparr>main_at := M_return 0\<rparr>)"

inductive process_step :: "bool \<Rightarrow> bool \<Rightarrow> process \<Rightarrow> process \<Rightarrow> bool" for apart own where
  handler: "handler_step apart own p p' \<Longrightarrow> process_step apart own p p'"
| main: "main_step own p p' \<Longrightarrow> process_step apart own p p'"
| listener: "listener_step False own (srv p) w \<Longrightarrow> process_step apart own p (p\<lparr>srv := w\<rparr>)"
| client: "client_step own (srv p) w \<Longrightarrow> process_step apart own p (p\<lparr>srv := w\<rparr>)"

definition any_step :: "bool \<Rightarrow> process \<Rightarrow> process \<Rightarrow> bool" where
  "any_step apart p p' \<longleftrightarrow> (\<exists>own. process_step apart own p p')"

section \<open>Invariant\<close>

text \<open>Who holds the mutex, that no wake-up is lost, and how far main() and the server are.\<close>

definition process_inv :: "bool \<Rightarrow> process \<Rightarrow> bool" where
  "process_inv apart p \<longleftrightarrow> world_inv (srv p) \<and>
     (g_shutdownMutex p = Some By_main \<longleftrightarrow> main_at p = M_test) \<and>
     (g_shutdownMutex p = Some By_handler \<longleftrightarrow> handler_at p = H_set) \<and>
     (handler_at p = H_notify \<longrightarrow> g_shutdownRequested p) \<and>
     (main_at p = M_blocked \<and> g_shutdownRequested p \<longrightarrow> notified p \<or> handler_at p = H_notify) \<and>
     (main_at p \<in> {M_lock, M_test, M_blocked} \<or> g_shutdownRequested p) \<and>
     (\<forall>r. main_at p = M_return r \<longrightarrow> r = 0 \<and> stopper (srv p) = S_end) \<and>
     (apart \<longrightarrow> \<not> main_runs p \<longrightarrow> main_at p \<noteq> M_test)"

lemma listener_step_stopper: "listener_step reuse own w w' \<Longrightarrow> stopper w' = stopper w"
  by (induct rule: listener_step.induct) simp_all

lemma client_step_stopper: "client_step own w w' \<Longrightarrow> stopper w' = stopper w"
  by (induct rule: client_step.induct) (simp_all add: use_ssl_def)

lemma handler_step_inv: "handler_step apart own p p' \<Longrightarrow> process_inv apart p \<Longrightarrow> process_inv apart p'"
  by (induct rule: handler_step.induct) (simp_all add: process_inv_def main_runs_def, auto)

lemma stop_world_inv: "stop_step w w' \<Longrightarrow> world_inv w \<Longrightarrow> world_inv w'"
  by (rule step_inv [OF step.stopper]) simp_all

lemma main_step_inv: "main_step own p p' \<Longrightarrow> process_inv apart p \<Longrightarrow> process_inv apart p'"
  by (induct rule: main_step.induct) (simp_all add: process_inv_def main_runs_def stop_world_inv, auto)

lemma process_step_inv:
  assumes "process_step apart own p p'" "process_inv apart p"
  shows "process_inv apart p'"
  using assms(1)
proof (cases rule: process_step.cases)
  case (listener w)
  then have "world_inv w" using assms(2) step_inv [OF step.listener] by (auto simp: process_inv_def)
  with listener assms(2) listener_step_stopper show ?thesis by (auto simp: process_inv_def main_runs_def)
next
  case (client w)
  then have "world_inv w" using assms(2) step_inv [OF step.client] by (auto simp: process_inv_def)
  with client assms(2) client_step_stopper show ?thesis by (auto simp: process_inv_def main_runs_def)
qed (use assms(2) handler_step_inv main_step_inv in auto)

lemma process_run_inv: "(any_step apart)\<^sup>*\<^sup>* p p' \<Longrightarrow> process_inv apart p \<Longrightarrow> process_inv apart p'"
  by (induction rule: rtranclp_induct) (auto simp: any_step_def intro: process_step_inv)

lemma serving_inv: "started (tcp d) \<Longrightarrow> process_inv apart (serving d)"
  by (simp add: process_inv_def serving_def init_world_inv main_runs_def)

section \<open>The shutdown\<close>

text \<open>What the process can reach with steps that need nobody outside of it.\<close>

definition can_reach :: "bool \<Rightarrow> (process \<Rightarrow> bool) \<Rightarrow> process \<Rightarrow> bool" where
  "can_reach apart Q p \<longleftrightarrow> (\<exists>p'. (process_step apart True)\<^sup>*\<^sup>* p p' \<and> process_inv apart p' \<and> Q p')"

lemma can_reach_now: "process_inv apart p \<Longrightarrow> Q p \<Longrightarrow> can_reach apart Q p"
  by (auto simp: can_reach_def)

lemma can_reach_step: "process_step apart True p p' \<Longrightarrow> can_reach apart Q p' \<Longrightarrow> can_reach apart Q p"
  by (auto simp: can_reach_def intro: converse_rtranclp_into_rtranclp)

lemma can_reach_trans:
  assumes "can_reach apart Q p" "\<And>p'. process_inv apart p' \<Longrightarrow> Q p' \<Longrightarrow> can_reach apart R p'"
  shows "can_reach apart R p"
  using assms unfolding can_reach_def by (meson rtranclp_trans)

text \<open>First the handler ends, then main() leaves its wait, then stop() is done.\<close>

definition requested :: "process \<Rightarrow> bool" where
  "requested p \<longleftrightarrow> handler_at p = H_none \<and> g_shutdownRequested p"

lemma handler_ends:
  assumes "process_inv True p" "g_shutdownRequested p \<or> handler_at p \<noteq> H_none"
  shows "can_reach True requested p"
proof -
  note own = process_step.handler
  have none: "can_reach True requested p" if "process_inv True p" "handler_at p = H_none" "g_shutdownRequested p" for p
    using that by (intro can_reach_now) (simp_all add: requested_def)
  have notify: "can_reach True requested p" if "process_inv True p" "handler_at p = H_notify" for p
  proof (rule can_reach_step [OF own [OF handler_step.notify [OF that(2)]]], rule none)
    show "process_inv True (p\<lparr>handler_at := H_none, notified := notified p \<or> main_at p = M_blocked\<rparr>)"
      using handler_step_inv [OF handler_step.notify [OF that(2)] that(1)] .
  qed (use that in \<open>simp_all add: process_inv_def\<close>)
  have set: "can_reach True requested p" if "process_inv True p" "handler_at p = H_set" for p
    by (rule can_reach_step [OF own [OF handler_step.request [OF that(2)]]], rule notify)
      (use handler_step_inv [OF handler_step.request [OF that(2)] that(1)] in simp_all)
  have lock: "can_reach True requested p"
    if "process_inv True p" "handler_at p = H_lock" "g_shutdownMutex p = None" for p
    by (rule can_reach_step [OF own [OF handler_step.lock [OF that(2,3)]]], rule set)
      (use handler_step_inv [OF handler_step.lock [OF that(2,3)] that(1)] in simp_all)
  show ?thesis
  proof (cases "handler_at p")
    case H_none
    with assms show ?thesis by (intro none) simp_all
  next
    case H_lock
    show ?thesis
    proof (cases "g_shutdownMutex p")
      case None
      show ?thesis by (rule lock [OF assms(1) H_lock None])
    next
      case (Some h)
      have test: "main_at p = M_test" "main_runs p"
        using assms(1) Some H_lock by (cases h, simp_all add: process_inv_def)+
      have go: ?thesis if "main_step True p p'" "handler_at p' = H_lock" "g_shutdownMutex p' = None" for p'
        by (rule can_reach_step [OF process_step.main [OF that(1)] lock [OF main_step_inv [OF that(1) assms(1)] that(2,3)]])
      show ?thesis
      proof (cases "g_shutdownRequested p")
        case True
        from go [OF main_step.leave [OF test(2,1) True]] H_lock show ?thesis by simp
      next
        case False
        from go [OF main_step.block [OF test(2,1) False]] H_lock show ?thesis by simp
      qed
    qed
  qed (use assms(1) set notify in blast)+
qed

definition stopping :: "process \<Rightarrow> bool" where
  "stopping p \<longleftrightarrow> handler_at p = H_none \<and> (main_at p = M_stop \<or> main_at p = M_return 0)"

lemma main_leaves_wait:
  assumes "process_inv True p" "requested p"
  shows "can_reach True stopping p"
proof -
  have runs: "main_runs p" if "requested p" for p using that by (simp add: main_runs_def requested_def)
  note own = process_step.main
  have test: "can_reach True stopping p" if "process_inv True p" "requested p" "main_at p = M_test" for p
  proof -
    have s: "main_step True p (p\<lparr>main_at := M_stop, g_shutdownMutex := None\<rparr>)"
      using that runs by (intro main_step.leave) (simp_all add: requested_def)
    show ?thesis
      by (rule can_reach_step [OF own [OF s] can_reach_now [OF main_step_inv [OF s that(1)]]])
        (use that in \<open>simp add: stopping_def requested_def\<close>)
  qed
  have free: "g_shutdownMutex p = None" if "main_at p \<noteq> M_test"
    using assms that by (cases "g_shutdownMutex p"; cases "the (g_shutdownMutex p)") (auto simp: process_inv_def requested_def)
  let ?p = "p\<lparr>main_at := M_test, g_shutdownMutex := Some By_main\<rparr>"
  have go: ?thesis if s: "main_step True p ?p"
    by (rule can_reach_step [OF own [OF s] test [OF main_step_inv [OF s assms(1)]]])
      (use assms(2) in \<open>simp_all add: requested_def\<close>)
  show ?thesis
  proof (cases "main_at p")
    case M_lock
    then show ?thesis by (intro go main_step.lock runs assms(2) free) simp_all
  next
    case M_blocked
    then have "notified p" using assms by (auto simp: process_inv_def requested_def)
    then show ?thesis using main_step.wake [OF runs [OF assms(2)] M_blocked free] M_blocked go by simp
  next
    case M_test
    then show ?thesis by (intro test assms)
  next
    case M_stop
    with assms show ?thesis by (intro can_reach_now) (simp_all add: stopping_def requested_def)
  next
    case (M_return r)
    with assms show ?thesis by (intro can_reach_now) (auto simp: stopping_def requested_def process_inv_def)
  qed
qed

definition returned :: "process \<Rightarrow> bool" where
  "returned p \<longleftrightarrow> main_at p = M_return 0"

lemma stop_ends:
  assumes "process_inv True p" "stopping p"
  shows "can_reach True returned p"
proof -
  have step: "\<exists>p'. process_step True True p p' \<and> process_inv True p' \<and> stopping p' \<and>
      (returned p' \<or> (\<not> srv_running (server (srv p')) \<and>
        (srv_running (server (srv p)) \<or> steps_left (srv p') < steps_left (srv p))))"
    if p: "process_inv True p" "stopping p" "\<not> returned p" for p
  proof -
    let ?w = "srv p"
    have at: "main_at p = M_stop" "main_runs p" "world_inv ?w"
      using p by (auto simp: stopping_def returned_def main_runs_def process_inv_def)
    then have phase: "srv_running (server ?w) \<longleftrightarrow> stopper ?w = S_idle"
      by (simp add: world_inv_def phase_inv_def)
    have move: ?thesis if "process_step True True p (p\<lparr>srv := w\<rparr>)" "\<not> srv_running (server w)"
        "srv_running (server ?w) \<or> steps_left w < steps_left ?w" for w
      using that process_step_inv [OF that(1) p(1)] p(2) by (intro exI [of _ "p\<lparr>srv := w\<rparr>"]) (simp add: stopping_def)
    consider "stopper ?w = S_end" | "stopper ?w = S_idle" | "stopper ?w \<noteq> S_end" "\<not> srv_running (server ?w)"
      using phase by blast
    then show ?thesis
    proof cases
      case 1
      have s: "main_step True p (p\<lparr>main_at := M_return 0\<rparr>)" by (rule main_step.return [OF at(2,1) 1])
      from process_step.main [OF s] main_step_inv [OF s p(1)] p(2) show ?thesis
        by (intro exI [of _ "p\<lparr>main_at := M_return 0\<rparr>"]) (simp add: stopping_def returned_def)
    next
      case 2
      have "process_step True True p (p\<lparr>srv := stop_flag ?w\<rparr>)"
        by (rule process_step.main [OF main_step.stop [OF at(2,1) stop_step.flag [OF 2]]])
      then show ?thesis
      proof (rule move)
        show "\<not> srv_running (server (stop_flag ?w))" by (simp add: stop_flag_def)
      qed (use 2 phase in simp)
    next
      case 3
      obtain w where w: "step False True ?w w" using stop_goes_on [OF at(3) 3(1)] by blast
      have ps: "process_step True True p (p\<lparr>srv := w\<rparr>)"
        using w by (cases rule: step.cases) (auto intro: process_step.intros main_step.stop at(1,2))
      from step_shrinks [OF w 3(2)] have "steps_left w < steps_left ?w" "\<not> srv_running (server w)" by blast+
      then show ?thesis by (intro move [OF ps] disjI2)
    qed
  qed
  have off: "can_reach True returned p"
    if "process_inv True p" "stopping p" "\<not> srv_running (server (srv p))" for p
    using that
  proof (induction "steps_left (srv p)" arbitrary: p rule: less_induct)
    case less
    show ?case
    proof (cases "returned p")
      case True
      with less.prems(1) show ?thesis by (rule can_reach_now)
    next
      case False
      from step [OF less.prems(1,2) this] less.prems(3) obtain p' where p': "process_step True True p p'"
        "process_inv True p'" "stopping p'"
        "returned p' \<or> \<not> srv_running (server (srv p')) \<and> steps_left (srv p') < steps_left (srv p)" by blast
      from p'(4) have "can_reach True returned p'"
        using less.hyps p'(2,3) can_reach_now by blast
      with p'(1) show ?thesis by (rule can_reach_step)
    qed
  qed
  show ?thesis
  proof (cases "returned p")
    case True
    with assms(1) show ?thesis by (rule can_reach_now)
  next
    case False
    from step [OF assms this] obtain p' where "process_step True True p p'" "process_inv True p'" "stopping p'"
      "returned p' \<or> \<not> srv_running (server (srv p'))" by blast
    then show ?thesis using off can_reach_now can_reach_step by blast
  qed
qed

lemma shutdown_returns:
  assumes "process_inv True p" "g_shutdownRequested p \<or> handler_at p \<noteq> H_none"
  shows "can_reach True returned p"
  by (rule can_reach_trans [OF can_reach_trans [OF handler_ends [OF assms] main_leaves_wait] stop_ends])

section \<open>Properties\<close>

lemma Serving_started:
  assumes "main_start env ops senv L args c p = Serving d"
  shows "started (tcp d)"
proof -
  obtain opts where "parse_args args default_options = Some opts" and "ensure_pki env opts p = (True, disk d)"
    and "init ops c = (True, device d)" and "rpc_router d = daemon_router L (base_device ops)"
    and st: "start senv (server_of opts) = (True, tcp d)" by (rule main_Serving [OF assms])
  show ?thesis by (rule start_started [OF TcpServer_ready(2) st])
qed



text \<open>
  C38: The handler must not run just anywhere: a signal that interrupts the main thread between
  its lock of g_shutdownMutex and its wait makes the handler lock the mutex its own thread
  holds. The request is then never recorded and main() never returns, whatever happens.
\<close>

theorem signal_can_deadlock:
  "\<exists>q. (any_step False)\<^sup>*\<^sup>* (serving d) q \<and> handler_at q = H_lock \<and>
    (\<forall>q'. (any_step False)\<^sup>*\<^sup>* q q' \<longrightarrow> main_at q' = M_test \<and> handler_at q' = H_lock \<and> \<not> g_shutdownRequested q')"
proof -
  let ?q1 = "(serving d)\<lparr>main_at := M_test, g_shutdownMutex := Some By_main\<rparr>"
  let ?q = "?q1\<lparr>handler_at := H_lock, on_main := True\<rparr>"
  define stuck where "stuck q \<longleftrightarrow> main_at q = M_test \<and> handler_at q = H_lock \<and> on_main q \<and>
    g_shutdownMutex q = Some By_main \<and> \<not> g_shutdownRequested q" for q :: process
  have "main_step True (serving d) ?q1" by (rule main_step.lock) (simp_all add: serving_def main_runs_def)
  then have s1: "any_step False (serving d) ?q1" unfolding any_step_def by (intro exI process_step.main)
  have "handler_step False False ?q1 ?q" by (rule handler_step.signal) (simp_all add: serving_def)
  then have s2: "any_step False ?q1 ?q" unfolding any_step_def by (intro exI process_step.handler)
  have keep: "stuck q'" if run: "any_step False q q'" "stuck q" for q q'
  proof -
    obtain own where "process_step False own q q'" using run(1) by (auto simp: any_step_def)
    then show ?thesis
    proof (cases rule: process_step.cases)
      case handler
      then show ?thesis using run(2) by (cases rule: handler_step.cases) (simp_all add: stuck_def)
    next
      case main
      then show ?thesis using run(2) by (cases rule: main_step.cases) (simp_all add: stuck_def main_runs_def)
    qed (use run(2) in \<open>simp_all add: stuck_def\<close>)
  qed
  have "stuck ?q" by (simp add: stuck_def serving_def)
  moreover have "stuck q'" if "(any_step False)\<^sup>*\<^sup>* q q'" "stuck q" for q q'
    using that by (induction rule: rtranclp_induct) (auto intro: keep)
  moreover have "(any_step False)\<^sup>*\<^sup>* (serving d) ?q" using s1 s2 by (meson rtranclp.rtrancl_into_rtrancl rtranclp.rtrancl_refl)
  ultimately show ?thesis unfolding stuck_def by blast
qed

theorem signal_can_deadlock_witness:
  "\<exists>d q. demo_start [] = Serving d \<and> (any_step False)\<^sup>*\<^sup>* (serving d) q \<and> \<not> g_shutdownRequested q \<and> handler_at q = H_lock"
proof -
  obtain d where d: "demo_start [] = Serving d"
    using demo_serving [OF parse_one(2)] by blast
  then show ?thesis using signal_can_deadlock [of d] by blast
qed

end
