(* ===== verification/Desk_Constants.thy ===== *)
theory Desk_Constants
  imports Complex_Main Prelude
begin

text \<open>
  The named constants of the desktop client, by the file that declares them: texts, JSON keys,
  and the numbers of its widgets. A name that several files use has the widget in front.
\<close>

section \<open>AppController (src/app_controller.cc)\<close>

abbreviation (input) cSysConnecting :: string where "cSysConnecting \<equiv> ''[System] Connecting to ''"

abbreviation (input) cColon :: string where "cColon \<equiv> '':''"

abbreviation (input) cSslPrefix :: string where "cSslPrefix \<equiv> '' (SSL: ''"

abbreviation (input) cOnStr :: string where "cOnStr \<equiv> ''ON''"

abbreviation (input) cOffStr :: string where "cOffStr \<equiv> ''OFF''"

abbreviation (input) cMtlsPrefix :: string where "cMtlsPrefix \<equiv> '', mTLS: ''"

abbreviation (input) cSuffix :: string where "cSuffix \<equiv> '')...''"

abbreviation (input) cSysConnected :: string where "cSysConnected \<equiv> ''[System] Connected successfully.''"

abbreviation (input) cSysConnectFailed :: string where "cSysConnectFailed \<equiv> ''[System] Connection failed.''"

abbreviation (input) cSysDisconnected :: string where "cSysDisconnected \<equiv> ''[System] Disconnected.''"

abbreviation (input) cSysConnectionLost :: string where "cSysConnectionLost \<equiv> ''[System] Connection lost.''"

abbreviation (input) cSysErrorNotConnected :: string where "cSysErrorNotConnected \<equiv> ''[System] Error: Not connected.''"

abbreviation (input) cSysErrorSending :: string where "cSysErrorSending \<equiv> ''[System] Error sending command.''"

abbreviation (input) cSysErrorParsing :: string where "cSysErrorParsing \<equiv> ''[System] Error parsing response: ''"

abbreviation (input) cJsonRpcKey :: string where "cJsonRpcKey \<equiv> ''jsonrpc''"

abbreviation (input) cJsonRpcVer :: string where "cJsonRpcVer \<equiv> ''2.0''"

abbreviation (input) cMethodKey :: string where "cMethodKey \<equiv> ''method''"

abbreviation (input) cParamsKey :: string where "cParamsKey \<equiv> ''params''"

abbreviation (input) cIdKey :: string where "cIdKey \<equiv> ''id''"

abbreviation (input) cRelayIdKey :: string where "cRelayIdKey \<equiv> ''relay_id''"

abbreviation (input) cStateKey :: string where "cStateKey \<equiv> ''state''"

abbreviation (input) cErrorKey :: string where "cErrorKey \<equiv> ''error''"

abbreviation (input) cResultKey :: string where "cResultKey \<equiv> ''result''"

abbreviation (input) cMethodSetRelay :: string where "cMethodSetRelay \<equiv> ''set_relay''"

abbreviation (input) cMethodGetRelays :: string where "cMethodGetRelays \<equiv> ''get_relays''"

abbreviation (input) cMethodStartTimer :: string where "cMethodStartTimer \<equiv> ''start_timer''"

abbreviation (input) cMethodStartPulse :: string where "cMethodStartPulse \<equiv> ''start_pulse''"

abbreviation (input) cMethodStartBlink :: string where "cMethodStartBlink \<equiv> ''start_blink''"

abbreviation (input) cSecondsKey :: string where "cSecondsKey \<equiv> ''seconds''"

abbreviation (input) cDurationMsKey :: string where "cDurationMsKey \<equiv> ''duration_ms''"

abbreviation (input) cOnMsKey :: string where "cOnMsKey \<equiv> ''on_ms''"

abbreviation (input) cOffMsKey :: string where "cOffMsKey \<equiv> ''off_ms''"

abbreviation (input) cCountKey :: string where "cCountKey \<equiv> ''count''"

abbreviation (input) cTxPrefix :: string where "cTxPrefix \<equiv> ''[TX] ''"

abbreviation (input) cRxPrefix :: string where "cRxPrefix \<equiv> ''[RX] ''"

abbreviation (input) cErrorPrefix :: string where "cErrorPrefix \<equiv> ''[Error] ''"

abbreviation (input) cInitialRequestId :: int where "cInitialRequestId \<equiv> 1"

section \<open>ConfigManager (src/config/config_manager.cc)\<close>

abbreviation (input) cDefaultConfigFilename :: string where "cDefaultConfigFilename \<equiv> ''config''"

abbreviation (input) cConfigDirName :: string where "cConfigDirName \<equiv> ''.minihil''"

abbreviation (input) cJsonIpKey :: string where "cJsonIpKey \<equiv> ''ip''"

abbreviation (input) cJsonPortKey :: string where "cJsonPortKey \<equiv> ''port''"

abbreviation (input) cJsonSslKey :: string where "cJsonSslKey \<equiv> ''ssl''"

abbreviation (input) cJsonMtlsKey :: string where "cJsonMtlsKey \<equiv> ''mtls''"

abbreviation (input) cDefaultIp :: string where "cDefaultIp \<equiv> ''127.0.0.1''"

abbreviation (input) cDefaultPort :: int where "cDefaultPort \<equiv> 9000"

abbreviation (input) cJsonIndent :: int where "cJsonIndent \<equiv> 4"

abbreviation (input) cLoadErrorMsg :: string where "cLoadErrorMsg \<equiv> ''[ConfigManager] Failed to load config: ''"

abbreviation (input) cSaveErrorMsg :: string where "cSaveErrorMsg \<equiv> ''[ConfigManager] Failed to save config: ''"

section \<open>OpenSslMtlsConfigurator (src/network/openssl_mtls_configurator.cc)\<close>

abbreviation (input) cMinihilConfigDir :: string where "cMinihilConfigDir \<equiv> ''/.minihil/''"

abbreviation (input) cDefaultDir :: string where "cDefaultDir \<equiv> ''./''"

abbreviation (input) cCaCertFile :: string where "cCaCertFile \<equiv> ''ca.crt''"

abbreviation (input) cClientCertFile :: string where "cClientCertFile \<equiv> ''client.crt''"

abbreviation (input) cClientKeyFile :: string where "cClientKeyFile \<equiv> ''client.key''"

section \<open>AppHome (src/view/home.cc)\<close>

abbreviation (input) cTitle :: string where "cTitle \<equiv> ''minihildesk''"

abbreviation (input) cDefaultWidth :: nat where "cDefaultWidth \<equiv> 1080"

abbreviation (input) cDefaultHeight :: nat where "cDefaultHeight \<equiv> 820"

abbreviation (input) cStyleResourcePath :: string where "cStyleResourcePath \<equiv> ''/io/electux/minihildesk/style.css''"

abbreviation (input) cIpEntryWidth :: nat where "cIpEntryWidth \<equiv> 15"

abbreviation (input) cPortEntryWidth :: nat where "cPortEntryWidth \<equiv> 6"

abbreviation (input) cHeaderMargin :: nat where "cHeaderMargin \<equiv> 10"

abbreviation (input) cRelaySpacing :: nat where "cRelaySpacing \<equiv> 10"

abbreviation (input) cRelayMargin :: nat where "cRelayMargin \<equiv> 10"

abbreviation (input) cRelayCols :: nat where "cRelayCols \<equiv> 4"

abbreviation (input) cRelayCount :: nat where "cRelayCount \<equiv> 8"

abbreviation (input) cLogHeight :: int where "cLogHeight \<equiv> 220"

abbreviation (input) cLogMargin :: nat where "cLogMargin \<equiv> 10"

abbreviation (input) cDefaultPortFallback :: int where "cDefaultPortFallback \<equiv> 9000"

abbreviation (input) cIpLabel :: string where "cIpLabel \<equiv> ''IP Address:''"

abbreviation (input) cPortLabel :: string where "cPortLabel \<equiv> ''Port:''"

abbreviation (input) cSslLabel :: string where "cSslLabel \<equiv> ''SSL''"

abbreviation (input) cMtlsLabel :: string where "cMtlsLabel \<equiv> ''mTLS''"

abbreviation (input) cConnectLabel :: string where "cConnectLabel \<equiv> ''Connect''"

abbreviation (input) cDisconnectLabel :: string where "cDisconnectLabel \<equiv> ''Disconnect''"

section \<open>BlinkModePage (src/view/pages/mode_page_blink.cc)\<close>

abbreviation (input) cBlinkDesc :: string where "cBlinkDesc \<equiv> ''Cycle relay state ON and OFF.''"

abbreviation (input) cOnLabel :: string where "cOnLabel \<equiv> ''ON (ms):''"

abbreviation (input) cOffLabel :: string where "cOffLabel \<equiv> ''OFF (ms):''"

abbreviation (input) cCountLabel :: string where "cCountLabel \<equiv> ''Count:''"

abbreviation (input) blink_cBtnStart :: string where "blink_cBtnStart \<equiv> ''Start Blink''"

abbreviation (input) blink_cBoxSpacing :: nat where "blink_cBoxSpacing \<equiv> 6"

abbreviation (input) cGridSpacing :: nat where "cGridSpacing \<equiv> 4"

abbreviation (input) cMinTime :: rat where "cMinTime \<equiv> 10"

abbreviation (input) cMaxTime :: rat where "cMaxTime \<equiv> 100000"

abbreviation (input) cStepTime :: rat where "cStepTime \<equiv> 50"

abbreviation (input) cPageTime :: rat where "cPageTime \<equiv> 250"

abbreviation (input) cMinCount :: rat where "cMinCount \<equiv> 0"

abbreviation (input) cMaxCount :: rat where "cMaxCount \<equiv> 1000"

abbreviation (input) cStepCount :: rat where "cStepCount \<equiv> 1"

abbreviation (input) cPageCount :: rat where "cPageCount \<equiv> 10"

section \<open>PulseModePage (src/view/pages/mode_page_pulse.cc)\<close>

abbreviation (input) cPulseDesc :: string where "cPulseDesc \<equiv> ''Generate a momentary active pulse.''"

abbreviation (input) cPulseLabel :: string where "cPulseLabel \<equiv> ''Width (ms):''"

abbreviation (input) cBtnTrigger :: string where "cBtnTrigger \<equiv> ''Trigger''"

abbreviation (input) pulse_cBoxSpacing :: nat where "pulse_cBoxSpacing \<equiv> 8"

abbreviation (input) pulse_cInputSpacing :: nat where "pulse_cInputSpacing \<equiv> 5"

abbreviation (input) cMinMs :: rat where "cMinMs \<equiv> 10"

abbreviation (input) cPulseTimeMax :: rat where "cPulseTimeMax \<equiv> 100000"

abbreviation (input) cStepMs :: rat where "cStepMs \<equiv> 50"

abbreviation (input) cPageMs :: rat where "cPageMs \<equiv> 250"

section \<open>TimerModePage (src/view/pages/mode_page_timer.cc)\<close>

abbreviation (input) cTimerDesc :: string where "cTimerDesc \<equiv> ''Keep relay active for a duration.''"

abbreviation (input) cDurationLabel :: string where "cDurationLabel \<equiv> ''Duration (s):''"

abbreviation (input) timer_cBtnStart :: string where "timer_cBtnStart \<equiv> ''Start''"

abbreviation (input) timer_cBoxSpacing :: nat where "timer_cBoxSpacing \<equiv> 8"

abbreviation (input) timer_cInputSpacing :: nat where "timer_cInputSpacing \<equiv> 5"

abbreviation (input) cMinSeconds :: rat where "cMinSeconds \<equiv> 1"

abbreviation (input) cMaxSeconds :: rat where "cMaxSeconds \<equiv> 3600"

abbreviation (input) cStepSeconds :: rat where "cStepSeconds \<equiv> 1"

abbreviation (input) cPageSeconds :: rat where "cPageSeconds \<equiv> 10"

section \<open>ToggleModePage (src/view/pages/mode_page_toggle.cc)\<close>

abbreviation (input) cToggleDesc :: string where "cToggleDesc \<equiv> ''Manually control relay state.''"

abbreviation (input) toggle_cBoxSpacing :: nat where "toggle_cBoxSpacing \<equiv> 8"

abbreviation (input) cSwitchMarginBottom :: nat where "cSwitchMarginBottom \<equiv> 10"

abbreviation (input) cSwitchMarginTop :: nat where "cSwitchMarginTop \<equiv> 5"

section \<open>RelayWidget (src/view/relay_widget.cc)\<close>

abbreviation (input) cRelayCardClass :: string where "cRelayCardClass \<equiv> ''relay-card''"

abbreviation (input) cRelayTitlePrefix :: string where "cRelayTitlePrefix \<equiv> ''<b>Relay ''"

abbreviation (input) cRelayTitleSuffix :: string where "cRelayTitleSuffix \<equiv> ''</b>''"

abbreviation (input) cIndicatorChar :: string where "cIndicatorChar \<equiv> [CHR 0xE2, CHR 0x97, CHR 0x8F]"

abbreviation (input) cIndicatorClass :: string where "cIndicatorClass \<equiv> ''led-indicator''"

abbreviation (input) cLedOffClass :: string where "cLedOffClass \<equiv> ''led-off''"

abbreviation (input) cLedOnClass :: string where "cLedOnClass \<equiv> ''led-on''"

abbreviation (input) cWidgetMargin :: nat where "cWidgetMargin \<equiv> 5"

abbreviation (input) cBoxMargin :: nat where "cBoxMargin \<equiv> 12"

abbreviation (input) relay_cBoxSpacing :: nat where "relay_cBoxSpacing \<equiv> 8"

abbreviation (input) cHeaderSpacing :: nat where "cHeaderSpacing \<equiv> 5"

end
