(* ===== verification/Desk_Config.thy ===== *)
theory Desk_Config
  imports Json Desk_Constants
begin

text \<open>
  ConfigManager of the desktop client (minihildesk/src/config/config_manager.cc): the four
  settings of a connection, read from and written to a JSON file in the home directory.
  Exceptions are caught inside load() and save(), so that they are branches with result False.
\<close>

section \<open>Data\<close>

record config =
  m_ip :: string
  m_port :: int
  m_useSsl :: bool
  m_useMtls :: bool

text \<open>
  The environment: HOME, the contents of the files that exist, which files can be opened, and
  whether create_directories succeeds or throws on a path.
\<close>

record desk_disk =
  home :: "string option"
  texts :: "string \<rightharpoonup> string"
  readable :: "string \<Rightarrow> bool"
  writable :: "string \<Rightarrow> bool"
  dirs_ok :: "string \<Rightarrow> bool"
  errors :: "string list"

definition say_error :: "string \<Rightarrow> desk_disk \<Rightarrow> desk_disk" where
  "say_error l d = d\<lparr>errors := errors d @ [l]\<rparr>"

section \<open>Operations\<close>

definition populateDefaults :: "config \<Rightarrow> config" where
  "populateDefaults g = g\<lparr>m_ip := cDefaultIp, m_port := cDefaultPort, m_useSsl := False, m_useMtls := False\<rparr>"

text \<open>The operator / of filesystem paths on a relative right side.\<close>

definition path_append :: "string \<Rightarrow> string \<Rightarrow> string" where
  "path_append p q = (if p = [] \<or> last p = CHR ''/'' then p @ q else p @ ''/'' @ q)"

definition parent_path :: "string \<Rightarrow> string" where
  "parent_path p = rev (drop 1 (dropWhile (\<lambda>c. c \<noteq> CHR ''/'') (rev p)))"

definition getConfigPath :: "desk_disk \<Rightarrow> string" where
  "getConfigPath d = (case home d of
     None \<Rightarrow> cDefaultConfigFilename
   | Some h \<Rightarrow> path_append (path_append h cConfigDirName) cDefaultConfigFilename)"

text \<open>
  The fields are assigned one by one: an exception on a later one leaves the earlier ones
  assigned.
\<close>

definition load_ip :: "json_lib \<Rightarrow> json \<Rightarrow> config \<Rightarrow> (exn + unit) \<times> config" where
  "load_ip L j g = (if contains j cJsonIpKey then
     bindE (get_string L (field j cJsonIpKey)) (\<lambda>v g. (Inr (), g\<lparr>m_ip := v\<rparr>)) g else (Inr (), g))"

definition load_port :: "json_lib \<Rightarrow> json \<Rightarrow> config \<Rightarrow> (exn + unit) \<times> config" where
  "load_port L j g = (if contains j cJsonPortKey then
     bindE (get_int L (field j cJsonPortKey)) (\<lambda>v g. (Inr (), g\<lparr>m_port := v\<rparr>)) g else (Inr (), g))"

definition load_ssl :: "json_lib \<Rightarrow> json \<Rightarrow> config \<Rightarrow> (exn + unit) \<times> config" where
  "load_ssl L j g = (if contains j cJsonSslKey then
     bindE (get_bool L (field j cJsonSslKey)) (\<lambda>v g. (Inr (), g\<lparr>m_useSsl := v\<rparr>)) g else (Inr (), g))"

definition load_mtls :: "json_lib \<Rightarrow> json \<Rightarrow> config \<Rightarrow> (exn + unit) \<times> config" where
  "load_mtls L j g = (if contains j cJsonMtlsKey then
     bindE (get_bool L (field j cJsonMtlsKey)) (\<lambda>v g. (Inr (), g\<lparr>m_useMtls := v\<rparr>)) g else (Inr (), g))"

definition load_fields :: "json_lib \<Rightarrow> json \<Rightarrow> config \<Rightarrow> (exn + unit) \<times> config" where
  "load_fields L j g =
     bindS (load_ip L j g) (\<lambda>_ g. bindS (load_port L j g) (\<lambda>_ g.
       bindS (load_ssl L j g) (\<lambda>_ g. load_mtls L j g)))"

definition load :: "json_lib \<Rightarrow> config \<Rightarrow> desk_disk \<Rightarrow> bool \<times> config \<times> desk_disk" where
  "load L g d =
     (let path = getConfigPath d
      in case texts d path of
           None \<Rightarrow> (False, g, d)
         | Some t \<Rightarrow>
             if \<not> readable d path then (False, g, d)
             else (case bindE (parse L t) (load_fields L) g of
                     (Inr _, g') \<Rightarrow> (True, g', d)
                   | (Inl e, g') \<Rightarrow> (False, g', say_error (cLoadErrorMsg @ what e) d)))"

definition config_json :: "config \<Rightarrow> json" where
  "config_json g = jset cJsonMtlsKey (JBool (m_useMtls g)) (jset cJsonSslKey (JBool (m_useSsl g))
     (jset cJsonPortKey (JInt (m_port g)) (jset cJsonIpKey (JString (m_ip g)) JNull)))"

text \<open>Opening the file for writing empties it before the text is made.\<close>

definition save :: "json_lib \<Rightarrow> config \<Rightarrow> desk_disk \<Rightarrow> bool \<times> desk_disk" where
  "save L g d =
     (let path = getConfigPath d
      in if \<not> dirs_ok d (parent_path path)
         then (False, say_error ''[ConfigManager] Failed to save config: filesystem error'' d)
         else if \<not> writable d path then (False, d)
         else let d1 = d\<lparr>texts := (texts d)(path \<mapsto> [])\<rparr>
           in case dump L cJsonIndent (config_json g) of
                Inl e \<Rightarrow> (False, say_error (cSaveErrorMsg @ what e) d1)
              | Inr t \<Rightarrow> (True, d1\<lparr>texts := (texts d1)(path \<mapsto> t)\<rparr>))"

definition defaultConfigStore :: "json_lib \<Rightarrow> config \<Rightarrow> desk_disk \<Rightarrow> config \<times> desk_disk" where
  "defaultConfigStore L g d = (let g1 = populateDefaults g in (g1, snd (save L g1 d)))"

definition ConfigManager :: "json_lib \<Rightarrow> desk_disk \<Rightarrow> config \<times> desk_disk" where
  "ConfigManager L d =
     (let g = \<lparr>m_ip = cDefaultIp, m_port = cDefaultPort, m_useSsl = False, m_useMtls = False\<rparr>
      in if texts d (getConfigPath d) = None then defaultConfigStore L g d
         else let (_, g1, d1) = load L g d in (g1, d1))"

section \<open>Facts\<close>

lemma getConfigPath_texts [simp]: "getConfigPath (d\<lparr>texts := x\<rparr>) = getConfigPath d"
  by (simp add: getConfigPath_def)

lemma say_error_fields [simp]:
  "home (say_error l d) = home d" "texts (say_error l d) = texts d" "readable (say_error l d) = readable d"
  "writable (say_error l d) = writable d" "dirs_ok (say_error l d) = dirs_ok d"
  by (simp_all add: say_error_def)

lemma save_True:
  assumes "save L g d = (True, d')"
  obtains t where "dump L 4 (config_json g) = Inr t"
    "d' = d\<lparr>texts := (texts d)(getConfigPath d \<mapsto> t)\<rparr>"
proof -
  let ?p = "getConfigPath d"
  have ok: "dirs_ok d (parent_path ?p)" "writable d ?p"
    using assms by (simp_all add: save_def Let_def split: if_splits)
  show thesis
  proof (cases "dump L 4 (config_json g)")
    case (Inl e)
    with assms ok show thesis by (simp add: save_def Let_def)
  next
    case (Inr t)
    with assms ok have "d' = d\<lparr>texts := (texts d)(?p \<mapsto> t)\<rparr>" by (simp add: save_def Let_def)
    with Inr show thesis by (rule that)
  qed
qed

lemma config_json_fields [simp]:
  "contains (config_json g) k \<longleftrightarrow> k \<in> {''ip'', ''port'', ''ssl'', ''mtls''}"
  "field (config_json g) ''ip'' = JString (m_ip g)" "field (config_json g) ''port'' = JInt (m_port g)"
  "field (config_json g) ''ssl'' = JBool (m_useSsl g)" "field (config_json g) ''mtls'' = JBool (m_useMtls g)"
  by (auto simp: config_json_def)

lemma load_config_json:
  assumes "json_laws L" "fits_int (m_port g)"
  shows "load_fields L (config_json g) g' = (Inr (), g)"
proof -
  note conv = json_lawsD(1) [OF assms(1,2)] json_lawsD(3,4) [OF assms(1)]
  have "load_fields L (config_json g) g' =
      (Inr (), g'\<lparr>m_ip := m_ip g, m_port := m_port g, m_useSsl := m_useSsl g, m_useMtls := m_useMtls g\<rparr>)"
    by (simp add: load_fields_def load_ip_def load_port_def load_ssl_def load_mtls_def conv)
  also have "g'\<lparr>m_ip := m_ip g, m_port := m_port g, m_useSsl := m_useSsl g, m_useMtls := m_useMtls g\<rparr> = g"
    by (cases g) simp
  finally show ?thesis .
qed

section \<open>Properties\<close>

text \<open>
  C36: What save() wrote, the next start of the client reads: a new ConfigManager on the disk
  after a successful save has exactly the saved settings. (The file must be readable and the
  library must parse what it printed.)
\<close>

theorem saved_config_is_restored:
  assumes "json_laws L" "fits_int (m_port g)" "save L g d = (True, d')" "readable d (getConfigPath d)"
    and "\<And>t. dump L 4 (config_json g) = Inr t \<Longrightarrow> parse L t = Inr (config_json g)"
  shows "ConfigManager L d' = (g, d')"
proof -
  obtain t where t: "dump L 4 (config_json g) = Inr t"
    and d': "d' = d\<lparr>texts := (texts d)(getConfigPath d \<mapsto> t)\<rparr>" by (rule save_True [OF assms(3)])
  have path: "getConfigPath d' = getConfigPath d" by (simp add: d')
  have "load L g0 d' = (True, g, d')" for g0
    using assms(4) assms(5) [OF t] load_config_json [OF assms(1,2), of g0]
    unfolding load_def path Let_def unfolding d' by simp
  moreover have "texts d' (getConfigPath d') = Some t" unfolding path unfolding d' by simp
  ultimately show ?thesis unfolding ConfigManager_def Let_def by simp
qed

definition demo_disk :: desk_disk where
  "demo_disk = \<lparr>home = Some ''/home/user'', texts = Map.empty, readable = (\<lambda>_. True),
     writable = (\<lambda>_. True), dirs_ok = (\<lambda>_. True), errors = []\<rparr>"

definition demo_config :: config where
  "demo_config = \<lparr>m_ip = ''10.0.0.7'', m_port = 9001, m_useSsl = True, m_useMtls = False\<rparr>"

theorem saved_config_is_restored_witness:
  "\<exists>d'. save (table_lib [(''{cfg}'', config_json demo_config)]) demo_config demo_disk = (True, d') \<and>
     fst (ConfigManager (table_lib [(''{cfg}'', config_json demo_config)]) d') = demo_config"
proof -
  let ?L = "table_lib [(''{cfg}'', config_json demo_config)]"
  have dump: "dump ?L 4 (config_json demo_config) = Inr ''{cfg}''" by (simp add: table_lib_def)
  then have "fst (save ?L demo_config demo_disk)"
    by (simp add: save_def demo_disk_def Let_def)
  then obtain d' where d': "save ?L demo_config demo_disk = (True, d')"
    by (cases "save ?L demo_config demo_disk") simp
  have "parse ?L t = Inr (config_json demo_config)" if "dump ?L 4 (config_json demo_config) = Inr t" for t
    using that dump by (simp add: table_lib_def)
  from saved_config_is_restored [OF json_laws_table _ d' _ this] d' show ?thesis
    by (simp add: demo_disk_def fits_int_def demo_config_def)
qed

text \<open>
  A configuration file that does not load never stops the client: the constructor gives
  the defaults for what it could not read, and a missing file is created with the defaults.
\<close>

theorem config_defaults:
  "(texts d (getConfigPath d) = None \<longrightarrow>
     fst (ConfigManager L d) = \<lparr>m_ip = ''127.0.0.1'', m_port = 9000, m_useSsl = False, m_useMtls = False\<rparr>) \<and>
   (\<forall>t e. texts d (getConfigPath d) = Some t \<and> parse L t = Inl e \<longrightarrow>
     fst (ConfigManager L d) = \<lparr>m_ip = ''127.0.0.1'', m_port = 9000, m_useSsl = False, m_useMtls = False\<rparr> \<and>
     texts (snd (ConfigManager L d)) = texts d)"
proof (intro conjI impI allI)
  let ?g = "\<lparr>m_ip = ''127.0.0.1'', m_port = 9000, m_useSsl = False, m_useMtls = False\<rparr>"
  show "fst (ConfigManager L d) = ?g" if "texts d (getConfigPath d) = None"
    using that by (simp add: ConfigManager_def defaultConfigStore_def populateDefaults_def Let_def)
  fix t e
  assume t: "texts d (getConfigPath d) = Some t \<and> parse L t = Inl e"
  then obtain d' where "load L ?g d = (False, ?g, d')" "texts d' = texts d"
    by (cases "readable d (getConfigPath d)") (simp_all add: load_def Let_def)
  with t show "fst (ConfigManager L d) = ?g" "texts (snd (ConfigManager L d)) = texts d"
    unfolding ConfigManager_def Let_def by simp_all
qed

theorem config_defaults_witness:
  "m_port (fst (ConfigManager (table_lib []) demo_disk)) = 9000"
  using config_defaults [of demo_disk "table_lib []"] by (simp add: demo_disk_def)

text \<open>
  load() is not all or nothing: a file whose address is good and whose port is no number
  is reported as not loaded, while its address is in use from then on.
\<close>

theorem load_is_partial:
  assumes "json_laws L" "texts d (getConfigPath d) = Some t" "readable d (getConfigPath d)"
    and "parse L t = Inr j" "contains j ''ip''" "field j ''ip'' = JString ip"
    and "contains j ''port''" "\<not> is_numeric (field j ''port'')"
  shows "\<exists>d'. load L g d = (False, g\<lparr>m_ip := ip\<rparr>, d')"
proof -
  obtain w where w: "get_int L (field j ''port'') = Inl (Std_exception w)"
    using throws_obtain [OF json_lawsD(5) [OF assms(1,8)]] by metis
  have "load_fields L j g = (Inl (Std_exception w), g\<lparr>m_ip := ip\<rparr>)"
    using assms(5-7) json_lawsD(4) [OF assms(1)] w by (simp add: load_fields_def load_ip_def load_port_def)
  then show ?thesis using assms(2,3,4) by (simp add: load_def Let_def)
qed

theorem load_is_partial_witness:
  "\<exists>d'. load (table_lib [(''x'', jobj [(''ip'', JString ''1.2.3.4''), (''port'', JString ''80'')])])
     demo_config (demo_disk\<lparr>texts := \<lambda>_. Some ''x''\<rparr>) = (False, demo_config\<lparr>m_ip := ''1.2.3.4''\<rparr>, d')"
  by (rule load_is_partial [OF json_laws_table, where t = "''x''"
        and j = "jobj [(''ip'', JString ''1.2.3.4''), (''port'', JString ''80'')]"])
    (simp_all add: demo_disk_def table_lib_def jobj_def)

section \<open>The interface\<close>

text \<open>
  IConfigManager (iconfig_manager.h), through which AppController keeps the settings, on a state
  of the manager: here the settings and the files. Its laws: a setter sets its own field only,
  and storing keeps the settings, whether it succeeds or not.
\<close>

record 'k config_manager_ops =
  cm_load :: "'k \<Rightarrow> bool \<times> 'k"
  cm_save :: "'k \<Rightarrow> bool \<times> 'k"
  cm_defaultConfigStore :: "'k \<Rightarrow> 'k"
  cm_populateDefaults :: "'k \<Rightarrow> 'k"
  cm_getIp :: "'k \<Rightarrow> string"
  cm_setIp :: "string \<Rightarrow> 'k \<Rightarrow> 'k"
  cm_getPort :: "'k \<Rightarrow> int"
  cm_setPort :: "int \<Rightarrow> 'k \<Rightarrow> 'k"
  cm_getUseSsl :: "'k \<Rightarrow> bool"
  cm_setUseSsl :: "bool \<Rightarrow> 'k \<Rightarrow> 'k"
  cm_getUseMtls :: "'k \<Rightarrow> bool"
  cm_setUseMtls :: "bool \<Rightarrow> 'k \<Rightarrow> 'k"

definition settings_of :: "'k config_manager_ops \<Rightarrow> 'k \<Rightarrow> config" where
  "settings_of M k = \<lparr>m_ip = cm_getIp M k, m_port = cm_getPort M k, m_useSsl = cm_getUseSsl M k,
     m_useMtls = cm_getUseMtls M k\<rparr>"

text \<open>What AppController::requestConnect stores.\<close>

definition store_settings :: "'k config_manager_ops \<Rightarrow> string \<Rightarrow> int \<Rightarrow> bool \<Rightarrow> bool \<Rightarrow> 'k \<Rightarrow> 'k" where
  "store_settings M ip port useSsl useMtls k =
     snd (cm_save M (cm_setUseMtls M useMtls (cm_setUseSsl M useSsl (cm_setPort M port (cm_setIp M ip k)))))"

locale config_contract =
  fixes M :: "'k config_manager_ops"
  assumes set_ip: "settings_of M (cm_setIp M v k) = (settings_of M k)\<lparr>m_ip := v\<rparr>"
    and set_port: "settings_of M (cm_setPort M p k) = (settings_of M k)\<lparr>m_port := p\<rparr>"
    and set_ssl: "settings_of M (cm_setUseSsl M b k) = (settings_of M k)\<lparr>m_useSsl := b\<rparr>"
    and set_mtls: "settings_of M (cm_setUseMtls M b k) = (settings_of M k)\<lparr>m_useMtls := b\<rparr>"
    and save_keeps: "settings_of M (snd (cm_save M k)) = settings_of M k"
    and default_store: "settings_of M (cm_defaultConfigStore M k) = settings_of M (cm_populateDefaults M k)"
    and defaults: "settings_of M (cm_populateDefaults M k) =
      \<lparr>m_ip = ''127.0.0.1'', m_port = 9000, m_useSsl = False, m_useMtls = False\<rparr>"
begin

lemma stored: "settings_of M (store_settings M ip port useSsl useMtls k) =
    \<lparr>m_ip = ip, m_port = port, m_useSsl = useSsl, m_useMtls = useMtls\<rparr>"
  by (simp add: store_settings_def save_keeps set_ip set_port set_ssl set_mtls)

end

text \<open>ConfigManager implements it.\<close>

definition config_ops :: "json_lib \<Rightarrow> (config \<times> desk_disk) config_manager_ops" where
  "config_ops L = \<lparr>cm_load = (\<lambda>(g, d). load L g d), cm_save = (\<lambda>(g, d). case save L g d of (r, d') \<Rightarrow> (r, (g, d'))),
     cm_defaultConfigStore = (\<lambda>(g, d). defaultConfigStore L g d), cm_populateDefaults = (\<lambda>(g, d). (populateDefaults g, d)),
     cm_getIp = (\<lambda>(g, d). m_ip g), cm_setIp = (\<lambda>v (g, d). (g\<lparr>m_ip := v\<rparr>, d)),
     cm_getPort = (\<lambda>(g, d). m_port g), cm_setPort = (\<lambda>p (g, d). (g\<lparr>m_port := p\<rparr>, d)),
     cm_getUseSsl = (\<lambda>(g, d). m_useSsl g), cm_setUseSsl = (\<lambda>b (g, d). (g\<lparr>m_useSsl := b\<rparr>, d)),
     cm_getUseMtls = (\<lambda>(g, d). m_useMtls g), cm_setUseMtls = (\<lambda>b (g, d). (g\<lparr>m_useMtls := b\<rparr>, d))\<rparr>"

lemma settings_of_config [simp]: "settings_of (config_ops L) (g, d) = g"
  by (simp add: settings_of_def config_ops_def)

interpretation manager: config_contract "config_ops L" for L
proof
  fix k :: "config \<times> desk_disk" and v p b
  obtain g d where k: "k = (g, d)" by (cases k)
  show "settings_of (config_ops L) (cm_setIp (config_ops L) v k) = (settings_of (config_ops L) k)\<lparr>m_ip := v\<rparr>"
    "settings_of (config_ops L) (cm_setPort (config_ops L) p k) = (settings_of (config_ops L) k)\<lparr>m_port := p\<rparr>"
    "settings_of (config_ops L) (cm_setUseSsl (config_ops L) b k) = (settings_of (config_ops L) k)\<lparr>m_useSsl := b\<rparr>"
    "settings_of (config_ops L) (cm_setUseMtls (config_ops L) b k) = (settings_of (config_ops L) k)\<lparr>m_useMtls := b\<rparr>"
    "settings_of (config_ops L) (snd (cm_save (config_ops L) k)) = settings_of (config_ops L) k"
    "settings_of (config_ops L) (cm_defaultConfigStore (config_ops L) k) = settings_of (config_ops L) (cm_populateDefaults (config_ops L) k)"
    "settings_of (config_ops L) (cm_populateDefaults (config_ops L) k) =
      \<lparr>m_ip = ''127.0.0.1'', m_port = 9000, m_useSsl = False, m_useMtls = False\<rparr>"
    unfolding k settings_of_def
    by (simp_all add: config_ops_def defaultConfigStore_def populateDefaults_def Let_def split: prod.split)
qed

lemma store_settings_files [simp]:
  "store_settings (config_ops L) ip port useSsl useMtls (g, d) =
     (\<lparr>m_ip = ip, m_port = port, m_useSsl = useSsl, m_useMtls = useMtls\<rparr>,
      snd (save L \<lparr>m_ip = ip, m_port = port, m_useSsl = useSsl, m_useMtls = useMtls\<rparr> d))"
    (is "?s = (?g, ?d)")
proof (rule prod_eqI)
  show "fst ?s = fst (?g, ?d)"
    using manager.stored [of L ip port useSsl useMtls "(g, d)"] by (metis fst_conv prod.collapse settings_of_config)
  show "snd ?s = snd (?g, ?d)"
    by (cases g) (simp add: store_settings_def config_ops_def case_prod_beta)
qed

end
