(* ===== verification/Desk_Tls.thy ===== *)
theory Desk_Tls
  imports Prelude Desk_Constants
begin

text \<open>
  The TLS session of the desktop client: OpenSslSession (network/openssl_session.cc) behind
  the interface ISslSession, and OpenSslMtlsConfigurator (network/openssl_mtls_configurator.cc),
  which loads the certificates of the user for mutual TLS. OpenSSL is the answers of a record
  and a heap of contexts and connections, with what each context verifies. Reads and writes
  are numbered: the first argument of \<open>ssl_write\<close> and \<open>ssl_read\<close> is the number of the call.
\<close>

section \<open>Data\<close>

datatype verify_mode = VERIFY_DEFAULT | VERIFY_NONE | VERIFY_PEER

record ssl_env =
  home_dir :: "string option"
  ctx_new :: "nat option"
  load_ca :: "nat \<Rightarrow> string \<Rightarrow> int"
  use_cert :: "nat \<Rightarrow> string \<Rightarrow> int"
  use_key :: "nat \<Rightarrow> string \<Rightarrow> int"
  ssl_new :: "nat \<Rightarrow> nat option"
  ssl_connect :: "nat \<Rightarrow> int \<Rightarrow> int"
  ssl_write :: "nat \<Rightarrow> nat \<Rightarrow> string \<Rightarrow> int"
  ssl_read :: "nat \<Rightarrow> nat \<Rightarrow> string option"

text \<open>
  The members of the session, and the objects of OpenSSL that are alive: each context with
  what it verifies, each connection with its context.
\<close>

record ssl_session =
  s_ctx :: "nat option"
  s_ssl :: "nat option"
  ctxs :: "nat \<rightharpoonup> verify_mode"
  conns :: "nat \<rightharpoonup> nat"

definition OpenSslSession :: ssl_session where
  "OpenSslSession = \<lparr>s_ctx = None, s_ssl = None, ctxs = Map.empty, conns = Map.empty\<rparr>"

section \<open>Operations\<close>

definition set_verify :: "nat \<Rightarrow> verify_mode \<Rightarrow> ssl_session \<Rightarrow> ssl_session" where
  "set_verify ctx m s = s\<lparr>ctxs := (ctxs s)(ctx \<mapsto> m)\<rparr>"

definition config_dir :: "ssl_env \<Rightarrow> string" where
  "config_dir env = (case home_dir env of Some h \<Rightarrow> h @ cMinihilConfigDir | None \<Rightarrow> cDefaultDir)"

text \<open>The context is never null where the session calls it.\<close>

definition configureContext :: "ssl_env \<Rightarrow> nat \<Rightarrow> ssl_session \<Rightarrow> bool \<times> ssl_session" where
  "configureContext env ctx s =
     (let dir = config_dir env
      in if load_ca env ctx (dir @ cCaCertFile) \<le> 0 then (False, s)
         else if use_cert env ctx (dir @ cClientCertFile) \<le> 0 then (False, s)
         else if use_key env ctx (dir @ cClientKeyFile) \<le> 0 then (False, s)
         else (True, set_verify ctx VERIFY_PEER s))"

definition ssl_disconnect :: "ssl_session \<Rightarrow> ssl_session" where
  "ssl_disconnect s =
     (let s1 = (case s_ssl s of None \<Rightarrow> s | Some x \<Rightarrow> s\<lparr>conns := (conns s)(x := None), s_ssl := None\<rparr>)
      in case s_ctx s1 of None \<Rightarrow> s1 | Some c \<Rightarrow> s1\<lparr>ctxs := (ctxs s1)(c := None), s_ctx := None\<rparr>)"

text \<open>
  \<open>cfg\<close> tells whether the session was given a configurator, which the factory does.
\<close>

definition initAndConnect :: "ssl_env \<Rightarrow> bool \<Rightarrow> int \<Rightarrow> bool \<Rightarrow> ssl_session \<Rightarrow> bool \<times> ssl_session" where
  "initAndConnect env cfg socketFd useMtls s0 =
     (let s = ssl_disconnect s0
      in case ctx_new env of
        None \<Rightarrow> (False, s)
      | Some ctx \<Rightarrow>
          let s1 = s\<lparr>ctxs := (ctxs s)(ctx \<mapsto> VERIFY_DEFAULT), s_ctx := Some ctx\<rparr>;
              (ok, s2) = (if useMtls then (if cfg then configureContext env ctx s1 else (True, s1))
                          else (True, set_verify ctx VERIFY_NONE s1))
          in if \<not> ok then (False, ssl_disconnect s2)
             else case ssl_new env ctx of
                 None \<Rightarrow> (False, ssl_disconnect s2)
               | Some x \<Rightarrow>
                   let s3 = s2\<lparr>conns := (conns s2)(x \<mapsto> ctx), s_ssl := Some x\<rparr>
                   in if ssl_connect env x socketFd \<le> 0 then (False, ssl_disconnect s3) else (True, s3))"

definition ssl_send :: "ssl_env \<Rightarrow> nat \<Rightarrow> string \<Rightarrow> ssl_session \<Rightarrow> int" where
  "ssl_send env n buf s = (case s_ssl s of None \<Rightarrow> - 1 | Some x \<Rightarrow> ssl_write env n x buf)"

text \<open>\<open>None\<close> stands for a result of zero or less.\<close>

definition ssl_receive :: "ssl_env \<Rightarrow> nat \<Rightarrow> ssl_session \<Rightarrow> string option" where
  "ssl_receive env n s = (case s_ssl s of None \<Rightarrow> None | Some x \<Rightarrow> ssl_read env n x)"

section \<open>Ownership\<close>

text \<open>
  A session owns what is alive: one context and one connection of it, or nothing. OpenSSL
  gives objects that are not in use.
\<close>

definition ssl_ok :: "ssl_session \<Rightarrow> bool" where
  "ssl_ok s \<longleftrightarrow> dom (ctxs s) = set_option (s_ctx s) \<and> dom (conns s) = set_option (s_ssl s) \<and>
     (\<forall>x. s_ssl s = Some x \<longrightarrow> s_ctx s \<noteq> None \<and> conns s x = s_ctx s)"

definition ssl_idle :: "ssl_session \<Rightarrow> bool" where
  "ssl_idle s \<longleftrightarrow> s_ctx s = None \<and> s_ssl s = None \<and> ctxs s = Map.empty \<and> conns s = Map.empty"

lemma ssl_disconnect_fields:
  "s_ssl (ssl_disconnect s) = None" "s_ctx (ssl_disconnect s) = None"
  "ctxs (ssl_disconnect s) = (case s_ctx s of None \<Rightarrow> ctxs s | Some c \<Rightarrow> (ctxs s)(c := None))"
  "conns (ssl_disconnect s) = (case s_ssl s of None \<Rightarrow> conns s | Some x \<Rightarrow> (conns s)(x := None))"
  by (simp_all add: ssl_disconnect_def Let_def split: option.splits)

lemma dom_single_upd: "dom m = {x} \<Longrightarrow> m(x := None) = Map.empty"
  by (auto simp: fun_eq_iff dom_def)

lemma ssl_disconnect_idle:
  assumes "ssl_ok s"
  shows "ssl_idle (ssl_disconnect s)"
proof -
  have "ctxs (ssl_disconnect s) = Map.empty"
    using assms by (cases "s_ctx s") (simp_all add: ssl_ok_def ssl_disconnect_fields dom_single_upd)
  moreover have "conns (ssl_disconnect s) = Map.empty"
    using assms by (cases "s_ssl s") (simp_all add: ssl_ok_def ssl_disconnect_fields dom_single_upd)
  ultimately show ?thesis by (simp add: ssl_idle_def ssl_disconnect_fields)
qed

lemma ssl_idle_ok: "ssl_idle s \<Longrightarrow> ssl_ok s"
  by (simp add: ssl_idle_def ssl_ok_def)

lemma ssl_idle_unique: "ssl_idle s \<Longrightarrow> s = OpenSslSession"
  by (cases s) (simp add: ssl_idle_def OpenSslSession_def)

text \<open>The stage before the connection object: the context, configured.\<close>

definition with_ssl_ctx :: "nat \<Rightarrow> verify_mode \<Rightarrow> ssl_session" where
  "with_ssl_ctx ctx m = \<lparr>s_ctx = Some ctx, s_ssl = None, ctxs = [ctx \<mapsto> m], conns = Map.empty\<rparr>"

definition verify_of :: "bool \<Rightarrow> bool \<Rightarrow> verify_mode" where
  "verify_of cfg useMtls = (if useMtls then (if cfg then VERIFY_PEER else VERIFY_DEFAULT) else VERIFY_NONE)"

lemma with_ssl_ctx_disconnect: "ssl_disconnect (with_ssl_ctx ctx m) = OpenSslSession"
  by (simp add: ssl_disconnect_def with_ssl_ctx_def OpenSslSession_def)

lemma initAndConnect_cases:
  assumes "ssl_ok s"
  obtains (failed) "initAndConnect env cfg fd useMtls s = (False, OpenSslSession)"
  | (connected) ctx x where "ctx_new env = Some ctx" "ssl_new env ctx = Some x" "0 < ssl_connect env x fd"
      "useMtls \<and> cfg \<longrightarrow> 0 < load_ca env ctx (config_dir env @ ''ca.crt'')"
      "initAndConnect env cfg fd useMtls s =
         (True, (with_ssl_ctx ctx (verify_of cfg useMtls))\<lparr>conns := [x \<mapsto> ctx], s_ssl := Some x\<rparr>)"
proof -
  have idle: "ssl_disconnect s = OpenSslSession"
    using ssl_disconnect_idle [OF assms] by (rule ssl_idle_unique)
  show thesis
  proof (cases "ctx_new env")
    case None
    then show thesis by (intro failed) (simp add: initAndConnect_def idle)
  next
    case (Some ctx)
    let ?s1 = "with_ssl_ctx ctx VERIFY_DEFAULT"
    let ?conf = "if useMtls then (if cfg then configureContext env ctx ?s1 else (True, ?s1))
       else (True, set_verify ctx VERIFY_NONE ?s1)"
    have s1: "OpenSslSession\<lparr>ctxs := (ctxs OpenSslSession)(ctx \<mapsto> VERIFY_DEFAULT), s_ctx := Some ctx\<rparr> = ?s1"
      by (simp add: OpenSslSession_def with_ssl_ctx_def)
    have sv: "set_verify ctx m ?s1 = with_ssl_ctx ctx m" for m
      by (simp add: set_verify_def with_ssl_ctx_def)
    have conf: "?conf = (True, with_ssl_ctx ctx (verify_of cfg useMtls)) \<and>
        (useMtls \<and> cfg \<longrightarrow> 0 < load_ca env ctx (config_dir env @ ''ca.crt'')) \<or> ?conf = (False, ?s1)"
      by (auto simp: configureContext_def Let_def sv verify_of_def)
    have eq: "initAndConnect env cfg fd useMtls s = (case ?conf of (ok, s2) \<Rightarrow>
        if \<not> ok then (False, ssl_disconnect s2)
        else case ssl_new env ctx of
            None \<Rightarrow> (False, ssl_disconnect s2)
          | Some x \<Rightarrow> let s3 = s2\<lparr>conns := (conns s2)(x \<mapsto> ctx), s_ssl := Some x\<rparr>
              in if ssl_connect env x fd \<le> 0 then (False, ssl_disconnect s3) else (True, s3))"
      unfolding initAndConnect_def idle Some by (simp only: option.case Let_def s1)
    from conf show thesis
    proof (elim disjE conjE)
      assume "?conf = (False, ?s1)"
      then show thesis
        unfolding eq by (intro failed) (simp only: prod.case eq simp_thms if_True with_ssl_ctx_disconnect)
    next
      assume c: "?conf = (True, with_ssl_ctx ctx (verify_of cfg useMtls))"
        and ca: "useMtls \<and> cfg \<longrightarrow> 0 < load_ca env ctx (config_dir env @ ''ca.crt'')"
      let ?s2 = "with_ssl_ctx ctx (verify_of cfg useMtls)"
      show thesis
      proof (cases "ssl_new env ctx")
        case None
        then have "initAndConnect env cfg fd useMtls s = (False, OpenSslSession)"
          unfolding eq c by (simp add: with_ssl_ctx_disconnect)
        then show thesis by (rule failed)
      next
        case ssl: (Some x)
        let ?s3 = "?s2\<lparr>conns := [x \<mapsto> ctx], s_ssl := Some x\<rparr>"
        have s3: "?s2\<lparr>conns := (conns ?s2)(x \<mapsto> ctx), s_ssl := Some x\<rparr> = ?s3"
          by (simp add: with_ssl_ctx_def)
        show thesis
        proof (cases "ssl_connect env x fd \<le> 0")
          case True
          have "ssl_disconnect ?s3 = OpenSslSession"
            by (simp add: ssl_disconnect_def with_ssl_ctx_def OpenSslSession_def)
          then have "initAndConnect env cfg fd useMtls s = (False, OpenSslSession)"
            unfolding eq c using ssl True s3 by simp
          then show thesis by (rule failed)
        next
          case False
          then have "initAndConnect env cfg fd useMtls s = (True, ?s3)"
            unfolding eq c using ssl s3 by simp
          then show thesis using Some ssl False ca by (intro connected [of ctx x]) simp_all
        qed
      qed
    qed
  qed
qed

section \<open>The interface ISslSession\<close>

record 's session_ops =
  se_init :: "int \<Rightarrow> bool \<Rightarrow> 's \<Rightarrow> bool \<times> 's"
  se_disconnect :: "'s \<Rightarrow> 's"
  se_send :: "nat \<Rightarrow> string \<Rightarrow> 's \<Rightarrow> int"
  se_receive :: "nat \<Rightarrow> 's \<Rightarrow> string option"

text \<open>
  What a client may rely on: \<open>ok\<close> is kept by all operations, and a session that disconnected
  or failed to connect holds nothing and moves no byte.
\<close>

locale tls_session =
  fixes sops :: "'s session_ops"
    and ok :: "'s \<Rightarrow> bool"
    and idle :: "'s \<Rightarrow> bool"
  assumes idle_ok: "idle s \<Longrightarrow> ok s"
    and disconnect_idle: "ok s \<Longrightarrow> idle (se_disconnect sops s)"
    and init_ok: "ok s \<Longrightarrow> ok (snd (se_init sops fd useMtls s))"
    and init_failed: "ok s \<Longrightarrow> \<not> fst (se_init sops fd useMtls s) \<Longrightarrow> idle (snd (se_init sops fd useMtls s))"
    and idle_send: "idle s \<Longrightarrow> se_send sops n buf s < 0"
    and idle_receive: "idle s \<Longrightarrow> se_receive sops n s = None"

definition openssl_ops :: "ssl_env \<Rightarrow> bool \<Rightarrow> ssl_session session_ops" where
  "openssl_ops env cfg = \<lparr>se_init = initAndConnect env cfg, se_disconnect = ssl_disconnect,
     se_send = ssl_send env, se_receive = ssl_receive env\<rparr>"

lemma openssl_ops_sel [simp]:
  "se_init (openssl_ops env cfg) = initAndConnect env cfg"
  "se_disconnect (openssl_ops env cfg) = ssl_disconnect"
  "se_send (openssl_ops env cfg) = ssl_send env" "se_receive (openssl_ops env cfg) = ssl_receive env"
  by (simp_all add: openssl_ops_def)

lemma OpenSslSession_idle: "ssl_idle OpenSslSession"
  by (simp add: ssl_idle_def OpenSslSession_def)

lemma connected_ok:
  "ssl_ok ((with_ssl_ctx ctx m)\<lparr>conns := [x \<mapsto> ctx], s_ssl := Some x\<rparr>)"
  by (simp add: ssl_ok_def with_ssl_ctx_def)

interpretation openssl: tls_session "openssl_ops env cfg" ssl_ok ssl_idle for env cfg
proof
  fix s fd useMtls n buf
  show "ssl_idle s \<Longrightarrow> ssl_ok s" by (rule ssl_idle_ok)
  show "ssl_ok s \<Longrightarrow> ssl_idle (se_disconnect (openssl_ops env cfg) s)"
    by (simp add: ssl_disconnect_idle)
  show "ssl_idle s \<Longrightarrow> se_send (openssl_ops env cfg) n buf s < 0"
    "ssl_idle s \<Longrightarrow> se_receive (openssl_ops env cfg) n s = None"
    by (simp_all add: ssl_idle_def ssl_send_def ssl_receive_def)
  assume "ssl_ok s"
  then show "ssl_ok (snd (se_init (openssl_ops env cfg) fd useMtls s))"
  proof (cases rule: initAndConnect_cases [where env = env and cfg = cfg and fd = fd and useMtls = useMtls])
    case failed
    then show ?thesis by (simp add: ssl_idle_ok OpenSslSession_idle)
  next
    case (connected ctx x)
    then show ?thesis by (simp only: openssl_ops_sel snd_conv connected_ok)
  qed
  assume "ssl_ok s" "\<not> fst (se_init (openssl_ops env cfg) fd useMtls s)"
  from this(1) show "ssl_idle (snd (se_init (openssl_ops env cfg) fd useMtls s))"
  proof (cases rule: initAndConnect_cases [where env = env and cfg = cfg and fd = fd and useMtls = useMtls])
    case failed
    then show ?thesis by (simp add: OpenSslSession_idle)
  next
    case (connected ctx x)
    with \<open>\<not> fst _\<close> show ?thesis by (simp only: openssl_ops_sel fst_conv simp_thms)
  qed
qed

section \<open>Properties\<close>

text \<open>
  A TLS session that cannot be set up leaves nothing behind, whatever step failed: no
  context, no connection. One that is set up owns exactly one connection of one context.
\<close>

theorem tls_session_leaks_nothing:
  assumes "ssl_ok s" "initAndConnect env cfg fd useMtls s = (r, s')"
  shows "(\<not> r \<longrightarrow> ctxs s' = Map.empty \<and> conns s' = Map.empty \<and> s_ctx s' = None \<and> s_ssl s' = None) \<and>
    (r \<longrightarrow> (\<exists>ctx x. s_ctx s' = Some ctx \<and> s_ssl s' = Some x \<and> dom (ctxs s') = {ctx} \<and> conns s' = [x \<mapsto> ctx]))"
  using assms(1)
proof (cases rule: initAndConnect_cases [where env = env and cfg = cfg and fd = fd and useMtls = useMtls])
  case failed
  then show ?thesis using assms(2) by (simp add: OpenSslSession_def)
next
  case (connected ctx x)
  then show ?thesis using assms(2) by (auto simp: with_ssl_ctx_def)
qed

definition demo_ssl :: "int \<Rightarrow> ssl_env" where
  "demo_ssl ca = \<lparr>home_dir = Some ''/home/user'', ctx_new = Some 1, load_ca = (\<lambda>_ _. ca),
     use_cert = (\<lambda>_ _. 1), use_key = (\<lambda>_ _. 1), ssl_new = (\<lambda>_. Some 2), ssl_connect = (\<lambda>_ _. 1),
     ssl_write = (\<lambda>_ _ buf. int (length buf)), ssl_read = (\<lambda>_ _. None)\<rparr>"

lemma demo_ssl_connect:
  "initAndConnect (demo_ssl 1) True 5 True OpenSslSession =
     (True, (with_ssl_ctx 1 VERIFY_PEER)\<lparr>conns := [2 \<mapsto> 1], s_ssl := Some 2\<rparr>)"
  by (simp add: initAndConnect_def demo_ssl_def ssl_disconnect_def OpenSslSession_def configureContext_def
      set_verify_def with_ssl_ctx_def Let_def)

theorem tls_session_leaks_nothing_witness:
  "conns ((with_ssl_ctx 1 VERIFY_PEER)\<lparr>conns := [2 \<mapsto> 1], s_ssl := Some 2\<rparr>) = [2 \<mapsto> 1]"
  using tls_session_leaks_nothing [OF ssl_idle_ok [OF OpenSslSession_idle] demo_ssl_connect]
  by (auto simp: with_ssl_ctx_def)

text \<open>
  C39: With mutual TLS a connection that is set up verifies the server against the CA in the
  configuration directory of the user; without it the certificate of the server is not
  verified at all.
\<close>

theorem client_verification:
  assumes "ssl_ok s" "initAndConnect env True fd useMtls s = (True, s')"
  shows "\<exists>ctx. s_ctx s' = Some ctx \<and>
    ctxs s' ctx = Some (if useMtls then VERIFY_PEER else VERIFY_NONE) \<and>
    (useMtls \<longrightarrow> 0 < load_ca env ctx (config_dir env @ ''ca.crt''))"
  using assms(1)
proof (cases rule: initAndConnect_cases [where env = env and cfg = True and fd = fd and useMtls = useMtls])
  case failed
  then show ?thesis using assms(2) by simp
next
  case (connected ctx x)
  then show ?thesis using assms(2) by (auto simp: with_ssl_ctx_def verify_of_def)
qed

theorem client_verification_witness:
  "ctxs ((with_ssl_ctx 1 VERIFY_PEER)\<lparr>conns := [2 \<mapsto> 1], s_ssl := Some 2\<rparr>) 1 = Some VERIFY_PEER"
  using client_verification [OF ssl_idle_ok [OF OpenSslSession_idle] demo_ssl_connect]
  by (auto simp: with_ssl_ctx_def)

end
