(* ===== verification/Desk_Client.thy ===== *)
theory Desk_Client
  imports Desk_Tls Framing
begin

text \<open>
  TcpClient of the desktop client (network/tcp_client.cc): connecting, sending a message whole,
  and reading the answers line by line, over a socket or the TLS session it was given. Of the
  session it uses only the contract \<open>tls_session\<close>.
\<close>

section \<open>Data\<close>

text \<open>
  The network: the descriptor of a new socket, the addresses inet_pton accepts, the result of
  connect, and those of the calls of send and recv, by the number of the call. A recv gives
  some bytes, or \<open>None\<close> for a result of zero or less.
\<close>

record client_env =
  new_socket :: int
  valid_ip :: "string \<Rightarrow> bool"
  connect_to :: "int \<Rightarrow> string \<Rightarrow> 16 word \<Rightarrow> int"
  sock_send :: "nat \<Rightarrow> int \<Rightarrow> string \<Rightarrow> int"
  sock_recv :: "nat \<Rightarrow> int \<Rightarrow> string option"

text \<open>
  The members of the class, then the process: its open sockets, those shut down, the bytes
  the network accepted on the connection, and the number of calls of send and recv so far.
\<close>

record 's tcp_client =
  m_socketFd :: int
  m_readBuffer :: string
  c_useSsl :: bool
  m_sslSession :: "'s option"
  sockets :: "int set"
  shut_down :: "int set"
  wire :: string
  io_calls :: nat

definition TcpClient :: "'s option \<Rightarrow> 's tcp_client" where
  "TcpClient session = \<lparr>m_socketFd = - 1, m_readBuffer = [], c_useSsl = False,
     m_sslSession = session, sockets = {}, shut_down = {}, wire = [], io_calls = 0\<rparr>"

section \<open>Connecting\<close>

definition close_socket :: "'s tcp_client \<Rightarrow> 's tcp_client" where
  "close_socket c = c\<lparr>sockets := sockets c - {m_socketFd c}, shut_down := shut_down c - {m_socketFd c},
     m_socketFd := - 1\<rparr>"

definition shutdownSocket :: "'s tcp_client \<Rightarrow> 's tcp_client" where
  "shutdownSocket c = (if m_socketFd c \<ge> 0 then c\<lparr>shut_down := insert (m_socketFd c) (shut_down c)\<rparr> else c)"

definition client_disconnect :: "'s session_ops \<Rightarrow> 's tcp_client \<Rightarrow> 's tcp_client" where
  "client_disconnect sops c =
     (let c1 = c\<lparr>m_sslSession := map_option (se_disconnect sops) (m_sslSession c)\<rparr>;
          c2 = (if m_socketFd c1 \<ge> 0 then close_socket (shutdownSocket c1) else c1)
      in c2\<lparr>m_readBuffer := []\<rparr>)"

definition client_connect :: "client_env \<Rightarrow> 's session_ops \<Rightarrow> string \<Rightarrow> int \<Rightarrow> bool \<Rightarrow> bool \<Rightarrow>
    's tcp_client \<Rightarrow> bool \<times> 's tcp_client" where
  "client_connect env sops ip port useSsl useMtls c0 =
     (let c = (client_disconnect sops c0)\<lparr>c_useSsl := useSsl, m_socketFd := new_socket env\<rparr>
      in if m_socketFd c < 0 then (False, c)
         else let c1 = c\<lparr>sockets := insert (m_socketFd c) (sockets c), wire := []\<rparr>
           in if \<not> valid_ip env ip then (False, close_socket c1)
              else if connect_to env (m_socketFd c1) ip (word_of_int port) < 0
              then (False, close_socket c1)
              else if c_useSsl c1 then
                (case m_sslSession c1 of
                   None \<Rightarrow> (True, c1)
                 | Some s \<Rightarrow>
                     let (ok, s') = se_init sops (m_socketFd c1) useMtls s;
                         c2 = c1\<lparr>m_sslSession := Some s'\<rparr>
                     in if \<not> ok then (False, close_socket c2) else (True, c2))
              else (True, c1))"

definition isOpen :: "'s tcp_client \<Rightarrow> bool" where
  "isOpen c \<longleftrightarrow> m_socketFd c \<ge> 0"

section \<open>Sending\<close>

text \<open>One call, to the session when there is one and TLS is on.\<close>

definition write_some :: "client_env \<Rightarrow> 's session_ops \<Rightarrow> int \<Rightarrow> nat \<Rightarrow> string \<Rightarrow> 's tcp_client \<Rightarrow> int" where
  "write_some env sops fd n buf c =
     (case m_sslSession c of
        Some s \<Rightarrow> if c_useSsl c then se_send sops n buf s else sock_send env n fd buf
      | None \<Rightarrow> sock_send env n fd buf)"

text \<open>
  The loop: \<open>totalSent\<close> bytes are out. It ends because every turn that goes on sends at least
  one. The text handed to the network comes back with the result.
\<close>

function send_loop :: "(nat \<Rightarrow> string \<Rightarrow> int) \<Rightarrow> string \<Rightarrow> nat \<Rightarrow> nat \<Rightarrow> bool \<times> nat \<times> string" where
  "send_loop wr message totalSent n =
     (if totalSent < length message then
        let sent = wr n (drop totalSent message)
        in if sent \<le> 0 then (False, Suc n, [])
           else let (ok, n', rest) = send_loop wr message (totalSent + nat sent) (Suc n)
             in (ok, n', take (nat sent) (drop totalSent message) @ rest)
      else (True, n, []))"
  by pat_completeness auto
termination
  by (relation "measure (\<lambda>(_, message, totalSent, _). length message - totalSent)") auto

declare send_loop.simps [simp del]

definition client_send :: "client_env \<Rightarrow> 's session_ops \<Rightarrow> string \<Rightarrow> 's tcp_client \<Rightarrow>
    bool \<times> 's tcp_client" where
  "client_send env sops message c =
     (let fd = m_socketFd c
      in if fd < 0 then (False, c)
         else let (ok, n, out) = send_loop (\<lambda>n buf. write_some env sops fd n buf c) message 0 (io_calls c)
           in (ok, c\<lparr>io_calls := n, wire := wire c @ out\<rparr>))"

section \<open>Receiving\<close>

definition read_some :: "client_env \<Rightarrow> 's session_ops \<Rightarrow> int \<Rightarrow> nat \<Rightarrow> 's tcp_client \<Rightarrow> string option" where
  "read_some env sops fd n c =
     (case m_sslSession c of
        Some s \<Rightarrow> if c_useSsl c then se_receive sops n s else sock_recv env n fd
      | None \<Rightarrow> sock_recv env n fd)"

text \<open>
  The loop reads until there is a newline. It need not end: \<open>None\<close> is the call that never
  returns. An empty line, an error and the end of the connection all give the empty text.
\<close>

partial_function (option) receive_loop :: "(nat \<Rightarrow> string option) \<Rightarrow> string \<Rightarrow> nat \<Rightarrow>
    (string \<times> string \<times> nat) option" where
  "receive_loop recv buf n =
     (case find_char nl buf of
        Some pos \<Rightarrow> Some (take pos buf, drop (pos + 1) buf, n)
      | None \<Rightarrow>
          (case recv n of
             None \<Rightarrow> Some ([], buf, Suc n)
           | Some b \<Rightarrow> receive_loop recv (buf @ b) (Suc n)))"

definition receiveLine :: "client_env \<Rightarrow> 's session_ops \<Rightarrow> 's tcp_client \<Rightarrow> (string \<times> 's tcp_client) option" where
  "receiveLine env sops c =
     (let fd = m_socketFd c;
          recv = (\<lambda>n. if fd < 0 then None else read_some env sops fd n c)
      in map_option (\<lambda>(line, buf, n). (line, c\<lparr>m_readBuffer := buf, io_calls := n\<rparr>))
           (receive_loop recv (m_readBuffer c) (io_calls c)))"

section \<open>Sending whole messages\<close>

lemma send_loop_prefix:
  "send_loop wr message t n = (ok, n', out) \<Longrightarrow>
     (\<And>k buf. wr k buf \<le> int (length buf)) \<Longrightarrow>
     (ok \<longrightarrow> out = drop t message) \<and> (\<not> ok \<longrightarrow> (\<exists>rest. rest \<noteq> [] \<and> drop t message = out @ rest))"
proof (induction wr message t n arbitrary: out n' ok rule: send_loop.induct)
  case (1 wr message t n)
  show ?case
  proof (cases "t < length message")
    case False
    with 1(2) show ?thesis by (simp add: send_loop.simps [of wr message t n])
  next
    case True
    let ?s = "wr n (drop t message)"
    show ?thesis
    proof (cases "?s \<le> 0")
      case stop: True
      with 1(2) True have "\<not> ok" "out = []"
        by (simp_all add: send_loop.simps [of wr message t n])
      with True show ?thesis by simp
    next
      case False
      obtain ok' m rest where rec: "send_loop wr message (t + nat ?s) (Suc n) = (ok', m, rest)"
        by (cases "send_loop wr message (t + nat ?s) (Suc n)") auto
      with 1(2) True False have w: "ok = ok'" "out = take (nat ?s) (drop t message) @ rest"
        by (simp_all add: send_loop.simps [of wr message t n])
      have split: "drop t message = take (nat ?s) (drop t message) @ drop (t + nat ?s) message"
        by (metis append_take_drop_id drop_drop add.commute)
      from 1(1) [OF True refl False rec 1(3)] w split show ?thesis by (metis append.assoc)
    qed
  qed
qed

lemma client_send_fields:
  "m_socketFd (snd (client_send env sops message c)) = m_socketFd c"
  "sockets (snd (client_send env sops message c)) = sockets c"
  "m_sslSession (snd (client_send env sops message c)) = m_sslSession c"
  "m_readBuffer (snd (client_send env sops message c)) = m_readBuffer c"
  "c_useSsl (snd (client_send env sops message c)) = c_useSsl c"
  by (simp_all add: client_send_def Let_def split: prod.split)

lemma client_send_wire:
  assumes "client_send env sops message c = (ok, c')"
    and "\<And>n buf. write_some env sops (m_socketFd c) n buf c \<le> int (length buf)"
  shows "\<exists>out rest. wire c' = wire c @ out \<and> message = out @ rest \<and>
     (if ok then m_socketFd c \<ge> 0 \<and> rest = [] else m_socketFd c < 0 \<or> rest \<noteq> [])"
proof (cases "m_socketFd c < 0")
  case True
  then show ?thesis using assms(1) by (auto simp: client_send_def)
next
  case False
  let ?wr = "\<lambda>n buf. write_some env sops (m_socketFd c) n buf c"
  obtain ok' n out where l: "send_loop ?wr message 0 (io_calls c) = (ok', n, out)"
    by (cases "send_loop ?wr message 0 (io_calls c)") auto
  have r: "ok = ok'" "wire c' = wire c @ out"
    using assms(1) False by (auto simp: client_send_def l)
  show ?thesis
    using send_loop_prefix [OF l assms(2)] False r by (cases ok') auto
qed

section \<open>Reading lines\<close>

text \<open>The bytes of the reads from number \<open>n\<close> on, \<open>k\<close> of them.\<close>

definition stream :: "(nat \<Rightarrow> string option) \<Rightarrow> nat \<Rightarrow> nat \<Rightarrow> string" where
  "stream rc n k = concat (map (\<lambda>i. case rc i of None \<Rightarrow> [] | Some b \<Rightarrow> b) [n..<n + k])"

lemma stream_0 [simp]: "stream rc n 0 = []"
  by (simp add: stream_def)

lemma stream_Suc:
  assumes "rc n = Some b"
  shows "stream rc n (Suc k) = b @ stream rc (Suc n) k"
proof -
  have "[n..<n + Suc k] = n # [Suc n..<Suc n + k]"
    by (subst upt_conv_Cons) (simp_all del: upt_Suc)
  with assms show ?thesis by (simp add: stream_def)
qed

lemma receive_loop_found:
  "find_char nl buf = Some p \<Longrightarrow> receive_loop rc buf n = Some (take p buf, drop (p + 1) buf, n)"
  by (simp add: receive_loop.simps [of rc buf])

lemma receive_loop_read:
  "nl \<notin> set buf \<Longrightarrow> receive_loop rc buf n =
     (case rc n of None \<Rightarrow> Some ([], buf, Suc n) | Some b \<Rightarrow> receive_loop rc (buf @ b) (Suc n))"
  by (simp add: receive_loop.simps [of rc buf] find_char_None [THEN iffD2])

text \<open>A line is returned when it arrives, however it is split into reads; nothing is lost.\<close>

lemma receive_loop_line:
  "\<forall>i < k. rc (n + i) \<noteq> None \<Longrightarrow> nl \<in> set (buf @ stream rc n k) \<Longrightarrow>
     \<exists>line rest j. receive_loop rc buf n = Some (line, rest, n + j) \<and> j \<le> k \<and>
       buf @ stream rc n j = line @ nl # rest \<and> nl \<notin> set line"
proof (induction k arbitrary: buf n)
  case 0
  then obtain p where p: "find_char nl buf = Some p"
    using find_char_None [of nl buf] by auto
  from buffer_line [OF p] show ?case
    by (intro exI [of _ "take p buf"] exI [of _ "drop (p + 1) buf"] exI [of _ 0])
      (auto simp: receive_loop_found [OF p])
next
  case (Suc k)
  show ?case
  proof (cases "find_char nl buf")
    case (Some p)
    from buffer_line [OF Some] show ?thesis
      by (intro exI [of _ "take p buf"] exI [of _ "drop (p + 1) buf"] exI [of _ 0])
        (auto simp: receive_loop_found [OF Some])
  next
    case None
    then have buf: "nl \<notin> set buf" by (simp add: find_char_None)
    from Suc.prems(1) obtain b where b: "rc n = Some b" by (metis add_0_right not_None_eq zero_less_Suc)
    have "\<forall>i < k. rc (Suc n + i) \<noteq> None"
      using Suc.prems(1) by (metis Suc_less_eq add_Suc_shift)
    moreover have "nl \<in> set ((buf @ b) @ stream rc (Suc n) k)"
      using Suc.prems(2) by (simp add: stream_Suc [of rc n b, OF b])
    ultimately obtain line rest j where j: "receive_loop rc (buf @ b) (Suc n) = Some (line, rest, Suc n + j)"
      "j \<le> k" "(buf @ b) @ stream rc (Suc n) j = line @ nl # rest" "nl \<notin> set line"
      using Suc.IH by blast
    with b buf show ?thesis
      by (intro exI [of _ line] exI [of _ rest] exI [of _ "Suc j"])
        (simp add: receive_loop_read stream_Suc [of rc n b, OF b])
  qed
qed

lemma receive_loop_lost:
  "\<forall>i < k. rc (n + i) \<noteq> None \<Longrightarrow> rc (n + k) = None \<Longrightarrow> nl \<notin> set (buf @ stream rc n k) \<Longrightarrow>
     receive_loop rc buf n = Some ([], buf @ stream rc n k, n + k + 1)"
proof (induction k arbitrary: buf n)
  case 0
  then show ?case by (simp add: receive_loop_read)
next
  case (Suc k)
  from Suc.prems(1) obtain b where b: "rc n = Some b" by (metis add_0_right not_None_eq zero_less_Suc)
  have "\<forall>i < k. rc (Suc n + i) \<noteq> None"
    using Suc.prems(1) by (metis Suc_less_eq add_Suc_shift)
  with Suc.prems b show ?case
    using Suc.IH [of "Suc n" "buf @ b"] by (simp add: receive_loop_read stream_Suc [of rc n b, OF b])
qed

text \<open>The other way round: a call that returns has seen the end of a line or of the connection.\<close>

lemma receive_loop_SomeD:
  assumes "receive_loop rc buf n = Some (line, rest, n')"
  shows "\<exists>k. (\<forall>i < k. rc (n + i) \<noteq> None) \<and> (rc (n + k) = None \<or> nl \<in> set (buf @ stream rc n k))"
  using assms
proof (induction rc buf n line rest n' rule: receive_loop.raw_induct [split_format (complete), rotated, consumes 1])
  case (1 loop rc buf n line rest n')
  show ?case
  proof (cases "nl \<in> set buf")
    case True
    then show ?thesis by (intro exI [of _ 0]) simp
  next
    case False
    show ?thesis
    proof (cases "rc n")
      case None
      then show ?thesis by (intro exI [of _ 0]) simp
    next
      case (Some b)
      with False 1(2) have "loop rc (buf @ b) (Suc n) = Some (line, rest, n')"
        by (simp add: find_char_None [THEN iffD2])
      from 1(1) [OF this] obtain k where
        "\<forall>i < k. rc (Suc n + i) \<noteq> None" "rc (Suc n + k) = None \<or> nl \<in> set ((buf @ b) @ stream rc (Suc n) k)"
        by blast
      then show ?thesis
        using Some by (intro exI [of _ "Suc k"]) (auto simp: stream_Suc [of rc n b, OF Some] less_Suc_eq_0_disj)
    qed
  qed
qed

lemma receive_loop_no_nl:
  assumes "receive_loop rc buf n = Some (line, rest, n')"
  shows "nl \<notin> set line"
  using assms
proof (induction rc buf n line rest n' rule: receive_loop.raw_induct [split_format (complete), rotated, consumes 1])
  case (1 loop rc buf n line rest n')
  show ?case
  proof (cases "find_char nl buf")
    case None
    with 1 show ?thesis by (auto split: option.splits)
  next
    case (Some p)
    with 1(2) buffer_line [OF Some] show ?thesis by auto
  qed
qed

section \<open>The interface ITcpClient\<close>

record 'c client_ops =
  cl_connect :: "string \<Rightarrow> int \<Rightarrow> bool \<Rightarrow> bool \<Rightarrow> 'c \<Rightarrow> bool \<times> 'c"
  cl_disconnect :: "'c \<Rightarrow> 'c"
  cl_shutdown :: "'c \<Rightarrow> 'c"
  cl_open :: "'c \<Rightarrow> bool"
  cl_send :: "string \<Rightarrow> 'c \<Rightarrow> bool \<times> 'c"
  cl_receive :: "'c \<Rightarrow> (string \<times> 'c) option"

text \<open>
  What the application may rely on. \<open>closed\<close> is a client that holds nothing; \<open>sent\<close> is what
  the network has accepted.
\<close>

locale tcp_client_contract =
  fixes cops :: "'c client_ops"
    and ok :: "'c \<Rightarrow> bool"
    and closed :: "'c \<Rightarrow> bool"
    and sent :: "'c \<Rightarrow> string"
  assumes closed_ok: "closed c \<Longrightarrow> ok c"
    and closed_not_open: "closed c \<Longrightarrow> \<not> cl_open cops c"
    and disconnect_closed: "ok c \<Longrightarrow> closed (cl_disconnect cops c)"
    and shutdown_ok: "ok c \<Longrightarrow> ok (cl_shutdown cops c)"
    and connect_ok: "ok c \<Longrightarrow> ok (snd (cl_connect cops ip port useSsl useMtls c))"
    and connect_open: "ok c \<Longrightarrow> fst (cl_connect cops ip port useSsl useMtls c) \<Longrightarrow>
      cl_open cops (snd (cl_connect cops ip port useSsl useMtls c))"
    and connect_failed: "ok c \<Longrightarrow> \<not> fst (cl_connect cops ip port useSsl useMtls c) \<Longrightarrow>
      closed (snd (cl_connect cops ip port useSsl useMtls c))"
    and send_ok: "ok c \<Longrightarrow> ok (snd (cl_send cops message c))"
    and send_open: "cl_open cops (snd (cl_send cops message c)) = cl_open cops c"
    and send_whole: "ok c \<Longrightarrow> fst (cl_send cops message c) \<Longrightarrow>
      cl_open cops c \<and> sent (snd (cl_send cops message c)) = sent c @ message"
    and receive_ok: "ok c \<Longrightarrow> cl_receive cops c = Some (line, c') \<Longrightarrow> ok c'"
    and receive_open: "cl_receive cops c = Some (line, c') \<Longrightarrow> cl_open cops c' = cl_open cops c"
    and receive_line: "cl_receive cops c = Some (line, c') \<Longrightarrow> nl \<notin> set line"

definition tcp_ops :: "client_env \<Rightarrow> 's session_ops \<Rightarrow> 's tcp_client client_ops" where
  "tcp_ops env sops = \<lparr>cl_connect = client_connect env sops, cl_disconnect = client_disconnect sops,
     cl_shutdown = shutdownSocket, cl_open = isOpen, cl_send = client_send env sops,
     cl_receive = receiveLine env sops\<rparr>"

lemma tcp_ops_sel [simp]:
  "cl_connect (tcp_ops env sops) = client_connect env sops"
  "cl_disconnect (tcp_ops env sops) = client_disconnect sops"
  "cl_shutdown (tcp_ops env sops) = shutdownSocket" "cl_open (tcp_ops env sops) = isOpen"
  "cl_send (tcp_ops env sops) = client_send env sops" "cl_receive (tcp_ops env sops) = receiveLine env sops"
  by (simp_all add: tcp_ops_def)

text \<open>
  The invariant of the client: it owns its socket and no other, its session keeps its own
  invariant, and no call accepts more bytes than it was given, which send and SSL_write
  document.
\<close>

definition bounded_writes :: "client_env \<Rightarrow> 's session_ops \<Rightarrow> bool" where
  "bounded_writes env sops \<longleftrightarrow> (\<forall>n fd buf. sock_send env n fd buf \<le> int (length buf)) \<and>
     (\<forall>n buf s. se_send sops n buf s \<le> int (length buf))"

definition client_ok :: "client_env \<Rightarrow> 's session_ops \<Rightarrow> ('s \<Rightarrow> bool) \<Rightarrow> 's tcp_client \<Rightarrow> bool" where
  "client_ok env sops sok c \<longleftrightarrow> bounded_writes env sops \<and>
     sockets c = (if m_socketFd c \<ge> 0 then {m_socketFd c} else {}) \<and> pred_option sok (m_sslSession c)"

definition client_closed :: "client_env \<Rightarrow> 's session_ops \<Rightarrow> ('s \<Rightarrow> bool) \<Rightarrow> 's tcp_client \<Rightarrow> bool" where
  "client_closed env sops idle c \<longleftrightarrow> bounded_writes env sops \<and> m_socketFd c < 0 \<and> sockets c = {} \<and>
     m_readBuffer c = [] \<and> pred_option idle (m_sslSession c)"

lemma write_some_bound:
  "bounded_writes env sops \<Longrightarrow> write_some env sops fd n buf c \<le> int (length buf)"
  by (simp add: bounded_writes_def write_some_def split: option.split)

lemma receiveLine_fields:
  "receiveLine env sops c = Some (line, c') \<Longrightarrow>
     m_socketFd c' = m_socketFd c \<and> sockets c' = sockets c \<and> m_sslSession c' = m_sslSession c \<and>
     wire c' = wire c \<and> c_useSsl c' = c_useSsl c \<and> nl \<notin> set line"
  by (auto simp: receiveLine_def Let_def receive_loop_no_nl)

context tls_session
begin

lemma client_disconnect_closed:
  assumes "client_ok env sops ok c"
  shows "client_closed env sops idle (client_disconnect sops c)"
proof -
  have "pred_option idle (map_option (se_disconnect sops) (m_sslSession c))"
    using assms disconnect_idle by (cases "m_sslSession c") (simp_all add: client_ok_def)
  with assms show ?thesis
    by (simp add: client_ok_def client_closed_def client_disconnect_def close_socket_def shutdownSocket_def Let_def)
qed

lemma client_closed_ok: "client_closed env sops idle c \<Longrightarrow> client_ok env sops ok c"
  using idle_ok by (cases "m_sslSession c") (simp_all add: client_closed_def client_ok_def)

lemma client_connect_cases:
  assumes "client_ok env sops ok c"
  obtains (failed) c' where "client_connect env sops ip port useSsl useMtls c = (False, c')"
      "client_closed env sops idle c'"
  | (connected) c' where "client_connect env sops ip port useSsl useMtls c = (True, c')"
      "client_ok env sops ok c'" "m_socketFd c' = new_socket env" "0 \<le> new_socket env"
      "c_useSsl c' = useSsl" "wire c' = []" "m_readBuffer c' = []"
      "useSsl \<longrightarrow> m_sslSession c' = map_option (\<lambda>s. snd (se_init sops (new_socket env) useMtls (se_disconnect sops s)))
         (m_sslSession c)"
      "useSsl \<longrightarrow> pred_option (\<lambda>s. fst (se_init sops (new_socket env) useMtls (se_disconnect sops s))) (m_sslSession c)"
      "valid_ip env ip" "0 \<le> connect_to env (new_socket env) ip (word_of_int port)"
proof -
  let ?d = "client_disconnect sops c"
  let ?c1 = "?d\<lparr>c_useSsl := useSsl, m_socketFd := new_socket env, sockets := {new_socket env}, wire := []\<rparr>"
  have d: "client_closed env sops idle ?d" by (rule client_disconnect_closed [OF assms])
  then have sock: "sockets ?d = {}" by (simp add: client_closed_def)
  have ses: "m_sslSession ?d = map_option (se_disconnect sops) (m_sslSession c)"
    by (simp add: client_disconnect_def close_socket_def shutdownSocket_def Let_def)
  have cl: "client_closed env sops idle (close_socket ?c1)"
    using d by (simp add: client_closed_def close_socket_def)
  show thesis
  proof (cases "new_socket env < 0")
    case True
    then have "client_connect env sops ip port useSsl useMtls c =
        (False, ?d\<lparr>c_useSsl := useSsl, m_socketFd := new_socket env\<rparr>)"
      by (simp add: client_connect_def Let_def)
    moreover have "client_closed env sops idle (?d\<lparr>c_useSsl := useSsl, m_socketFd := new_socket env\<rparr>)"
      using d True by (simp add: client_closed_def)
    ultimately show thesis by (rule failed)
  next
    case fd: False
    have eq: "client_connect env sops ip port useSsl useMtls c =
       (if \<not> valid_ip env ip then (False, close_socket ?c1)
        else if connect_to env (new_socket env) ip (word_of_int port) < 0 then (False, close_socket ?c1)
        else if useSsl then
          (case m_sslSession ?d of
             None \<Rightarrow> (True, ?c1)
           | Some s \<Rightarrow>
               let (ok, s') = se_init sops (new_socket env) useMtls s
               in if \<not> ok then (False, close_socket (?c1\<lparr>m_sslSession := Some s'\<rparr>))
                  else (True, ?c1\<lparr>m_sslSession := Some s'\<rparr>))
        else (True, ?c1))"
      using fd sock by (auto simp: client_connect_def Let_def split: option.split prod.split)
    have ok1: "client_ok env sops ok ?c1"
      using client_closed_ok [OF d] fd by (simp add: client_ok_def)
    show thesis
    proof (cases "valid_ip env ip \<and> 0 \<le> connect_to env (new_socket env) ip (word_of_int port)")
      case False
      then have "client_connect env sops ip port useSsl useMtls c = (False, close_socket ?c1)"
        unfolding eq by auto
      then show thesis using cl by (rule failed)
    next
      case net: True
      show thesis
      proof (cases "useSsl \<and> m_sslSession ?d \<noteq> None")
        case False
        then have "client_connect env sops ip port useSsl useMtls c = (True, ?c1)"
          unfolding eq using net by auto
        then show thesis
          using ok1 net fd False d by (intro connected [of ?c1]) (auto simp: ses client_closed_def)
      next
        case True
        then obtain s where s: "m_sslSession c = Some s" "m_sslSession ?d = Some (se_disconnect sops s)"
          by (auto simp: ses)
        obtain r s' where i: "se_init sops (new_socket env) useMtls (se_disconnect sops s) = (r, s')"
          by (cases "se_init sops (new_socket env) useMtls (se_disconnect sops s)") auto
        have sok: "ok (se_disconnect sops s)"
          using client_closed_ok [OF d] s(2) by (simp add: client_ok_def)
        show thesis
        proof (cases r)
          case True
          then have "client_connect env sops ip port useSsl useMtls c = (True, ?c1\<lparr>m_sslSession := Some s'\<rparr>)"
            unfolding eq using net s(2) i \<open>useSsl \<and> _\<close> by simp
          moreover have "client_ok env sops ok (?c1\<lparr>m_sslSession := Some s'\<rparr>)"
            using ok1 fd init_ok [OF sok, of "new_socket env" useMtls] i by (simp add: client_ok_def)
          ultimately show thesis
            using net fd s i True d
            by (intro connected [of "?c1\<lparr>m_sslSession := Some s'\<rparr>"]) (auto simp: client_closed_def)
        next
          case False
          then have "client_connect env sops ip port useSsl useMtls c =
              (False, close_socket (?c1\<lparr>m_sslSession := Some s'\<rparr>))"
            unfolding eq using net s(2) i \<open>useSsl \<and> _\<close> by simp
          moreover have "client_closed env sops idle (close_socket (?c1\<lparr>m_sslSession := Some s'\<rparr>))"
            using cl init_failed [OF sok, of "new_socket env" useMtls] i False
            by (simp add: client_closed_def close_socket_def)
          ultimately show thesis by (rule failed)
        qed
      qed
    qed
  qed
qed

lemma client_contract:
  "tcp_client_contract (tcp_ops env sops) (client_ok env sops ok) (client_closed env sops idle) wire"
proof (unfold_locales, unfold tcp_ops_sel)
  fix c c' ip port useSsl useMtls message line
  show "client_closed env sops idle c \<Longrightarrow> client_ok env sops ok c" by (rule client_closed_ok)
  show "client_closed env sops idle c \<Longrightarrow> \<not> isOpen c" by (simp add: client_closed_def isOpen_def)
  show "client_ok env sops ok c \<Longrightarrow> client_closed env sops idle (client_disconnect sops c)"
    by (rule client_disconnect_closed)
  show "client_ok env sops ok c \<Longrightarrow> client_ok env sops ok (shutdownSocket c)"
    by (simp add: client_ok_def shutdownSocket_def)
  show "isOpen (snd (client_send env sops message c)) = isOpen c"
    by (simp add: isOpen_def client_send_fields)
  show "client_ok env sops ok c \<Longrightarrow> client_ok env sops ok (snd (client_send env sops message c))"
    by (simp add: client_ok_def client_send_fields)
  show "receiveLine env sops c = Some (line, c') \<Longrightarrow> isOpen c' = isOpen c"
    by (drule receiveLine_fields) (simp add: isOpen_def)
  show "client_ok env sops ok c \<Longrightarrow> receiveLine env sops c = Some (line, c') \<Longrightarrow> client_ok env sops ok c'"
    by (drule receiveLine_fields) (simp add: client_ok_def)
  show "receiveLine env sops c = Some (line, c') \<Longrightarrow> nl \<notin> set line"
    by (drule receiveLine_fields) simp
  assume ok: "client_ok env sops ok c"
  show "client_ok env sops ok (snd (client_connect env sops ip port useSsl useMtls c))"
    using ok by (cases rule: client_connect_cases [where ip = ip and port = port and useSsl = useSsl and useMtls = useMtls])
      (simp_all add: client_closed_ok)
  show "fst (client_connect env sops ip port useSsl useMtls c) \<Longrightarrow>
      isOpen (snd (client_connect env sops ip port useSsl useMtls c))"
    using ok by (cases rule: client_connect_cases [where ip = ip and port = port and useSsl = useSsl and useMtls = useMtls])
      (simp_all add: isOpen_def)
  show "\<not> fst (client_connect env sops ip port useSsl useMtls c) \<Longrightarrow>
      client_closed env sops idle (snd (client_connect env sops ip port useSsl useMtls c))"
    using ok by (cases rule: client_connect_cases [where ip = ip and port = port and useSsl = useSsl and useMtls = useMtls])
      simp_all
  have "bounded_writes env sops" using ok by (simp add: client_ok_def)
  then have wr: "write_some env sops fd n buf c \<le> int (length buf)" for fd n buf
    by (rule write_some_bound)
  show "fst (client_send env sops message c) \<Longrightarrow>
      isOpen c \<and> wire (snd (client_send env sops message c)) = wire c @ message"
    using client_send_wire [OF prod.collapse [symmetric] wr, of message] by (auto simp: isOpen_def)
qed

end

text \<open>The client of the application: sockets and OpenSSL.\<close>

interpretation tcp: tcp_client_contract "tcp_ops env (openssl_ops senv cfg)"
    "client_ok env (openssl_ops senv cfg) ssl_ok" "client_closed env (openssl_ops senv cfg) ssl_idle" wire
  for env senv cfg
  by (rule openssl.client_contract)

section \<open>Properties\<close>

text \<open>
  The network of the examples: a descriptor 3, a server that takes at most four bytes at a time
  and sends two lines in three pieces.
\<close>

definition demo_net :: client_env where
  "demo_net = \<lparr>new_socket = 3, valid_ip = (\<lambda>ip. ip = ''10.0.0.2''), connect_to = (\<lambda>_ _ _. 0),
     sock_send = (\<lambda>n fd buf. min 4 (int (length buf))),
     sock_recv = (\<lambda>n fd. [0 \<mapsto> ''ab'', 1 \<mapsto> ''c'' @ [nl] @ ''d'', 2 \<mapsto> ''e'' @ [nl] @ ''f''] n)\<rparr>"

abbreviation demo_ops :: "ssl_session session_ops" where
  "demo_ops \<equiv> openssl_ops (demo_ssl 1) True"

lemma demo_bounded: "bounded_writes demo_net demo_ops"
  by (simp add: bounded_writes_def demo_net_def demo_ssl_def ssl_send_def split: option.split)

definition demo_client :: "ssl_session tcp_client" where
  "demo_client = (TcpClient (Some OpenSslSession))\<lparr>m_socketFd := 3, sockets := {3}\<rparr>"

lemma demo_client_ok: "client_ok demo_net demo_ops ssl_ok demo_client"
  using demo_bounded ssl_idle_ok [OF OpenSslSession_idle]
  by (simp add: client_ok_def demo_client_def TcpClient_def)

text \<open>
  C30: A connection attempt that fails, at whatever step, leaves the client without a socket,
  without a TLS context or connection and without unread bytes; one that succeeds leaves it
  with the one new socket and, when TLS was asked for, with a TLS connection of its own. The
  connection it had before is closed in both cases.
\<close>

theorem connect_all_or_nothing:
  assumes "client_ok env (openssl_ops senv cfg) ssl_ok c" "m_sslSession c \<noteq> None"
    and "client_connect env (openssl_ops senv cfg) ip port useSsl useMtls c = (r, c')"
  shows "m_readBuffer c' = [] \<and>
    (if r then m_socketFd c' = new_socket env \<and> sockets c' = {new_socket env} \<and>
       (useSsl \<longrightarrow> (\<exists>s x. m_sslSession c' = Some s \<and> s_ssl s = Some x \<and> 0 < ssl_connect senv x (new_socket env)))
     else m_socketFd c' < 0 \<and> sockets c' = {} \<and> pred_option ssl_idle (m_sslSession c'))"
  using assms(1)
proof (cases rule: openssl.client_connect_cases [where ip = ip and port = port and useSsl = useSsl and useMtls = useMtls])
  case (failed d)
  then show ?thesis using assms(3) by (simp add: client_closed_def)
next
  case (connected d)
  from assms(2) obtain s where s: "m_sslSession c = Some s" by auto
  then have "ssl_ok (ssl_disconnect s)"
    using assms(1) ssl_idle_ok [OF ssl_disconnect_idle] by (simp add: client_ok_def)
  then have "\<exists>s x. m_sslSession d = Some s \<and> s_ssl s = Some x \<and> 0 < ssl_connect senv x (new_socket env)" if "useSsl"
  proof (cases rule: initAndConnect_cases [where env = senv and cfg = cfg and fd = "new_socket env" and useMtls = useMtls])
    case failed
    with connected(9) s that show ?thesis by simp
  next
    case (connected ctx x)
    with \<open>useSsl \<longrightarrow> m_sslSession d = _\<close> s that show ?thesis by simp
  qed
  with connected assms(3) show ?thesis by (auto simp: client_ok_def)
qed

theorem connect_all_or_nothing_witness:
  "\<exists>s x. m_sslSession (snd (client_connect demo_net demo_ops ''10.0.0.2'' 5555 True True demo_client)) = Some s \<and>
     s_ssl s = Some x"
proof -
  have "fst (client_connect demo_net demo_ops ''10.0.0.2'' 5555 True True demo_client)"
    by (simp add: client_connect_def client_disconnect_def close_socket_def shutdownSocket_def demo_client_def
        demo_net_def TcpClient_def Let_def initAndConnect_def demo_ssl_def ssl_disconnect_def OpenSslSession_def
        configureContext_def set_verify_def)
  then show ?thesis
    using connect_all_or_nothing [OF demo_client_ok _ prod.collapse [symmetric], of "''10.0.0.2''" 5555 True True]
    by (auto simp: demo_client_def TcpClient_def)
qed

text \<open>
  C31: A message is sent whole or the call says so: whatever part of it each write takes, the
  call returns (the loop ends), true means that exactly the bytes of the message went out, in
  order, and false that a proper prefix of them did. The connection is left as it was.
\<close>

theorem send_all_or_prefix:
  assumes "client_ok env (openssl_ops senv cfg) ssl_ok c"
    and "client_send env (openssl_ops senv cfg) message c = (r, c')"
  shows "isOpen c' = isOpen c \<and> (\<exists>out rest. message = out @ rest \<and> wire c' = wire c @ out \<and>
    (if r then isOpen c \<and> rest = [] else isOpen c \<longrightarrow> rest \<noteq> []))"
proof -
  have wr: "write_some env (openssl_ops senv cfg) fd n buf c \<le> int (length buf)" for fd n buf
    using assms(1) by (simp add: client_ok_def write_some_bound)
  show ?thesis
    using client_send_wire [OF assms(2) wr] client_send_fields(1) [of env "openssl_ops senv cfg" message c] assms(2)
    by (auto simp: isOpen_def split: if_splits)
qed

theorem send_all_or_prefix_witness:
  "wire (snd (client_send demo_net demo_ops ''hello, board'' demo_client)) = ''hello, board''"
proof -
  have "fst (client_send demo_net demo_ops ''hello, board'' demo_client)"
    by (simp add: client_send_def demo_client_def TcpClient_def demo_net_def send_loop.simps write_some_def Let_def)
  then show ?thesis
    using send_all_or_prefix [OF demo_client_ok prod.collapse [symmetric], of "''hello, board''"]
    by (auto simp: demo_client_def TcpClient_def)
qed

text \<open>What the client reads, by the number of the call.\<close>

definition reads :: "client_env \<Rightarrow> 's session_ops \<Rightarrow> 's tcp_client \<Rightarrow> nat \<Rightarrow> string option" where
  "reads env sops c n = (if m_socketFd c < 0 then None else read_some env sops (m_socketFd c) n c)"

lemma receiveLine_reads:
  "receiveLine env sops c = map_option (\<lambda>(line, buf, n). (line, c\<lparr>m_readBuffer := buf, io_calls := n\<rparr>))
     (receive_loop (reads env sops c) (m_readBuffer c) (io_calls c))"
  by (simp add: receiveLine_def reads_def [abs_def] Let_def cong: if_cong)

lemma receiveLine_returns:
  "(receiveLine env sops c \<noteq> None) =
     (\<exists>k. (\<forall>i < k. reads env sops c (io_calls c + i) \<noteq> None) \<and>
        (reads env sops c (io_calls c + k) = None \<or>
         nl \<in> set (m_readBuffer c @ stream (reads env sops c) (io_calls c) k)))"
    (is "?l = (\<exists>k. ?P k)")
proof
  assume ?l
  then show "\<exists>k. ?P k"
    using receive_loop_SomeD [of "reads env sops c" "m_readBuffer c" "io_calls c"]
    by (auto simp: receiveLine_reads)
next
  assume "\<exists>k. ?P k"
  then obtain k where k: "?P k" by blast
  show ?l
  proof (cases "nl \<in> set (m_readBuffer c @ stream (reads env sops c) (io_calls c) k)")
    case True
    with k receive_loop_line [of k "reads env sops c" "io_calls c" "m_readBuffer c"]
    show ?thesis by (auto simp: receiveLine_reads)
  next
    case False
    with k receive_loop_lost [of k "reads env sops c" "io_calls c" "m_readBuffer c"]
    show ?thesis by (auto simp: receiveLine_reads)
  qed
qed

text \<open>
  C33: Reading a line returns exactly when the end of a line or the end of the connection is
  reached after finitely many reads; while the server keeps sending bytes without a newline it
  never returns, and the buffer grows without bound.
\<close>

theorem receive_line_returns:
  "(receiveLine env sops c \<noteq> None) =
     (\<exists>k. (\<forall>i < k. reads env sops c (io_calls c + i) \<noteq> None) \<and>
        (reads env sops c (io_calls c + k) = None \<or>
         nl \<in> set (m_readBuffer c @ stream (reads env sops c) (io_calls c) k)))"
  by (rule receiveLine_returns)

theorem receive_line_returns_witness: "receiveLine demo_net demo_ops demo_client \<noteq> None"
proof -
  have "(\<forall>i < 2. reads demo_net demo_ops demo_client (io_calls demo_client + i) \<noteq> None) \<and>
      nl \<in> set (m_readBuffer demo_client @ stream (reads demo_net demo_ops demo_client) (io_calls demo_client) 2)"
    by (simp add: demo_client_def TcpClient_def reads_def read_some_def demo_net_def stream_def upt_rec
        less_Suc_eq numeral_2_eq_2)
  then show ?thesis unfolding receive_line_returns by blast
qed

text \<open>Reading several lines, one call after the other.\<close>

fun read_lines :: "client_env \<Rightarrow> 's session_ops \<Rightarrow> nat \<Rightarrow> 's tcp_client \<Rightarrow> (string list \<times> 's tcp_client) option" where
  "read_lines env sops 0 c = Some ([], c)"
| "read_lines env sops (Suc n) c =
     (case receiveLine env sops c of
        None \<Rightarrow> None
      | Some (l, c1) \<Rightarrow> map_option (\<lambda>(ls, c2). (l # ls, c2)) (read_lines env sops n c1))"

lemma stream_split: "j \<le> k \<Longrightarrow> stream rc n k = stream rc n j @ stream rc (n + j) (k - j)"
  using upt_add_eq_append [of n "n + j" "k - j"] by (simp add: stream_def)

lemma receiveLine_frame:
  assumes "\<forall>i < k. reads env sops c (io_calls c + i) \<noteq> None"
    and "frames (m_readBuffer c @ stream (reads env sops c) (io_calls c) k) = (l # ls, r)"
  shows "\<exists>c' j. receiveLine env sops c = Some (l, c') \<and> j \<le> k \<and> io_calls c' = io_calls c + j \<and>
    reads env sops c' = reads env sops c \<and>
    frames (m_readBuffer c' @ stream (reads env sops c) (io_calls c') (k - j)) = (ls, r)"
proof -
  let ?rc = "reads env sops c"
  let ?s = "\<lambda>k. m_readBuffer c @ stream ?rc (io_calls c) k"
  have "nl \<in> set (?s k)"
    using assms(2) frames_tail [of "?s k"] by (metis list.distinct(1) prod.inject)
  then obtain line rest j where j:
      "receive_loop ?rc (m_readBuffer c) (io_calls c) = Some (line, rest, io_calls c + j)" "j \<le> k"
      "?s j = line @ nl # rest" "nl \<notin> set line"
    using receive_loop_line [OF assms(1)] by blast
  have "?s k = line @ nl # rest @ stream ?rc (io_calls c + j) (k - j)"
    using j(3) by (simp add: stream_split [OF j(2)])
  then have "l = line" "frames (rest @ stream ?rc (io_calls c + j) (k - j)) = (ls, r)"
    using assms(2) frames_line [OF j(4)] by (auto intro: prod_eqI)
  then show ?thesis
    using j(1, 2)
    by (intro exI [of _ "c\<lparr>m_readBuffer := rest, io_calls := io_calls c + j\<rparr>"] exI [of _ j])
      (auto simp: receiveLine_reads reads_def [abs_def] read_some_def fun_eq_iff split: option.split)
qed

lemma read_lines_frames:
  "\<forall>i < k. reads env sops c (io_calls c + i) \<noteq> None \<Longrightarrow>
   frames (m_readBuffer c @ stream (reads env sops c) (io_calls c) k) = (ls, r) \<Longrightarrow>
     \<exists>c'. read_lines env sops (length ls) c = Some (ls, c')"
proof (induction ls arbitrary: c k)
  case Nil
  then show ?case by simp
next
  case (Cons l ls)
  from receiveLine_frame [OF Cons.prems] obtain c' j where c': "receiveLine env sops c = Some (l, c')"
      "j \<le> k" "io_calls c' = io_calls c + j" "reads env sops c' = reads env sops c"
      "frames (m_readBuffer c' @ stream (reads env sops c) (io_calls c') (k - j)) = (ls, r)"
    by blast
  have "\<forall>i < k - j. reads env sops c' (io_calls c' + i) \<noteq> None"
    using Cons.prems(1) c'(3, 4) by (auto simp: add.assoc dest: spec [of _ "j + _"])
  from Cons.IH [OF this] c' show ?case by auto
qed

text \<open>
  C32: The lines the client returns are the lines of the byte stream, complete and in order,
  however the network splits the stream into reads: a line may come in several pieces and
  several lines in one.
\<close>

theorem lines_as_framed:
  assumes "\<forall>i < k. reads env sops c (io_calls c + i) \<noteq> None"
    and "frames (m_readBuffer c @ stream (reads env sops c) (io_calls c) k) = (ls, r)"
  shows "map_option fst (read_lines env sops (length ls) c) = Some ls"
  using read_lines_frames [OF assms] by auto

theorem lines_as_framed_witness:
  "map_option fst (read_lines demo_net demo_ops (length [''abc'', ''de'']) demo_client) = Some [''abc'', ''de'']"
  by (rule lines_as_framed [of 3 _ _ _ _ "''f''"])
    (simp_all add: demo_client_def TcpClient_def reads_def read_some_def demo_net_def stream_def upt_rec
      less_Suc_eq numeral_3_eq_3)

end
