(* ===== verification/Desk_App.thy ===== *)
theory Desk_App
  imports Desk_Client Desk_Config
begin

text \<open>
  AppController of the desktop client (minihildesk/src/app_controller.cc): connecting, the
  requests it sends, and the thread that reads the answers. It is written over the interface
  ITcpClient and uses only its contract; TcpClient is the one the program gives it.
\<close>

section \<open>Data\<close>

text \<open>The three signals, in the order they are emitted.\<close>

datatype desk_signal = Log string | Relay_state int bool | Connection_state bool

text \<open>
  m_readThread: not joinable, in its loop, or out of its loop and not joined yet.
\<close>

datatype reader = Not_started | Reading | Ended

record 'c app_controller =
  m_config :: config
  desk_files :: desk_disk
  m_client :: 'c
  m_readThread :: reader
  m_running :: bool
  m_requestId :: int
  signals :: "desk_signal list"

definition AppController :: "config \<Rightarrow> desk_disk \<Rightarrow> 'c \<Rightarrow> 'c app_controller" where
  "AppController g d c = \<lparr>m_config = g, desk_files = d, m_client = c, m_readThread = Not_started,
     m_running = False, m_requestId = cInitialRequestId, signals = []\<rparr>"

definition emit :: "desk_signal \<Rightarrow> 'c app_controller \<Rightarrow> 'c app_controller" where
  "emit x a = a\<lparr>signals := signals a @ [x]\<rparr>"

section \<open>Answers\<close>

text \<open>
  std::stoi in base 10: white space, a sign, digits; what follows is ignored. No digit and a
  number that is no int are exceptions, here \<open>None\<close>.
\<close>

definition is_space :: "char \<Rightarrow> bool" where
  "is_space c \<longleftrightarrow> c \<in> {CHR '' '', CHR 0x09, CHR 0x0A, CHR 0x0B, CHR 0x0C, CHR 0x0D}"

definition stoi :: "string \<Rightarrow> int option" where
  "stoi t =
     (let s = dropWhile is_space t;
          neg = (s \<noteq> [] \<and> hd s = CHR ''-'');
          u = (if s \<noteq> [] \<and> hd s \<in> {CHR ''-'', CHR ''+''} then tl s else s);
          ds = takeWhile is_digit u;
          n = (if neg then - int (read_nat ds) else int (read_nat ds))
      in if ds = [] then None else if fits_int n then Some n else None)"

text \<open>The loop over result.items(), with the exceptions it swallows.\<close>

fun item_signals :: "(string \<times> json) list \<Rightarrow> 'c app_controller \<Rightarrow> 'c app_controller" where
  "item_signals [] a = a"
| "item_signals ((key, v) # kvs) a =
     item_signals kvs (case stoi key of
         None \<Rightarrow> a
       | Some relayId \<Rightarrow> (case v of JBool b \<Rightarrow> emit (Relay_state relayId b) a | _ \<Rightarrow> a))"

definition result_signals :: "json_lib \<Rightarrow> json \<Rightarrow> 'c app_controller \<Rightarrow> (exn + unit) \<times> 'c app_controller" where
  "result_signals L result a =
     (if is_object result then
        if contains result cRelayIdKey \<and> contains result cStateKey then
          bindE (get_int L (field result cRelayIdKey)) (\<lambda>relayId.
            bindE (get_bool L (field result cStateKey)) (\<lambda>st a.
              (Inr (), emit (Relay_state relayId st) a))) a
        else (Inr (), item_signals (items result) a)
      else (Inr (), a))"

definition response_signals :: "json_lib \<Rightarrow> string \<Rightarrow> 'c app_controller \<Rightarrow> (exn + unit) \<times> 'c app_controller" where
  "response_signals L rawResponse =
     bindE (parse L rawResponse) (\<lambda>res a0.
       let a = emit (Log (cRxPrefix @ rawResponse)) a0
       in if contains res cErrorKey \<and> field res cErrorKey \<noteq> JNull then
            bindE (dump L (- 1) (field res cErrorKey)) (\<lambda>t a. (Inr (), emit (Log (cErrorPrefix @ t)) a)) a
          else if contains res cResultKey then result_signals L (field res cResultKey) a
          else (Inr (), a))"

definition processResponse :: "json_lib \<Rightarrow> string \<Rightarrow> 'c app_controller \<Rightarrow> 'c app_controller" where
  "processResponse L rawResponse a =
     (case response_signals L rawResponse a of
        (Inr _, a') \<Rightarrow> a'
      | (Inl e, a') \<Rightarrow> emit (Log (cSysErrorParsing @ what e)) a')"

section \<open>The read thread\<close>

text \<open>
  The body of the loop: whether it goes on, and the state. \<open>None\<close> is a read that never returns.
\<close>

definition read_body :: "json_lib \<Rightarrow> 'c client_ops \<Rightarrow> 'c app_controller \<Rightarrow> (bool \<times> 'c app_controller) option" where
  "read_body L cops a =
     (if cl_open cops (m_client a) then
        (case cl_receive cops (m_client a) of
           None \<Rightarrow> None
         | Some (line, c) \<Rightarrow>
             let a1 = a\<lparr>m_client := c\<rparr>
             in if line = [] then
                  Some (False, if m_running a1
                    then emit (Log cSysConnectionLost)
                           (emit (Connection_state False) (a1\<lparr>m_running := False\<rparr>))
                    else a1)
                else Some (True, processResponse L line a1))
      else Some (True, a))"

partial_function (option) readLoop :: "json_lib \<Rightarrow> 'c client_ops \<Rightarrow> 'c app_controller \<Rightarrow> 'c app_controller option" where
  "readLoop L cops a =
     (if m_running a then
        (case read_body L cops a of
           None \<Rightarrow> None
         | Some (continue, a1) \<Rightarrow>
             if continue then readLoop L cops a1 else Some (a1\<lparr>m_readThread := Ended\<rparr>))
      else Some (a\<lparr>m_readThread := Ended\<rparr>))"

section \<open>Requests\<close>

text \<open>The request object; params that are null are left out.\<close>

definition request_json :: "int \<Rightarrow> string \<Rightarrow> json \<Rightarrow> json" where
  "request_json rid method params =
     (let req0 = jset cMethodKey (JString method) (jset cJsonRpcKey (JString cJsonRpcVer) JNull);
          req1 = (if params \<noteq> JNull then jset cParamsKey params req0 else req0)
      in jset cIdKey (JInt rid) req1)"

definition sendJsonRpc :: "json_lib \<Rightarrow> 'c client_ops \<Rightarrow> string \<Rightarrow> json \<Rightarrow> 'c app_controller \<Rightarrow>
    (exn + unit) \<times> 'c app_controller" where
  "sendJsonRpc L cops method params a =
     (if \<not> cl_open cops (m_client a) then (Inr (), emit (Log cSysErrorNotConnected) a)
      else bindE (dump L (- 1) (request_json (m_requestId a) method params)) (\<lambda>t a.
             let (sent, c) = cl_send cops (t @ [nl]) (m_client a);
                 a1 = a\<lparr>m_client := c\<rparr>
             in (Inr (), if sent then emit (Log (cTxPrefix @ t)) a1
                         else emit (Log cSysErrorSending) a1))
             (a\<lparr>m_requestId := m_requestId a + 1\<rparr>))"

definition toggleRelay :: "json_lib \<Rightarrow> 'c client_ops \<Rightarrow> int \<Rightarrow> bool \<Rightarrow> 'c app_controller \<Rightarrow> (exn + unit) \<times> 'c app_controller" where
  "toggleRelay L cops relayId st =
     sendJsonRpc L cops cMethodSetRelay (jset cStateKey (JBool st) (jset cRelayIdKey (JInt relayId) JNull))"

definition desk_startTimer :: "json_lib \<Rightarrow> 'c client_ops \<Rightarrow> int \<Rightarrow> u32 \<Rightarrow> 'c app_controller \<Rightarrow> (exn + unit) \<times> 'c app_controller" where
  "desk_startTimer L cops relayId seconds =
     sendJsonRpc L cops cMethodStartTimer
       (jset cSecondsKey (JInt (uint seconds)) (jset cRelayIdKey (JInt relayId) JNull))"

definition desk_startPulse :: "json_lib \<Rightarrow> 'c client_ops \<Rightarrow> int \<Rightarrow> u32 \<Rightarrow> 'c app_controller \<Rightarrow> (exn + unit) \<times> 'c app_controller" where
  "desk_startPulse L cops relayId durationMs =
     sendJsonRpc L cops cMethodStartPulse
       (jset cDurationMsKey (JInt (uint durationMs)) (jset cRelayIdKey (JInt relayId) JNull))"

definition desk_startBlink :: "json_lib \<Rightarrow> 'c client_ops \<Rightarrow> int \<Rightarrow> u32 \<Rightarrow> u32 \<Rightarrow> u32 \<Rightarrow> 'c app_controller \<Rightarrow>
    (exn + unit) \<times> 'c app_controller" where
  "desk_startBlink L cops relayId onMs offMs cnt =
     sendJsonRpc L cops cMethodStartBlink
       (jset cCountKey (JInt (uint cnt)) (jset cOffMsKey (JInt (uint offMs))
         (jset cOnMsKey (JInt (uint onMs)) (jset cRelayIdKey (JInt relayId) JNull))))"

definition queryAllRelays :: "json_lib \<Rightarrow> 'c client_ops \<Rightarrow> 'c app_controller \<Rightarrow> (exn + unit) \<times> 'c app_controller" where
  "queryAllRelays L cops = sendJsonRpc L cops cMethodGetRelays JNull"

section \<open>Connecting and disconnecting\<close>

definition isConnected :: "'c client_ops \<Rightarrow> 'c app_controller \<Rightarrow> bool" where
  "isConnected cops a = cl_open cops (m_client a)"

text \<open>
  join() waits for the read thread, which runs the body once more when it is \<open>busy\<close>, that is
  past the test of its loop, and then sees m_running false.
\<close>

definition join_reader :: "json_lib \<Rightarrow> 'c client_ops \<Rightarrow> bool \<Rightarrow> 'c app_controller \<Rightarrow> 'c app_controller option" where
  "join_reader L cops busy a =
     (if m_readThread a = Reading \<and> busy then map_option snd (read_body L cops a) else Some a)"

definition requestDisconnect :: "json_lib \<Rightarrow> 'c client_ops \<Rightarrow> bool \<Rightarrow> 'c app_controller \<Rightarrow> 'c app_controller option" where
  "requestDisconnect L cops busy a =
     (let wasRunning = m_running a;
          a1 = a\<lparr>m_running := False, m_client := cl_shutdown cops (m_client a)\<rparr>
      in map_option (\<lambda>a2.
           let a3 = a2\<lparr>m_readThread := Not_started, m_client := cl_disconnect cops (m_client a2)\<rparr>
           in if wasRunning then emit (Log cSysDisconnected) (emit (Connection_state False) a3) else a3)
         (join_reader L cops busy a1))"

definition connecting_log :: "string \<Rightarrow> int \<Rightarrow> bool \<Rightarrow> bool \<Rightarrow> string" where
  "connecting_log ip port useSsl useMtls =
     cSysConnecting @ ip @ cColon @ show_int port @ cSslPrefix @ (if useSsl then cOnStr else cOffStr) @
       cMtlsPrefix @ (if useMtls then cOnStr else cOffStr) @ cSuffix"

definition requestConnect :: "json_lib \<Rightarrow> 'c client_ops \<Rightarrow> bool \<Rightarrow> string \<Rightarrow> int \<Rightarrow> bool \<Rightarrow> bool \<Rightarrow>
    'c app_controller \<Rightarrow> ((exn + unit) \<times> 'c app_controller) option" where
  "requestConnect L cops busy ip port useSsl useMtls a =
     map_option (\<lambda>a1.
       let a2 = emit (Log (connecting_log ip port useSsl useMtls)) a1;
           (connected, c) = cl_connect cops ip port useSsl useMtls (m_client a2);
           a3 = a2\<lparr>m_client := c\<rparr>
       in if connected then
            let (g, d) = store_settings (config_ops L) ip port useSsl useMtls (m_config a3, desk_files a3);
                a4 = a3\<lparr>m_config := g, desk_files := d\<rparr>;
                a5 = a4\<lparr>m_running := True, m_readThread := Reading\<rparr>
            in queryAllRelays L cops (emit (Log cSysConnected) (emit (Connection_state True) a5))
          else (Inr (), emit (Log cSysConnectFailed) (emit (Connection_state False) a3)))
       (requestDisconnect L cops busy a)"

section \<open>What an answer shows\<close>

lemma emit_fields [simp]:
  "signals (emit x a) = signals a @ [x]" "m_client (emit x a) = m_client a" "m_running (emit x a) = m_running a"
  "m_readThread (emit x a) = m_readThread a" "m_requestId (emit x a) = m_requestId a"
  "m_config (emit x a) = m_config a" "desk_files (emit x a) = desk_files a"
  by (simp_all add: emit_def)

text \<open>The specification of processResponse: the signals for a line, a function of the line.\<close>

fun item_answers :: "(string \<times> json) list \<Rightarrow> desk_signal list" where
  "item_answers [] = []"
| "item_answers ((key, v) # kvs) =
     (case (stoi key, v) of (Some i, JBool b) \<Rightarrow> Relay_state i b # item_answers kvs | _ \<Rightarrow> item_answers kvs)"

definition failed_parse :: "exn \<Rightarrow> desk_signal list" where
  "failed_parse e = [Log (''[System] Error parsing response: '' @ what e)]"

definition result_answers :: "json_lib \<Rightarrow> json \<Rightarrow> desk_signal list" where
  "result_answers L result =
     (if \<not> (contains result ''relay_id'' \<and> contains result ''state'') then item_answers (items result)
      else case get_int L (field result ''relay_id'') of
          Inl e \<Rightarrow> failed_parse e
        | Inr i \<Rightarrow> (case get_bool L (field result ''state'') of
              Inl e \<Rightarrow> failed_parse e
            | Inr b \<Rightarrow> [Relay_state i b]))"

definition answers :: "json_lib \<Rightarrow> string \<Rightarrow> desk_signal list" where
  "answers L raw =
     (case parse L raw of
        Inl e \<Rightarrow> failed_parse e
      | Inr res \<Rightarrow> Log (''[RX] '' @ raw) #
          (if field res ''error'' \<noteq> JNull then
             (case dump L (- 1) (field res ''error'') of
                Inl e \<Rightarrow> failed_parse e
              | Inr t \<Rightarrow> [Log (''[Error] '' @ t)])
           else result_answers L (field res ''result'')))"

lemma item_signals_answers: "item_signals kvs a = a\<lparr>signals := signals a @ item_answers kvs\<rparr>"
  by (induction kvs a rule: item_signals.induct)
    (auto simp: emit_def split: option.split json.split)

lemma field_missing: "\<not> contains j k \<Longrightarrow> field j k = JNull"
  by (simp add: contains_def field_def om_ref_def)

lemma answers_null: "parse L raw = Inr JNull \<Longrightarrow> answers L raw = [Log (''[RX] '' @ raw)]"
  by (simp add: answers_def field_missing result_answers_def)

lemma items_none: "\<not> is_object j \<Longrightarrow> items j = []"
  by (cases j) simp_all

lemma processResponse_answers:
  "processResponse L raw a = a\<lparr>signals := signals a @ answers L raw\<rparr>"
proof (cases "parse L raw")
  case (Inl e)
  then show ?thesis by (simp add: processResponse_def response_signals_def answers_def failed_parse_def emit_def)
next
  case (Inr res)
  let ?a = "emit (Log (''[RX] '' @ raw)) a"
  have result: "(case result_signals L r b of (Inr u, a') \<Rightarrow> a'
      | (Inl e, a') \<Rightarrow> emit (Log (''[System] Error parsing response: '' @ what e)) a') =
      b\<lparr>signals := signals b @ result_answers L r\<rparr>" for r and b :: "'a app_controller"
    by (cases "is_object r"; cases "get_int L (field r ''relay_id'')"; cases "get_bool L (field r ''state'')")
      (auto simp: result_signals_def result_answers_def item_signals_answers failed_parse_def emit_def items_none
        contains_is_object)
  show ?thesis
  proof (cases "contains res ''error'' \<and> field res ''error'' \<noteq> JNull")
    case True
    then show ?thesis using Inr
      by (cases "dump L (- 1) (field res ''error'')")
        (simp_all add: processResponse_def response_signals_def answers_def failed_parse_def emit_def)
  next
    case False
    then have e: "field res ''error'' = JNull" using field_missing by blast
    show ?thesis
    proof (cases "contains res ''result''")
      case True
      then have "response_signals L raw a = result_signals L (field res ''result'') ?a"
        unfolding response_signals_def Inr bindE_simps Let_def using False by (simp only: if_False if_True)
      then have "processResponse L raw a = ?a\<lparr>signals := signals ?a @ result_answers L (field res ''result'')\<rparr>"
        unfolding processResponse_def by (simp only: result)
      with Inr e show ?thesis by (simp add: answers_def emit_def)
    next
      case no: False
      then have "result_answers L (field res ''result'') = []"
        by (simp add: field_missing result_answers_def)
      with Inr e no show ?thesis
        by (simp add: processResponse_def response_signals_def answers_def emit_def)
    qed
  qed
qed

lemma item_answers_quiet: "Connection_state b \<notin> set (item_answers kvs)"
  by (induction kvs rule: item_answers.induct) (auto split: option.split json.split)

lemma answers_quiet: "Connection_state b \<notin> set (answers L raw)"
  using item_answers_quiet
  by (auto simp: answers_def result_answers_def failed_parse_def split: sum.splits if_splits)

text \<open>What the last connection signal said.\<close>

fun tell :: "desk_signal \<Rightarrow> bool \<Rightarrow> bool" where
  "tell (Connection_state b') b = b'"
| "tell _ b = b"

definition told :: "desk_signal list \<Rightarrow> bool" where
  "told xs = fold tell xs False"

lemma told_Nil [simp]: "told [] = False"
  by (simp add: told_def)

lemma told_append [simp]: "told (xs @ ys) = fold tell ys (told xs)"
  by (simp add: told_def)

lemma fold_tell_quiet: "\<forall>b. Connection_state b \<notin> set ys \<Longrightarrow> fold tell ys b = b"
proof (induction ys arbitrary: b)
  case (Cons y ys)
  then have "tell y b = b" by (cases y) auto
  with Cons show ?case by simp
qed simp

lemma fold_tell_answers [simp]: "fold tell (answers L raw) b = b"
  by (intro fold_tell_quiet) (simp add: answers_quiet)

section \<open>Running\<close>

text \<open>
  The application as a step relation: the requests of the user, and the turns of the read
  thread between them. A request is one step; a disconnect may find the reader \<open>busy\<close>.
\<close>

inductive app_step :: "json_lib \<Rightarrow> 'c client_ops \<Rightarrow> 'c app_controller \<Rightarrow> 'c app_controller \<Rightarrow> bool"
  for L cops where
  connect: "requestConnect L cops busy ip port useSsl useMtls a = Some (r, a') \<Longrightarrow> app_step L cops a a'"
| disconnect: "requestDisconnect L cops busy a = Some a' \<Longrightarrow> app_step L cops a a'"
| toggle: "toggleRelay L cops i st a = (r, a') \<Longrightarrow> app_step L cops a a'"
| timer: "desk_startTimer L cops i s a = (r, a') \<Longrightarrow> app_step L cops a a'"
| pulse: "desk_startPulse L cops i d a = (r, a') \<Longrightarrow> app_step L cops a a'"
| blink: "desk_startBlink L cops i onMs offMs cnt a = (r, a') \<Longrightarrow> app_step L cops a a'"
| query: "queryAllRelays L cops a = (r, a') \<Longrightarrow> app_step L cops a a'"
| read: "m_readThread a = Reading \<Longrightarrow> m_running a \<Longrightarrow> read_body L cops a = Some (True, a') \<Longrightarrow>
    app_step L cops a a'"
| read_end: "m_readThread a = Reading \<Longrightarrow> m_running a \<Longrightarrow> read_body L cops a = Some (False, a') \<Longrightarrow>
    app_step L cops a (a'\<lparr>m_readThread := Ended\<rparr>)"

text \<open>All requests go through sendJsonRpc.\<close>

lemmas desk_requests = toggleRelay_def desk_startTimer_def desk_startPulse_def desk_startBlink_def
  queryAllRelays_def

definition app_inv :: "'c client_ops \<Rightarrow> ('c \<Rightarrow> bool) \<Rightarrow> 'c app_controller \<Rightarrow> bool" where
  "app_inv cops ok a \<longleftrightarrow> ok (m_client a) \<and> (m_running a \<longleftrightarrow> m_readThread a = Reading) \<and>
     (m_running a \<longrightarrow> cl_open cops (m_client a)) \<and> told (signals a) = m_running a"

lemma app_inv_new_signals:
  "app_inv cops ok a \<Longrightarrow> app_inv cops ok (a\<lparr>signals := signals a @ answers L raw\<rparr>)"
  by (simp add: app_inv_def)

context tcp_client_contract
begin

lemma sendJsonRpc_inv:
  assumes "app_inv cops ok a"
  shows "app_inv cops ok (snd (sendJsonRpc L cops m p a))"
proof (cases "cl_open cops (m_client a)")
  case False
  with assms show ?thesis by (auto simp: sendJsonRpc_def app_inv_def)
next
  case True
  show ?thesis
  proof (cases "dump L (- 1) (request_json (m_requestId a) m p)")
    case (Inl e)
    with True assms show ?thesis by (simp add: sendJsonRpc_def app_inv_def)
  next
    case (Inr t)
    let ?r = "cl_send cops (t @ [nl]) (m_client a)"
    have "ok (m_client a)" using assms by (simp add: app_inv_def)
    then have "ok (snd ?r)" by (rule send_ok)
    moreover have "cl_open cops (snd ?r)" using True by (simp add: send_open)
    ultimately show ?thesis
      using True Inr assms by (simp add: sendJsonRpc_def app_inv_def case_prod_beta Let_def)
  qed
qed

lemma read_body_cases:
  assumes "read_body L cops a = Some (goes_on, a')" "app_inv cops ok a \<or> \<not> m_running a" "ok (m_client a)"
  obtains (sleep) "\<not> cl_open cops (m_client a)" "a' = a"
  | (line) line c where "goes_on" "line \<noteq> []" "nl \<notin> set line" "cl_open cops (m_client a)"
      "cl_receive cops (m_client a) = Some (line, c)" "ok c"
      "cl_open cops c" "a' = a\<lparr>m_client := c, signals := signals a @ answers L line\<rparr>"
  | (lost) c where "\<not> goes_on" "cl_receive cops (m_client a) = Some ([], c)" "ok c"
      "cl_open cops c" "a' = (if m_running a then a\<lparr>m_client := c, m_running := False,
         signals := signals a @ [Connection_state False, Log ''[System] Connection lost.'']\<rparr> else a\<lparr>m_client := c\<rparr>)"
proof (cases "cl_open cops (m_client a)")
  case False
  with assms(1) show thesis by (intro sleep) (simp_all add: read_body_def)
next
  case True
  then obtain l c where r: "cl_receive cops (m_client a) = Some (l, c)"
    using assms(1) by (cases "cl_receive cops (m_client a)") (auto simp: read_body_def)
  have c: "ok c" "cl_open cops c" "nl \<notin> set l"
    using receive_ok [OF assms(3) r] receive_open [OF r] receive_line [OF r] True by simp_all
  show thesis
  proof (cases "l = []")
    case True
    then show thesis
      using assms(1) r c \<open>cl_open cops (m_client a)\<close>
      by (intro lost [of c]) (auto simp: read_body_def emit_def Let_def)
  next
    case False
    then show thesis
      using assms(1) r c True by (intro line [of l c]) (auto simp: read_body_def processResponse_answers Let_def)
  qed
qed

lemma requestDisconnect_state:
  assumes "app_inv cops ok a" "requestDisconnect L cops busy a = Some a'"
  shows "closed (m_client a') \<and> \<not> m_running a' \<and> m_readThread a' = Not_started \<and> told (signals a') = False \<and>
    m_requestId a' = m_requestId a \<and> m_config a' = m_config a \<and> desk_files a' = desk_files a"
proof -
  let ?a1 = "a\<lparr>m_running := False, m_client := cl_shutdown cops (m_client a)\<rparr>"
  have ok1: "ok (m_client ?a1)" using assms(1) by (simp add: app_inv_def shutdown_ok)
  obtain a2 where j: "join_reader L cops busy ?a1 = Some a2"
    using assms(2) by (auto simp: requestDisconnect_def)
  have "ok (m_client a2) \<and> \<not> m_running a2 \<and> told (signals a2) = told (signals a) \<and>
     m_requestId a2 = m_requestId a \<and> m_config a2 = m_config a \<and> desk_files a2 = desk_files a"
  proof (cases "m_readThread a = Reading \<and> busy")
    case False
    with j ok1 show ?thesis by (auto simp: join_reader_def)
  next
    case True
    then obtain g where b: "read_body L cops ?a1 = Some (g, a2)"
      using j by (auto simp: join_reader_def)
    have "app_inv cops ok ?a1 \<or> \<not> m_running ?a1" by simp
    from b this ok1 show ?thesis using ok1 by (cases rule: read_body_cases) simp_all
  qed
  moreover have "a' = (let a3 = a2\<lparr>m_readThread := Not_started, m_client := cl_disconnect cops (m_client a2)\<rparr>
      in if m_running a then emit (Log ''[System] Disconnected.'') (emit (Connection_state False) a3) else a3)"
    using assms(2) j by (simp add: requestDisconnect_def Let_def)
  moreover have "told (signals a) = m_running a" using assms(1) by (simp add: app_inv_def)
  ultimately show ?thesis
    by (cases "m_running a") (simp_all add: disconnect_closed)
qed

lemma requestDisconnect_inv:
  "app_inv cops ok a \<Longrightarrow> requestDisconnect L cops busy a = Some a' \<Longrightarrow> app_inv cops ok a'"
  using requestDisconnect_state [of a L busy a'] closed_ok closed_not_open by (auto simp: app_inv_def)

lemma requestConnect_inv:
  assumes "app_inv cops ok a" "requestConnect L cops busy ip port useSsl useMtls a = Some (r, a')"
  shows "app_inv cops ok a'"
proof -
  obtain a1 where d: "requestDisconnect L cops busy a = Some a1"
    using assms(2) by (auto simp: requestConnect_def)
  note a1 = requestDisconnect_state [OF assms(1) d]
  let ?c = "cl_connect cops ip port useSsl useMtls (m_client a1)"
  have ok1: "ok (m_client a1)" using a1 closed_ok by blast
  show ?thesis
  proof (cases "fst ?c")
    case True
    let ?g = "\<lparr>m_ip = ip, m_port = port, m_useSsl = useSsl, m_useMtls = useMtls\<rparr>"
    define a5 where "a5 = emit (Log ''[System] Connected successfully.'') (emit (Connection_state True)
      ((emit (Log (connecting_log ip port useSsl useMtls)) a1)\<lparr>m_client := snd ?c, m_config := ?g,
        desk_files := snd (save L ?g (desk_files a1)), m_running := True, m_readThread := Reading\<rparr>))"
    have "app_inv cops ok a5"
      using connect_ok [OF ok1] connect_open [OF ok1 True] by (simp add: a5_def app_inv_def)
    moreover have "(r, a') = queryAllRelays L cops a5"
      using assms(2) d True by (simp add: requestConnect_def a5_def case_prod_beta Let_def)
    ultimately show ?thesis using sendJsonRpc_inv by (metis queryAllRelays_def snd_conv)
  next
    case False
    then show ?thesis
      using assms(2) d a1 connect_ok [OF ok1]
      by (auto simp: requestConnect_def case_prod_beta Let_def app_inv_def)
  qed
qed

lemma app_step_inv:
  assumes "app_step L cops a a'" "app_inv cops ok a"
  shows "app_inv cops ok a'"
  using assms
proof (cases rule: app_step.cases)
  case connect
  then show ?thesis using assms(2) requestConnect_inv by blast
next
  case disconnect
  then show ?thesis using assms(2) requestDisconnect_inv by blast
next
  case read
  have "ok (m_client a)" using assms(2) by (simp add: app_inv_def)
  from read(3) disjI1 [OF assms(2)] this show ?thesis
    using assms(2) by (cases rule: read_body_cases) (auto simp: app_inv_def)
next
  case (read_end b)
  have "ok (m_client a)" using assms(2) by (simp add: app_inv_def)
  from read_end(4) disjI1 [OF assms(2)] this show ?thesis
    using assms(2) read_end by (cases rule: read_body_cases) (auto simp: app_inv_def)
qed (use assms(2) sendJsonRpc_inv in \<open>metis desk_requests snd_conv\<close>)+

lemma app_run_inv:
  "(app_step L cops)\<^sup>*\<^sup>* a a' \<Longrightarrow> app_inv cops ok a \<Longrightarrow> app_inv cops ok a'"
  by (induction rule: rtranclp_induct) (auto intro: app_step_inv)

lemma AppController_inv: "closed c \<Longrightarrow> app_inv cops ok (AppController g d c)"
  by (simp add: app_inv_def AppController_def closed_ok)

end

section \<open>Reading until the connection ends\<close>

text \<open>The client returns these lines, then the empty text.\<close>

inductive delivers :: "'c client_ops \<Rightarrow> 'c \<Rightarrow> string list \<Rightarrow> 'c \<Rightarrow> bool" for cops where
  last: "cl_receive cops c = Some ([], c') \<Longrightarrow> delivers cops c [] c'"
| line: "cl_receive cops c = Some (l, c1) \<Longrightarrow> l \<noteq> [] \<Longrightarrow> delivers cops c1 ls c' \<Longrightarrow> delivers cops c (l # ls) c'"

inductive_simps delivers_Nil [simp]: "delivers cops c [] c'"
inductive_simps delivers_Cons: "delivers cops c (l # ls) c'"

definition lost_connection :: "desk_signal list" where
  "lost_connection = [Connection_state False, Log ''[System] Connection lost.'']"

context tcp_client_contract
begin

lemma readLoop_delivers:
  "delivers cops (m_client a) ls c' \<Longrightarrow> m_running a \<Longrightarrow> cl_open cops (m_client a) \<Longrightarrow>
     readLoop L cops a = Some (a\<lparr>m_client := c', m_running := False, m_readThread := Ended,
       signals := signals a @ concat (map (answers L) ls) @ lost_connection\<rparr>)"
proof (induction ls arbitrary: a)
  case Nil
  then have "read_body L cops a = Some (False, a\<lparr>m_client := c', m_running := False,
      signals := signals a @ lost_connection\<rparr>)"
    by (simp add: read_body_def emit_def lost_connection_def Let_def)
  with Nil.prems show ?case by (simp add: readLoop.simps [of L cops a])
next
  case (Cons l ls)
  then obtain c1 where c1: "cl_receive cops (m_client a) = Some (l, c1)" "l \<noteq> []" "delivers cops c1 ls c'"
    by (auto simp: delivers_Cons)
  let ?a1 = "a\<lparr>m_client := c1, signals := signals a @ answers L l\<rparr>"
  have "read_body L cops a = Some (True, ?a1)"
    using Cons.prems c1 by (simp add: read_body_def processResponse_answers Let_def)
  moreover have "readLoop L cops ?a1 = Some (?a1\<lparr>m_client := c', m_running := False, m_readThread := Ended,
       signals := signals ?a1 @ concat (map (answers L) ls) @ lost_connection\<rparr>)"
    using Cons.prems c1 receive_open [OF c1(1)] by (intro Cons.IH) simp_all
  ultimately show ?case using Cons.prems(2) by (simp add: readLoop.simps [of L cops a])
qed

text \<open>A request that the network accepts: what it sends and says.\<close>

lemma sendJsonRpc_sent:
  assumes "ok (m_client a)" "cl_open cops (m_client a)" "dump L (- 1) (request_json (m_requestId a) m p) = Inr t"
    and "cl_send cops (t @ [nl]) (m_client a) = (True, c)"
  shows "sendJsonRpc L cops m p a = (Inr (), a\<lparr>m_client := c, m_requestId := m_requestId a + 1,
      signals := signals a @ [Log (''[TX] '' @ t)]\<rparr>) \<and> sent c = sent (m_client a) @ t @ [nl]"
  using assms send_whole [OF assms(1), of "t @ [nl]"]
  by (simp add: sendJsonRpc_def emit_def)

end

text \<open>The lines of a stream that ends are what the client delivers, up to an empty one.\<close>

lemma receiveLine_lost:
  assumes "\<forall>i < k. reads env sops c (io_calls c + i) \<noteq> None" "reads env sops c (io_calls c + k) = None"
    and "frames (m_readBuffer c @ stream (reads env sops c) (io_calls c) k) = ([], r)"
  shows "\<exists>c'. receiveLine env sops c = Some ([], c')"
proof -
  let ?s = "m_readBuffer c @ stream (reads env sops c) (io_calls c) k"
  have "?s = r" using frames_concat [of ?s] assms(3) by simp
  then have "nl \<notin> set ?s" using frames_no_nl [of ?s] assms(3) by simp
  from receive_loop_lost [OF assms(1,2) this] show ?thesis by (simp add: receiveLine_reads)
qed

lemma tcp_delivers:
  "\<forall>i < k. reads env sops c (io_calls c + i) \<noteq> None \<Longrightarrow> reads env sops c (io_calls c + k) = None \<Longrightarrow>
   frames (m_readBuffer c @ stream (reads env sops c) (io_calls c) k) = (ls, r) \<Longrightarrow>
     \<exists>c'. delivers (tcp_ops env sops) c (takeWhile (\<lambda>l. l \<noteq> []) ls) c'"
proof (induction ls arbitrary: c k)
  case Nil
  then show ?case using receiveLine_lost [of k env sops c r] by auto
next
  case (Cons l ls)
  from receiveLine_frame [OF Cons.prems(1,3)] obtain c1 j where c1: "receiveLine env sops c = Some (l, c1)"
      "j \<le> k" "io_calls c1 = io_calls c + j" "reads env sops c1 = reads env sops c"
      "frames (m_readBuffer c1 @ stream (reads env sops c) (io_calls c1) (k - j)) = (ls, r)"
    by blast
  show ?case
  proof (cases "l = []")
    case True
    with c1(1) show ?thesis by auto
  next
    case False
    have "\<forall>i < k - j. reads env sops c1 (io_calls c1 + i) \<noteq> None"
      using Cons.prems(1) c1(3, 4) by (auto simp: add.assoc dest: spec [of _ "j + _"])
    moreover have "reads env sops c1 (io_calls c1 + (k - j)) = None"
      using Cons.prems(2) c1(2-4) by simp
    ultimately obtain c' where "delivers (tcp_ops env sops) c1 (takeWhile (\<lambda>l. l \<noteq> []) ls) c'"
      using Cons.IH c1(4, 5) by metis
    with c1(1) False show ?thesis by (auto simp: delivers_Cons)
  qed
qed

section \<open>Properties\<close>

lemma TcpClient_closed:
  "bounded_writes env (openssl_ops senv cfg) \<Longrightarrow>
     client_closed env (openssl_ops senv cfg) ssl_idle (TcpClient (Some OpenSslSession))"
  by (simp add: client_closed_def TcpClient_def OpenSslSession_idle)

abbreviation desk_steps :: "json_lib \<Rightarrow> client_env \<Rightarrow> ssl_env \<Rightarrow> config \<Rightarrow> desk_disk \<Rightarrow>
    ssl_session tcp_client app_controller \<Rightarrow> bool" where
  "desk_steps L env senv g d a \<equiv> (app_step L (tcp_ops env (openssl_ops senv True)))\<^sup>*\<^sup>*
     (AppController g d (TcpClient (Some OpenSslSession))) a"

lemma desk_steps_inv:
  "bounded_writes env (openssl_ops senv True) \<Longrightarrow> desk_steps L env senv g d a \<Longrightarrow>
     app_inv (tcp_ops env (openssl_ops senv True))
       (client_ok env (openssl_ops senv True) ssl_ok) a"
  using tcp.app_run_inv tcp.AppController_inv TcpClient_closed by metis


text \<open>
  After a disconnect the client holds nothing: no socket, no TLS object, no unread bytes,
  no read thread. (It may wait for the read thread; what it does then is as stated.)
\<close>

theorem disconnect_releases_everything:
  assumes "bounded_writes env (openssl_ops senv True)" "desk_steps L env senv g d a"
    and "requestDisconnect L (tcp_ops env (openssl_ops senv True)) busy a = Some a'"
  shows "sockets (m_client a') = {} \<and> m_readBuffer (m_client a') = [] \<and>
    pred_option ssl_idle (m_sslSession (m_client a')) \<and> m_readThread a' = Not_started \<and>
    \<not> isConnected (tcp_ops env (openssl_ops senv True)) a' \<and> \<not> told (signals a')"
  using tcp.requestDisconnect_state [OF desk_steps_inv [OF assms(1,2)] assms(3)]
  by (simp add: client_closed_def isConnected_def isOpen_def)

text \<open>
  The settings change, in memory and in the file, exactly when a connection succeeds: then
  they are the ones it was made with.
\<close>

theorem settings_follow_connections:
  assumes "bounded_writes env (openssl_ops senv True)" "desk_steps L env senv g d a"
    and "requestConnect L (tcp_ops env (openssl_ops senv True)) busy ip port useSsl useMtls a = Some (r, a')"
  shows "if m_running a' then
      m_config a' = \<lparr>m_ip = ip, m_port = port, m_useSsl = useSsl, m_useMtls = useMtls\<rparr> \<and>
      desk_files a' = snd (save L (m_config a') (desk_files a))
    else m_config a' = m_config a \<and> desk_files a' = desk_files a \<and> r = Inr ()"
proof -
  let ?ops = "tcp_ops env (openssl_ops senv True)"
  obtain a1 where d: "requestDisconnect L ?ops busy a = Some a1"
    using assms(3) by (auto simp: requestConnect_def)
  note a1 = tcp.requestDisconnect_state [OF desk_steps_inv [OF assms(1,2)] d]
  have q: "queryAllRelays L ?ops b = (r, a') \<Longrightarrow>
      m_config a' = m_config b \<and> desk_files a' = desk_files b \<and> m_running a' = m_running b" for b
    by (auto simp: queryAllRelays_def sendJsonRpc_def bindE_def case_prod_beta Let_def split: if_splits sum.splits)
  show ?thesis
  proof (cases "fst (cl_connect ?ops ip port useSsl useMtls (m_client a1))")
    case True
    then show ?thesis
      using assms(3) d a1
      by (auto simp: requestConnect_def case_prod_beta Let_def simp del: tcp_ops_sel dest!: q)
  next
    case False
    then show ?thesis
      using assms(3) d a1 by (auto simp: requestConnect_def case_prod_beta Let_def simp del: tcp_ops_sel)
  qed
qed

text \<open>The application of the examples, not connected and connected to the network \<open>demo_net\<close>.\<close>

abbreviation demo_tcp :: "ssl_session tcp_client client_ops" where
  "demo_tcp \<equiv> tcp_ops demo_net demo_ops"

definition demo_app :: "ssl_session tcp_client app_controller" where
  "demo_app = AppController demo_config demo_disk (TcpClient (Some OpenSslSession))"

lemma demo_steps: "desk_steps L demo_net (demo_ssl 1) demo_config demo_disk demo_app"
  by (simp add: demo_app_def)

definition demo_connected :: "ssl_session tcp_client app_controller" where
  "demo_connected = demo_app\<lparr>m_client := demo_client, m_running := True, m_readThread := Reading,
     signals := [Connection_state True]\<rparr>"


lemma demo_disconnect: "\<exists>a'. requestDisconnect L demo_tcp False demo_app = Some a'"
  by (simp add: requestDisconnect_def join_reader_def)

theorem disconnect_releases_everything_witness:
  "\<exists>a'. requestDisconnect (table_lib []) demo_tcp False demo_app = Some a' \<and> sockets (m_client a') = {}"
  using demo_disconnect disconnect_releases_everything [OF demo_bounded demo_steps] by blast

lemma demo_client_connect:
  "\<exists>c. client_connect demo_net demo_ops ''10.0.0.2'' 5555 True False
     (client_disconnect (openssl_ops (demo_ssl 1) True) (TcpClient (Some OpenSslSession))) = (True, c)"
  by (simp add: client_connect_def client_disconnect_def close_socket_def shutdownSocket_def
      demo_net_def TcpClient_def Let_def initAndConnect_def demo_ssl_def ssl_disconnect_def OpenSslSession_def
      set_verify_def)

lemma connect_running:
  assumes "requestDisconnect L cops busy a = Some a1"
    and "cl_connect cops ip port useSsl useMtls (m_client a1) = (True, c)"
  shows "\<exists>r a'. requestConnect L cops busy ip port useSsl useMtls a = Some (r, a') \<and> m_running a'"
  using assms
  by (auto simp: requestConnect_def queryAllRelays_def sendJsonRpc_def bindE_def case_prod_beta Let_def
      split: sum.split)

theorem settings_follow_connections_witness:
  "\<exists>r a'. requestConnect (table_lib []) demo_tcp False ''10.0.0.2'' 5555 True False demo_app = Some (r, a') \<and>
     m_ip (m_config a') = ''10.0.0.2''"
proof -
  obtain c where c: "client_connect demo_net demo_ops ''10.0.0.2'' 5555 True False
     (client_disconnect demo_ops (TcpClient (Some OpenSslSession))) = (True, c)"
    using demo_client_connect by blast
  obtain a1 where a1: "requestDisconnect (table_lib []) demo_tcp False demo_app = Some a1"
      "m_client a1 = client_disconnect demo_ops (TcpClient (Some OpenSslSession))"
    by (simp add: requestDisconnect_def join_reader_def demo_app_def AppController_def TcpClient_def shutdownSocket_def)
  have "cl_connect demo_tcp ''10.0.0.2'' 5555 True False (m_client a1) = (True, c)"
    using c a1(2) by simp
  from connect_running [OF a1(1) this] obtain r a' where
    r: "requestConnect (table_lib []) demo_tcp False ''10.0.0.2'' 5555 True False demo_app = Some (r, a')" "m_running a'"
    by blast
  from settings_follow_connections [OF demo_bounded demo_steps r(1)] r show ?thesis by auto
qed

text \<open>
  C21: The read thread shows every line of the byte stream up to the first empty one, in order,
  each by the signals of its answer, and then ends and reports that the connection is lost. An
  empty line from the server counts as the end of the connection.
\<close>

theorem read_thread_shows_stream:
  assumes "m_running a" "isConnected (tcp_ops env (openssl_ops senv cfg)) a" "rc = reads env (openssl_ops senv cfg) (m_client a)"
    and "\<forall>i < k. rc (io_calls (m_client a) + i) \<noteq> None" "rc (io_calls (m_client a) + k) = None"
    and "frames (m_readBuffer (m_client a) @ stream rc (io_calls (m_client a)) k) = (ls, r)"
  shows "\<exists>a'. readLoop L (tcp_ops env (openssl_ops senv cfg)) a = Some a' \<and> \<not> m_running a' \<and> m_readThread a' = Ended \<and>
    signals a' = signals a @ concat (map (answers L) (takeWhile (\<lambda>l. l \<noteq> []) ls)) @
      [Connection_state False, Log ''[System] Connection lost.'']"
proof -
  obtain c' where "delivers (tcp_ops env (openssl_ops senv cfg)) (m_client a) (takeWhile (\<lambda>l. l \<noteq> []) ls) c'"
    using tcp_delivers assms(4-6) unfolding assms(3) by blast
  from tcp.readLoop_delivers [OF this assms(1) assms(2) [unfolded isConnected_def]] show ?thesis
    by (auto simp: lost_connection_def)
qed

theorem read_thread_shows_stream_witness:
  "\<exists>a'. readLoop (table_lib [(''abc'', JNull), (''de'', JNull)]) demo_tcp demo_connected = Some a' \<and>
     signals a' = [Connection_state True, Log ''[RX] abc'', Log ''[RX] de'', Connection_state False,
       Log ''[System] Connection lost.'']"
proof -
  let ?L = "table_lib [(''abc'', JNull), (''de'', JNull)]"
  have "\<exists>a'. readLoop ?L demo_tcp demo_connected = Some a' \<and> \<not> m_running a' \<and> m_readThread a' = Ended \<and>
    signals a' = signals demo_connected @
      concat (map (answers ?L) (takeWhile (\<lambda>l. l \<noteq> []) [''abc'', ''de''])) @
      [Connection_state False, Log ''[System] Connection lost.'']"
    by (rule read_thread_shows_stream [OF _ _ refl, of _ _ _ _ 3 _ "''f''"])
      (simp_all add: demo_connected_def demo_client_def TcpClient_def reads_def read_some_def demo_net_def
        stream_def upt_rec less_Suc_eq numeral_3_eq_3 isConnected_def isOpen_def)
  moreover have "answers ?L ''abc'' = [Log ''[RX] abc'']" "answers ?L ''de'' = [Log ''[RX] de'']"
    by (simp_all add: answers_null table_lib_def)
  ultimately show ?thesis by (simp add: demo_connected_def) blast
qed

text \<open>
  A request goes out as one line, the text of a JSON-RPC 2.0 request with its method, its
  params and the next id; a client that is not connected sends nothing and uses no id. When the
  network does not take all of it the window is told so; the id is used up all the same.
\<close>

theorem request_on_the_wire:
  assumes "bounded_writes env (openssl_ops senv True)" "desk_steps L env senv g d a"
    and "sendJsonRpc L (tcp_ops env (openssl_ops senv True)) m p a = (r, a')"
    and "dump L (- 1) (request_json (m_requestId a) m p) = Inr t"
  shows "if \<not> isConnected (tcp_ops env (openssl_ops senv True)) a then
      m_client a' = m_client a \<and> m_requestId a' = m_requestId a \<and>
      signals a' = signals a @ [Log ''[System] Error: Not connected.'']
    else m_requestId a' = m_requestId a + 1 \<and>
      (signals a' = signals a @ [Log (''[TX] '' @ t)] \<and> wire (m_client a') = wire (m_client a) @ t @ [nl] \<or>
       signals a' = signals a @ [Log ''[System] Error sending command.''] \<and>
       (\<exists>out rest. rest \<noteq> [] \<and> t @ [nl] = out @ rest \<and> wire (m_client a') = wire (m_client a) @ out))"
proof -
  let ?ops = "openssl_ops senv True"
  have wr: "write_some env ?ops fd n buf c \<le> int (length buf)" for fd n buf c
    using assms(1) by (rule write_some_bound)
  obtain ok c where send: "client_send env ?ops (t @ [nl]) (m_client a) = (ok, c)"
    by (cases "client_send env ?ops (t @ [nl]) (m_client a)")
  from client_send_wire [OF this wr] obtain out rest where
    w: "wire c = wire (m_client a) @ out" "t @ [nl] = out @ rest"
      "if ok then m_socketFd (m_client a) \<ge> 0 \<and> rest = [] else m_socketFd (m_client a) < 0 \<or> rest \<noteq> []"
    by blast
  show ?thesis
  proof (cases "isConnected (tcp_ops env ?ops) a")
    case False
    then show ?thesis
      using assms(3) by (auto simp: sendJsonRpc_def isConnected_def emit_def)
  next
    case True
    then have a': "a' = (if ok then emit (Log (''[TX] '' @ t)) else emit (Log ''[System] Error sending command.''))
        (a\<lparr>m_requestId := m_requestId a + 1, m_client := c\<rparr>)"
      using assms(3,4) send by (simp add: sendJsonRpc_def isConnected_def Let_def split: if_splits)
    show ?thesis
    proof (cases ok)
      case yes: True
      with w True a' show ?thesis by simp
    next
      case no: False
      with w True have "rest \<noteq> []" by (simp add: isConnected_def isOpen_def)
      with no w True a' show ?thesis by simp
    qed
  qed
qed

theorem request_on_the_wire_witness:
  "signals (snd (sendJsonRpc (table_lib [(''q'', request_json 1 ''get_relays'' JNull)]) demo_tcp ''get_relays'' JNull demo_app)) =
     [Log ''[System] Error: Not connected.'']"
proof -
  let ?L = "table_lib [(''q'', request_json 1 ''get_relays'' JNull)]"
  have "dump ?L (- 1) (request_json (m_requestId demo_app) ''get_relays'' JNull) = Inr ''q''"
    by (simp add: table_lib_def demo_app_def AppController_def)
  from request_on_the_wire [OF demo_bounded demo_steps prod.collapse [symmetric] this] show ?thesis
    by (simp add: isConnected_def isOpen_def demo_app_def AppController_def TcpClient_def)
qed

text \<open>
  A connection that is lost is not closed: the window is told that it is gone and the read
  thread ends, but isConnected still says true and the socket stays open, so that later
  requests are written to it instead of being refused.
\<close>

theorem lost_connection_stays_open:
  assumes "bounded_writes env (openssl_ops senv True)" "desk_steps L env senv g d a" "m_running a"
    and "receiveLine env (openssl_ops senv True) (m_client a) = Some ([], c)"
  shows "\<exists>a'. read_body L (tcp_ops env (openssl_ops senv True)) a = Some (False, a') \<and>
    \<not> told (signals a') \<and> \<not> m_running a' \<and> isConnected (tcp_ops env (openssl_ops senv True)) a' \<and>
    sockets (m_client a') = sockets (m_client a) \<and> m_socketFd (m_client a') \<in> sockets (m_client a')"
proof -
  have inv: "app_inv (tcp_ops env (openssl_ops senv True)) (client_ok env (openssl_ops senv True) ssl_ok) a"
    by (rule desk_steps_inv [OF assms(1,2)])
  then have "isOpen (m_client a)" "m_socketFd (m_client a) \<in> sockets (m_client a)"
    using assms(3) by (simp_all add: app_inv_def client_ok_def isOpen_def)
  then show ?thesis
    using receiveLine_fields [OF assms(4)] assms(3,4)
    by (simp add: read_body_def isConnected_def isOpen_def Let_def)
qed

text \<open>A connection on which nothing comes back.\<close>

definition quiet_net :: client_env where
  "quiet_net = demo_net\<lparr>sock_recv := \<lambda>_ _. None\<rparr>"

lemma quiet_bounded: "bounded_writes quiet_net demo_ops"
  using demo_bounded by (simp add: quiet_net_def bounded_writes_def)

lemma quiet_run:
  "\<exists>r a'. requestConnect (table_lib []) (tcp_ops quiet_net demo_ops) False ''10.0.0.2'' 5555 False False demo_app =
     Some (r, a') \<and> m_running a' \<and> m_readBuffer (m_client a') = [] \<and> \<not> c_useSsl (m_client a')"
  by (simp add: requestConnect_def requestDisconnect_def join_reader_def demo_app_def AppController_def
      TcpClient_def shutdownSocket_def client_disconnect_def client_connect_def quiet_net_def demo_net_def
      queryAllRelays_def sendJsonRpc_def isOpen_def table_lib_def Let_def)

theorem lost_connection_stays_open_witness:
  "\<exists>a'. isConnected (tcp_ops quiet_net demo_ops) a' \<and> \<not> told (signals a')"
proof -
  obtain r a where a: "requestConnect (table_lib []) (tcp_ops quiet_net demo_ops) False ''10.0.0.2'' 5555 False False demo_app =
     Some (r, a)" "m_running a" "m_readBuffer (m_client a) = []" "\<not> c_useSsl (m_client a)"
    using quiet_run by blast
  have steps: "desk_steps (table_lib []) quiet_net (demo_ssl 1) demo_config demo_disk a"
    using app_step.connect [OF a(1)] by (simp add: demo_app_def r_into_rtranclp)
  have "\<exists>c. receiveLine quiet_net demo_ops (m_client a) = Some ([], c)"
    using a(3,4) by (simp add: receiveLine_reads receive_loop_read reads_def read_some_def quiet_net_def
        split: option.split)
  then obtain c where "receiveLine quiet_net demo_ops (m_client a) = Some ([], c)" by blast
  from lost_connection_stays_open [OF quiet_bounded steps a(2) this] show ?thesis by blast
qed

end
