(* ===== verification/Desk_Control.thy ===== *)
theory Desk_Control
  imports Desk_App
begin

text \<open>
  IAppController (minihildesk/src/iapp_controller.h), the interface through which the window and
  the application use the controller, with the laws they rely on. AppController implements it.
\<close>

section \<open>The interface\<close>

text \<open>
  The virtual functions, on a state of the controller. The three signals are read as the list of
  what has been emitted on them. Calls that join the read thread have the argument \<open>busy\<close> of
  \<open>join_reader\<close> and may not return; those that print JSON may throw.
\<close>

record ('a, 'c) controller_ops =
  ia_getClient :: "'a \<Rightarrow> 'c"
  ia_start :: "'a \<Rightarrow> 'a"
  ia_stop :: "bool \<Rightarrow> 'a \<Rightarrow> 'a option"
  ia_requestConnect :: "bool \<Rightarrow> string \<Rightarrow> int \<Rightarrow> bool \<Rightarrow> bool \<Rightarrow> 'a \<Rightarrow> ((exn + unit) \<times> 'a) option"
  ia_requestDisconnect :: "bool \<Rightarrow> 'a \<Rightarrow> 'a option"
  ia_isConnected :: "'a \<Rightarrow> bool"
  ia_toggleRelay :: "int \<Rightarrow> bool \<Rightarrow> 'a \<Rightarrow> (exn + unit) \<times> 'a"
  ia_startTimer :: "int \<Rightarrow> u32 \<Rightarrow> 'a \<Rightarrow> (exn + unit) \<times> 'a"
  ia_startPulse :: "int \<Rightarrow> u32 \<Rightarrow> 'a \<Rightarrow> (exn + unit) \<times> 'a"
  ia_startBlink :: "int \<Rightarrow> u32 \<Rightarrow> u32 \<Rightarrow> u32 \<Rightarrow> 'a \<Rightarrow> (exn + unit) \<times> 'a"
  ia_queryAllRelays :: "'a \<Rightarrow> (exn + unit) \<times> 'a"
  ia_signals :: "'a \<Rightarrow> desk_signal list"
  ia_getConfig :: "'a \<Rightarrow> config"

text \<open>
  What a call may do to the settings and the signals. A request for relays is answered later, by
  the read thread: the call itself only logs.
\<close>

definition adds_signals :: "('a \<Rightarrow> desk_signal list) \<Rightarrow> 'a \<Rightarrow> 'a \<Rightarrow> bool" where
  "adds_signals sig a a' \<longleftrightarrow> (\<exists>xs. sig a' = sig a @ xs)"

definition only_logs :: "('a, 'c) controller_ops \<Rightarrow> 'a \<Rightarrow> 'a \<Rightarrow> bool" where
  "only_logs I a a' \<longleftrightarrow> ia_getConfig I a' = ia_getConfig I a \<and> (\<exists>ts. ia_signals I a' = ia_signals I a @ map Log ts)"

locale app_controller_contract =
  fixes I :: "('a, 'c) controller_ops"
  assumes toggle_logs: "only_logs I a (snd (ia_toggleRelay I i st a))"
    and timer_logs: "only_logs I a (snd (ia_startTimer I i s a))"
    and pulse_logs: "only_logs I a (snd (ia_startPulse I i ms a))"
    and blink_logs: "only_logs I a (snd (ia_startBlink I i onMs offMs cnt a))"
    and query_logs: "only_logs I a (snd (ia_queryAllRelays I a))"
    and disconnect_adds: "ia_requestDisconnect I busy a = Some a' \<Longrightarrow>
      adds_signals (ia_signals I) a a' \<and> ia_getConfig I a' = ia_getConfig I a"
    and connect_adds: "ia_requestConnect I busy ip port useSsl useMtls a = Some (r, a') \<Longrightarrow>
      adds_signals (ia_signals I) a a' \<and>
      (ia_getConfig I a' = ia_getConfig I a \<or>
       ia_getConfig I a' = \<lparr>m_ip = ip, m_port = port, m_useSsl = useSsl, m_useMtls = useMtls\<rparr>)"

section \<open>AppController implements it\<close>

text \<open>start() does nothing, stop() disconnects.\<close>

definition app_start :: "'c app_controller \<Rightarrow> 'c app_controller" where
  [simp]: "app_start a = a"

definition app_stop :: "json_lib \<Rightarrow> 'c client_ops \<Rightarrow> bool \<Rightarrow> 'c app_controller \<Rightarrow> 'c app_controller option" where
  "app_stop L cops busy a = requestDisconnect L cops busy a"

definition app_ops :: "json_lib \<Rightarrow> 'c client_ops \<Rightarrow> ('c app_controller, 'c) controller_ops" where
  "app_ops L cops = \<lparr>ia_getClient = m_client, ia_start = app_start, ia_stop = app_stop L cops,
     ia_requestConnect = requestConnect L cops, ia_requestDisconnect = requestDisconnect L cops,
     ia_isConnected = isConnected cops, ia_toggleRelay = toggleRelay L cops, ia_startTimer = desk_startTimer L cops,
     ia_startPulse = desk_startPulse L cops, ia_startBlink = desk_startBlink L cops,
     ia_queryAllRelays = queryAllRelays L cops, ia_signals = signals, ia_getConfig = m_config\<rparr>"

lemma app_ops_sel [simp]:
  "ia_getClient (app_ops L cops) = m_client" "ia_start (app_ops L cops) = app_start"
  "ia_stop (app_ops L cops) = app_stop L cops" "ia_requestConnect (app_ops L cops) = requestConnect L cops"
  "ia_requestDisconnect (app_ops L cops) = requestDisconnect L cops" "ia_isConnected (app_ops L cops) = isConnected cops"
  "ia_toggleRelay (app_ops L cops) = toggleRelay L cops" "ia_startTimer (app_ops L cops) = desk_startTimer L cops"
  "ia_startPulse (app_ops L cops) = desk_startPulse L cops" "ia_startBlink (app_ops L cops) = desk_startBlink L cops"
  "ia_queryAllRelays (app_ops L cops) = queryAllRelays L cops" "ia_signals (app_ops L cops) = signals"
  "ia_getConfig (app_ops L cops) = m_config"
  by (simp_all add: app_ops_def)

lemma adds_self [simp]: "adds_signals sig a a"
  by (simp add: adds_signals_def)

lemma adds_append: "sig a' = sig a @ xs \<Longrightarrow> adds_signals sig a a'"
  by (auto simp: adds_signals_def)

lemma adds_trans: "adds_signals sig a b \<Longrightarrow> adds_signals sig b c \<Longrightarrow> adds_signals sig a c"
  by (auto simp: adds_signals_def)

lemma sendJsonRpc_logs: "only_logs (app_ops L cops) a (snd (sendJsonRpc L' cops' m p a))"
  by (auto simp: only_logs_def sendJsonRpc_def bindE_def emit_def case_prod_beta Let_def split: sum.split
      intro: exI [of _ "[]"] exI [of _ "[t]" for t])

lemma sendJsonRpc_adds: "adds_signals signals a (snd (sendJsonRpc L cops m p a))"
  using sendJsonRpc_logs [of L cops a L cops m p] by (auto simp: only_logs_def adds_signals_def)

lemma read_body_adds: "read_body L cops a = Some (g, a') \<Longrightarrow> adds_signals signals a a'"
  by (auto simp: read_body_def processResponse_answers adds_signals_def Let_def split: if_splits option.splits)

lemma requestDisconnect_adds:
  assumes "requestDisconnect L cops busy a = Some a'"
  shows "adds_signals signals a a'"
proof -
  let ?a1 = "a\<lparr>m_running := False, m_client := cl_shutdown cops (m_client a)\<rparr>"
  obtain a2 where j: "join_reader L cops busy ?a1 = Some a2"
    and a': "signals a' = signals a2 @ (if m_running a then [Connection_state False, Log ''[System] Disconnected.''] else [])"
    using assms by (auto simp: requestDisconnect_def Let_def)
  have "adds_signals signals ?a1 a2"
    using j read_body_adds by (auto simp: join_reader_def split: if_splits)
  then show ?thesis using a' by (auto simp: adds_signals_def)
qed

lemma read_body_config: "read_body L cops a = Some (g, a') \<Longrightarrow> m_config a' = m_config a"
  by (auto simp: read_body_def processResponse_answers emit_def Let_def split: if_splits option.splits)

lemma requestDisconnect_config:
  "requestDisconnect L cops busy a = Some a' \<Longrightarrow> m_config a' = m_config a"
  by (auto simp: requestDisconnect_def join_reader_def emit_def Let_def
      dest!: read_body_config split: if_splits)

lemma sendJsonRpc_config: "m_config (snd (sendJsonRpc L cops m p a)) = m_config a"
  by (auto simp: sendJsonRpc_def bindE_def emit_def case_prod_beta Let_def split: sum.split)

lemma requestConnect_config:
  assumes "requestConnect L cops busy ip port useSsl useMtls a = Some (r, a')"
  shows "m_config a' = m_config a \<or>
    m_config a' = \<lparr>m_ip = ip, m_port = port, m_useSsl = useSsl, m_useMtls = useMtls\<rparr>"
proof -
  obtain a1 where d: "requestDisconnect L cops busy a = Some a1"
    using assms by (auto simp: requestConnect_def)
  have e: "m_config (snd (queryAllRelays L cops b)) = m_config b" for b
    by (simp add: queryAllRelays_def sendJsonRpc_config)
  have "a' = snd (the (requestConnect L cops busy ip port useSsl useMtls a))" using assms by simp
  then show ?thesis
    using requestDisconnect_config [OF d] e
    by (simp add: requestConnect_def d case_prod_beta Let_def emit_def)
qed

lemma requestConnect_adds:
  assumes "requestConnect L cops busy ip port useSsl useMtls a = Some (r, a')"
  shows "adds_signals signals a a'"
proof -
  obtain a1 where d: "requestDisconnect L cops busy a = Some a1"
    using assms by (auto simp: requestConnect_def)
  have "adds_signals signals a1 a'"
  proof (cases "fst (cl_connect cops ip port useSsl useMtls (m_client a1))")
    case True
    let ?g = "\<lparr>m_ip = ip, m_port = port, m_useSsl = useSsl, m_useMtls = useMtls\<rparr>"
    define b where "b = emit (Log ''[System] Connected successfully.'') (emit (Connection_state True)
      ((emit (Log (connecting_log ip port useSsl useMtls)) a1)
        \<lparr>m_client := snd (cl_connect cops ip port useSsl useMtls (m_client a1)), m_config := ?g,
         desk_files := snd (save L ?g (desk_files a1)), m_running := True, m_readThread := Reading\<rparr>))"
    have "(r, a') = queryAllRelays L cops b"
      using assms d True by (simp add: requestConnect_def b_def case_prod_beta Let_def)
    then have "adds_signals signals b a'" using sendJsonRpc_adds by (metis queryAllRelays_def snd_conv)
    moreover have "adds_signals signals a1 b" by (rule adds_append) (simp add: b_def)
    ultimately show ?thesis by (rule adds_trans [rotated])
  next
    case False
    then have "a' = emit (Log ''[System] Connection failed.'') (emit (Connection_state False)
        ((emit (Log (connecting_log ip port useSsl useMtls)) a1)
          \<lparr>m_client := snd (cl_connect cops ip port useSsl useMtls (m_client a1))\<rparr>))"
      using assms d by (simp add: requestConnect_def case_prod_beta Let_def)
    then show ?thesis by (simp add: adds_signals_def)
  qed
  with requestDisconnect_adds [OF d] show ?thesis by (rule adds_trans)
qed

interpretation control: app_controller_contract "app_ops L cops" for L cops
proof
  fix a a' r busy ip port useSsl useMtls
  show "only_logs (app_ops L cops) a (snd (ia_toggleRelay (app_ops L cops) i st a))" for i st
    by (simp add: desk_requests sendJsonRpc_logs)
  show "only_logs (app_ops L cops) a (snd (ia_startTimer (app_ops L cops) i s a))" for i s
    by (simp add: desk_requests sendJsonRpc_logs)
  show "only_logs (app_ops L cops) a (snd (ia_startPulse (app_ops L cops) i ms a))" for i ms
    by (simp add: desk_requests sendJsonRpc_logs)
  show "only_logs (app_ops L cops) a (snd (ia_startBlink (app_ops L cops) i onMs offMs cnt a))" for i onMs offMs cnt
    by (simp add: desk_requests sendJsonRpc_logs)
  show "only_logs (app_ops L cops) a (snd (ia_queryAllRelays (app_ops L cops) a))"
    by (simp add: desk_requests sendJsonRpc_logs)
  assume "ia_requestDisconnect (app_ops L cops) busy a = Some a'"
  then show "adds_signals (ia_signals (app_ops L cops)) a a' \<and> ia_getConfig (app_ops L cops) a' = ia_getConfig (app_ops L cops) a"
    by (simp add: requestDisconnect_adds requestDisconnect_config)
next
  fix a a' r busy ip port useSsl useMtls
  assume "ia_requestConnect (app_ops L cops) busy ip port useSsl useMtls a = Some (r, a')"
  then show "adds_signals (ia_signals (app_ops L cops)) a a' \<and>
      (ia_getConfig (app_ops L cops) a' = ia_getConfig (app_ops L cops) a \<or>
       ia_getConfig (app_ops L cops) a' = \<lparr>m_ip = ip, m_port = port, m_useSsl = useSsl, m_useMtls = useMtls\<rparr>)"
    using requestConnect_config by (simp add: requestConnect_adds)
qed

end
