(* ===== verification/Desk_Daemon.thy ===== *)
theory Desk_Daemon
  imports Desk_App Rpc_Properties
begin

text \<open>
  The desktop client and the daemon together: what the daemon does with the requests of
  AppController, and what AppController shows of the answers.
\<close>

section \<open>Numbers as keys\<close>

lemma digit_no_space: "is_digit ch \<Longrightarrow> \<not> is_space ch \<and> ch \<noteq> CHR ''-'' \<and> ch \<noteq> CHR ''+''"
  by (auto simp: is_digit_def is_space_def)

lemma hd_show_nat: "is_digit (hd (show_nat n))"
  by (rule show_nat_digits [of _ n]) simp

lemma takeWhile_digits: "takeWhile is_digit (show_nat n) = show_nat n"
  using show_nat_digits by auto

lemma dropWhile_no_space: "s \<noteq> [] \<Longrightarrow> \<not> is_space (hd s) \<Longrightarrow> dropWhile is_space s = s"
  by (cases s) simp_all

lemma stoi_show:
  assumes "fits_int i"
  shows "stoi (show_int i) = Some i"
proof (cases "i < 0")
  case True
  have "dropWhile is_space (CHR ''-'' # s) = CHR ''-'' # s" for s
    by (simp add: is_space_def)
  with True assms show ?thesis
    by (simp add: stoi_def show_int_def Let_def takeWhile_digits)
next
  case False
  have d: "dropWhile is_space (show_nat (nat i)) = show_nat (nat i)"
    using digit_no_space [OF hd_show_nat] by (intro dropWhile_no_space) simp_all
  have "hd (show_nat (nat i)) \<noteq> CHR ''-''" "hd (show_nat (nat i)) \<noteq> CHR ''+''"
    using digit_no_space [OF hd_show_nat] by auto
  with False assms d show ?thesis
    by (simp add: stoi_def show_int_def Let_def takeWhile_digits)
qed

text \<open>
  The keys the daemon prints for its channels the desktop client reads back as the same
  numbers: stoi undoes to_string on every int.
\<close>

theorem channel_keys_round_trip:
  assumes "fits_int i"
  shows "stoi (show_int i) = Some i"
  by (rule stoi_show [OF assms])

theorem channel_keys_round_trip_witness: "stoi (show_int (- 12)) = Some (- 12)"
  by (rule channel_keys_round_trip) (simp add: fits_int_def)

section \<open>Requests and answers\<close>

text \<open>A value that prints and parses back, which the library documents.\<close>

definition text_of :: "json_lib \<Rightarrow> json \<Rightarrow> string \<Rightarrow> bool" where
  "text_of L j t \<longleftrightarrow> dump L (- 1) j = Inr t \<and> parse L t = Inr j"

lemma is_array_jset [simp]: "\<not> is_array (jset k v j)"
  by (simp add: jset_def)

lemma request_json_fields [simp]:
  "is_object (request_json rid m p)" "\<not> is_array (request_json rid m p)"
  "contains (request_json rid m p) ''id''" "field (request_json rid m p) ''id'' = JInt rid"
  "field (request_json rid m p) ''method'' = JString m"
  "contains (request_json rid m p) ''params'' \<longleftrightarrow> p \<noteq> JNull"
  "p \<noteq> JNull \<Longrightarrow> field (request_json rid m p) ''params'' = p"
  "valid_request (request_json rid m p)" "request_id (request_json rid m p) = JInt rid"
  by (simp_all add: request_json_def valid_request_def request_id_def Let_def)

lemma reply_fields [simp]:
  "field (makeSuccessResponse rid res) ''error'' = JNull"
  "field (makeSuccessResponse rid res) ''result'' = res"
  "makeSuccessResponse rid res \<noteq> JNull"
  by (simp_all add: makeSuccessResponse_def jobj_def field_missing)

lemma answers_success:
  assumes "text_of L (makeSuccessResponse rid res) u"
  shows "answers L u = Log (''[RX] '' @ u) # result_answers L res"
  using assms by (simp add: answers_def text_of_def)

lemma processRequest_single:
  assumes "text_of L req t" "\<not> is_array req" "processSingleRequest L r req s = (Inr res, s')" "res \<noteq> JNull"
    and "text_of L res u"
  shows "processRequest L r t s = (Inr (u @ [nl]), s')"
  using assms by (simp add: processRequest_def text_of_def dump_line_def)

section \<open>Setting a relay from the window\<close>

definition toggle_request :: "int \<Rightarrow> int \<Rightarrow> bool \<Rightarrow> json" where
  "toggle_request rid i b =
     request_json rid ''set_relay'' (jset ''state'' (JBool b) (jset ''relay_id'' (JInt i) JNull))"

definition toggle_reply :: "int \<Rightarrow> int \<Rightarrow> bool \<Rightarrow> json" where
  "toggle_reply rid i b = makeSuccessResponse (JInt rid)
     (jobj [(''success'', JBool True), (''relay_id'', JInt i), (''state'', JBool b)])"

text \<open>
  The round of one switch: the text toggleRelay sends makes the daemon set that relay to that
  state and no other, and its answer makes AppController report exactly that.
\<close>

lemma toggle_round:
  assumes "json_laws L" "ctrl_reachable ops h c" "1 \<le> i" "i \<le> 8"
    and "text_of L (toggle_request rid i b) t" "text_of L (toggle_reply rid i b) u"
  shows "processRequest L (daemon_router L (base_device ops)) t c = (Inr (u @ [nl]), snd (setRelay ops i b c)) \<and>
    relay_on (snd (setRelay ops i b c)) j = (if j = i then b else relay_on c j) \<and>
    answers L u = [Log (''[RX] '' @ u), Relay_state i b]"
proof -
  let ?q = "toggle_request rid i b"
  have p: "valid_request ?q" "field ?q ''method'' = JString ''set_relay''" "contains ?q ''params''"
    "contains (field ?q ''params'') ''relay_id''" "field (field ?q ''params'') ''relay_id'' = JInt i"
    "contains (field ?q ''params'') ''state''" "field (field ?q ''params'') ''state'' = JBool b"
    "request_id ?q = JInt rid"
    by (simp_all add: toggle_request_def)
  note s = set_relay_single [OF assms(1-4) p(1-7), unfolded p(8), folded toggle_reply_def, of j]
  have "processRequest L (daemon_router L (base_device ops)) t c = (Inr (u @ [nl]), snd (setRelay ops i b c))"
    by (rule processRequest_single [OF assms(5) _ conjunct1 [OF s] _ assms(6)])
      (simp_all add: toggle_request_def toggle_reply_def)
  moreover have "answers L u = [Log (''[RX] '' @ u), Relay_state i b]"
    using json_lawsD(1,3) [OF assms(1)] fits_int_channel [OF assms(3,4)]
    by (simp add: answers_success [OF assms(6) [unfolded toggle_reply_def]] result_answers_def jobj_def)
  ultimately show ?thesis using s by blast
qed

section \<open>The states at the start\<close>

text \<open>The answer of get_relays: its members in key order.\<close>

definition states_reply :: "int \<Rightarrow> (int \<Rightarrow> bool) \<Rightarrow> json" where
  "states_reply rid on = makeSuccessResponse (JInt rid)
     (fold (\<lambda>i j. jset (show_int i) (JBool (on i)) j) [1..8] (JObject []))"

lemma channels_upto: "[1..8::int] = [1, 2, 3, 4, 5, 6, 7, 8]"
  by (simp add: upto_rec1)

lemma show_channels:
  "show_int 1 = ''1''" "show_int 2 = ''2''" "show_int 3 = ''3''" "show_int 4 = ''4''"
  "show_int 5 = ''5''" "show_int 6 = ''6''" "show_int 7 = ''7''" "show_int 8 = ''8''"
  by (simp_all add: show_int_def show_nat.simps)

lemma states_items:
  "fold (\<lambda>i j. jset (show_int i) (JBool (on i)) j) [1..8] (JObject []) =
     JObject (map (\<lambda>i. (show_int i, JBool (on i))) [1..8])"
  by (simp add: channels_upto show_channels jset_def)

lemma item_answers_channels:
  "\<forall>i \<in> set ks. fits_int i \<Longrightarrow>
     item_answers (map (\<lambda>i. (show_int i, JBool (on i))) ks) = map (\<lambda>i. Relay_state i (on i)) ks"
  by (induction ks) (simp_all add: stoi_show)

text \<open>
  The query at the start of a connection: the text queryAllRelays sends is answered by the
  daemon with the states of all eight relays, and the window is shown each of them once, in
  order, as the daemon has it.
\<close>

theorem window_shows_all_relays:
  assumes "json_laws L" "ctrl_reachable ops h c"
    and "text_of L (request_json rid ''get_relays'' JNull) t" "text_of L (states_reply rid (relay_on c)) u"
  shows "processRequest L (daemon_router L (base_device ops)) t c = (Inr (u @ [nl]), c) \<and>
    answers L u = Log (''[RX] '' @ u) # map (\<lambda>i. Relay_state i (relay_on c i)) [1..8]"
proof
  let ?q = "request_json rid ''get_relays'' JNull"
  let ?j = "fold (\<lambda>i j. jset (show_int i) (JBool (relay_on c i)) j) [1..8] (JObject [])"
  have plain: "\<not> contains ?j ''error''" "\<not> contains ?j ''relay_id''"
    unfolding states_items by (simp_all add: contains_def channels_upto show_channels)
  have h: "map_of (m_methods (daemon_router L (base_device ops))) ''get_relays'' = Some (rpc_get_relays (base_device ops))"
    by (simp add: daemon_methods)
  have single: "processSingleRequest L (daemon_router L (base_device ops)) ?q c = (Inr (states_reply rid (relay_on c)), c)"
    using json_lawsD(4) [OF assms(1)] plain(1)
    by (simp add: processSingleRequest_def dispatch_def h reach.get_relays_states [OF assms(2)] states_reply_def
        Let_def del: upto_rec1)
  show "processRequest L (daemon_router L (base_device ops)) t c = (Inr (u @ [nl]), c)"
    by (rule processRequest_single [OF assms(3) _ single _ assms(4)]) (simp_all add: states_reply_def)
  have "result_answers L ?j = item_answers (map (\<lambda>i. (show_int i, JBool (relay_on c i))) [1..8])"
    using plain(2) by (simp add: result_answers_def states_items)
  also have "\<dots> = map (\<lambda>i. Relay_state i (relay_on c i)) [1..8]"
    by (intro item_answers_channels) (auto intro: fits_int_channel)
  finally show "answers L u = Log (''[RX] '' @ u) # map (\<lambda>i. Relay_state i (relay_on c i)) [1..8]"
    by (simp add: answers_success [OF assms(4) [unfolded states_reply_def]])
qed

theorem window_shows_all_relays_witness:
  "\<exists>L u. answers L u = Log (''[RX] '' @ u) # map (\<lambda>i. Relay_state i (relay_on demo i)) [1..8]"
proof -
  let ?q = "request_json 1 ''get_relays'' JNull" and ?u = "states_reply 1 (relay_on demo)"
  let ?L = "table_lib [(''q'', ?q), (''u'', ?u)]"
  have "?q \<noteq> ?u"
    by (simp add: states_reply_def request_json_def makeSuccessResponse_def jset_def)
  then have "text_of ?L ?q ''q''" "text_of ?L ?u ''u''"
    by (simp_all add: text_of_def table_lib_def)
  from window_shows_all_relays [OF json_laws_table demo_reachable this] show ?thesis by blast
qed

end
