(* ===== verification/Desk_View.thy ===== *)
theory Desk_View
  imports Complex_Main Desk_Control
begin

text \<open>
  The window of the desktop client: the pages of a relay (view/pages), RelayWidget
  (view/relay_widget.cc) and AppHome (view/home.cc). A GTK widget is the properties of it that
  the code sets or reads: text, label, whether it is active or sensitive, the value of a spin
  button within its range. Setting a property to another value emits its signal, as GTK
  documents. Layout and styling are in Desk_Picture.
\<close>

section \<open>Pages\<close>

text \<open>What the widgets ask of the controller.\<close>

datatype relay_request =
    Toggled int bool
  | Timer_started int u32
  | Pulse_triggered int u32
  | Blink_started int u32 u32 u32

text \<open>ToggleModePage: the switch, and the flag that is set while a state is shown.\<close>

record toggle_page =
  m_switch :: bool
  m_updating :: bool

definition onStateSet :: "bool \<Rightarrow> toggle_page \<Rightarrow> bool list" where
  "onStateSet st p = (if m_updating p then [] else [st])"

text \<open>A change of the switch, by the program or the user: it emits state_set when it is one.\<close>

definition set_switch :: "bool \<Rightarrow> toggle_page \<Rightarrow> bool list \<times> toggle_page" where
  "set_switch st p =
     (if m_switch p = st then ([], p)
      else (onStateSet st (p\<lparr>m_switch := st\<rparr>), p\<lparr>m_switch := st\<rparr>))"

definition page_updateState :: "bool \<Rightarrow> toggle_page \<Rightarrow> bool list \<times> toggle_page" where
  "page_updateState active p =
     (let p0 = p\<lparr>m_updating := True\<rparr>;
          (e1, p1) = set_switch active p0;
          (e2, p2) = set_switch active p1
      in (e1 @ e2, p2\<lparr>m_updating := False\<rparr>))"

definition page_getState :: "toggle_page \<Rightarrow> bool" where
  "page_getState p = m_switch p"

text \<open>A spin button: its range, and its value, which is always in the range.\<close>

record spin =
  range_min :: rat
  range_max :: rat
  spin_value :: rat

definition set_spin :: "rat \<Rightarrow> spin \<Rightarrow> spin" where
  "set_spin v s = s\<lparr>spin_value := max (range_min s) (min (range_max s) v)\<rparr>"

definition new_spin :: "rat \<Rightarrow> rat \<Rightarrow> rat \<Rightarrow> spin" where
  "new_spin lo hi v = set_spin v \<lparr>range_min = lo, range_max = hi, spin_value = lo\<rparr>"

text \<open>The conversion of a double to uint32_t drops the fraction.\<close>

definition to_u32 :: "rat \<Rightarrow> u32" where
  "to_u32 v = word_of_int \<lfloor>v\<rfloor>"

text \<open>
  The pages, with what the user can change in them. The number of the relay they also hold is
  only for the lines they print.
\<close>

record timer_page =
  m_durationSpin :: spin

record pulse_page =
  m_pulseSpin :: spin

record blink_page =
  m_onSpin :: spin
  m_offSpin :: spin
  m_countSpin :: spin

record mode_pages =
  m_pageToggle :: toggle_page
  m_pageTimer :: timer_page
  m_pagePulse :: pulse_page
  m_pageBlink :: blink_page

definition ToggleModePage :: toggle_page where
  "ToggleModePage = \<lparr>m_switch = False, m_updating = False\<rparr>"

lemma ToggleModePage_fields [simp]: "\<not> m_switch ToggleModePage" "\<not> m_updating ToggleModePage"
  by (simp_all add: ToggleModePage_def)

definition TimerModePage :: timer_page where
  "TimerModePage = \<lparr>m_durationSpin = new_spin cMinSeconds cMaxSeconds 10\<rparr>"

definition PulseModePage :: pulse_page where
  "PulseModePage = \<lparr>m_pulseSpin = new_spin cMinMs cPulseTimeMax 500\<rparr>"

definition BlinkModePage :: blink_page where
  "BlinkModePage = \<lparr>m_onSpin = new_spin cMinTime cMaxTime 500, m_offSpin = new_spin cMinTime cMaxTime 500,
     m_countSpin = new_spin cMinCount cMaxCount 5\<rparr>"

text \<open>onStartClicked and onTriggerClicked of the pages: the numbers the page emits.\<close>

definition timer_onStartClicked :: "timer_page \<Rightarrow> u32" where
  "timer_onStartClicked p = to_u32 (spin_value (m_durationSpin p))"

definition pulse_onTriggerClicked :: "pulse_page \<Rightarrow> u32" where
  "pulse_onTriggerClicked p = to_u32 (spin_value (m_pulseSpin p))"

definition blink_onStartClicked :: "blink_page \<Rightarrow> u32 \<times> u32 \<times> u32" where
  "blink_onStartClicked p =
     (to_u32 (spin_value (m_onSpin p)), to_u32 (spin_value (m_offSpin p)), to_u32 (spin_value (m_countSpin p)))"

section \<open>A relay\<close>

record relay_widget = mode_pages +
  m_relayId :: int
  m_active :: bool
  m_modeCombo :: int
  m_stack :: string
  led_on :: bool
  widget_sensitive :: bool

definition RelayWidget :: "int \<Rightarrow> relay_widget" where
  "RelayWidget relayId =
     \<lparr>m_pageToggle = ToggleModePage, m_pageTimer = TimerModePage, m_pagePulse = PulseModePage,
      m_pageBlink = BlinkModePage, m_relayId = relayId, m_active = False, m_modeCombo = 0,
      m_stack = ''toggle'', led_on = False, widget_sensitive = True\<rparr>"

definition onPageToggled :: "relay_widget \<Rightarrow> bool \<Rightarrow> relay_request" where
  "onPageToggled w st = Toggled (m_relayId w) st"

definition updateState :: "bool \<Rightarrow> relay_widget \<Rightarrow> relay_request list \<times> relay_widget" where
  "updateState active w =
     (let w1 = w\<lparr>m_active := active, led_on := active\<rparr>;
          (es, p) = page_updateState active (m_pageToggle w1)
      in (map (onPageToggled w1) es, w1\<lparr>m_pageToggle := p\<rparr>))"

definition widget_getState :: "relay_widget \<Rightarrow> bool" where
  "widget_getState w = m_active w"

text \<open>Choosing another mode turns an active relay off.\<close>

definition onModeChanged :: "int \<Rightarrow> relay_widget \<Rightarrow> relay_request list \<times> relay_widget" where
  "onModeChanged activeIndex w =
     (let w1 = w\<lparr>m_modeCombo := activeIndex,
            m_stack := (if activeIndex = 0 then ''toggle'' else if activeIndex = 1 then ''timer''
              else if activeIndex = 2 then ''pulse'' else if activeIndex = 3 then ''blink'' else ''toggle'')\<rparr>
      in (if m_active w1 then [Toggled (m_relayId w1) False] else [], w1))"

text \<open>What the user does to a relay, and what comes of it.\<close>

datatype relay_input =
    Flip bool
  | Choose_mode int
  | Set_duration rat
  | Set_pulse rat
  | Set_on rat
  | Set_off rat
  | Set_count rat
  | Click_timer
  | Click_pulse
  | Click_blink

definition onPageTimerStarted :: "relay_widget \<Rightarrow> u32 \<Rightarrow> relay_request" where
  "onPageTimerStarted w seconds = Timer_started (m_relayId w) seconds"

definition onPagePulseTriggered :: "relay_widget \<Rightarrow> u32 \<Rightarrow> relay_request" where
  "onPagePulseTriggered w durationMs = Pulse_triggered (m_relayId w) durationMs"

definition onPageBlinkStarted :: "relay_widget \<Rightarrow> u32 \<times> u32 \<times> u32 \<Rightarrow> relay_request" where
  "onPageBlinkStarted w = (\<lambda>(onMs, offMs, count). Blink_started (m_relayId w) onMs offMs count)"

fun widget_input :: "relay_input \<Rightarrow> relay_widget \<Rightarrow> relay_request list \<times> relay_widget" where
  "widget_input (Flip st) w =
     (let (es, p) = set_switch st (m_pageToggle w) in (map (onPageToggled w) es, w\<lparr>m_pageToggle := p\<rparr>))"
| "widget_input (Choose_mode i) w = (if m_modeCombo w = i then ([], w) else onModeChanged i w)"
| "widget_input (Set_duration v) w =
     ([], w\<lparr>m_pageTimer := (m_pageTimer w)\<lparr>m_durationSpin := set_spin v (m_durationSpin (m_pageTimer w))\<rparr>\<rparr>)"
| "widget_input (Set_pulse v) w =
     ([], w\<lparr>m_pagePulse := (m_pagePulse w)\<lparr>m_pulseSpin := set_spin v (m_pulseSpin (m_pagePulse w))\<rparr>\<rparr>)"
| "widget_input (Set_on v) w =
     ([], w\<lparr>m_pageBlink := (m_pageBlink w)\<lparr>m_onSpin := set_spin v (m_onSpin (m_pageBlink w))\<rparr>\<rparr>)"
| "widget_input (Set_off v) w =
     ([], w\<lparr>m_pageBlink := (m_pageBlink w)\<lparr>m_offSpin := set_spin v (m_offSpin (m_pageBlink w))\<rparr>\<rparr>)"
| "widget_input (Set_count v) w =
     ([], w\<lparr>m_pageBlink := (m_pageBlink w)\<lparr>m_countSpin := set_spin v (m_countSpin (m_pageBlink w))\<rparr>\<rparr>)"
| "widget_input Click_timer w =
     ([onPageTimerStarted w (timer_onStartClicked (m_pageTimer w))], w)"
| "widget_input Click_pulse w =
     ([onPagePulseTriggered w (pulse_onTriggerClicked (m_pagePulse w))], w)"
| "widget_input Click_blink w =
     ([onPageBlinkStarted w (blink_onStartClicked (m_pageBlink w))], w)"

section \<open>The window\<close>

text \<open>
  The check buttons SSL and mTLS follow each other; setting one emits toggled when it changes,
  and the handler may set the other.
\<close>

record checks =
  m_sslCheck :: bool
  m_mtlsCheck :: bool

definition toggle_ssl :: "checks \<Rightarrow> checks" where
  "toggle_ssl k =
     (let k1 = k\<lparr>m_sslCheck := \<not> m_sslCheck k\<rparr>
      in if \<not> m_sslCheck k1 then k1\<lparr>m_mtlsCheck := False\<rparr> else k1)"

definition toggle_mtls :: "checks \<Rightarrow> checks" where
  "toggle_mtls k =
     (let k1 = k\<lparr>m_mtlsCheck := \<not> m_mtlsCheck k\<rparr>
      in if m_mtlsCheck k1 then k1\<lparr>m_sslCheck := True\<rparr> else k1)"

record home =
  m_ipEntry :: string
  m_portEntry :: string
  m_checks :: checks
  m_connectBtn :: string
  entries_sensitive :: bool
  m_relayWidgets :: "relay_widget list"
  m_logQueue :: "string list"
  m_logTextView :: string
  m_relayQueue :: "(int \<times> bool) list"
  m_connectionState :: bool

definition relay_grid :: "relay_widget list" where
  "relay_grid = map (\<lambda>i. RelayWidget (int i + 1)) [0..<cRelayCount]"

definition AppHome :: "config \<Rightarrow> home" where
  "AppHome g =
     \<lparr>m_ipEntry = m_ip g, m_portEntry = show_int (m_port g),
      m_checks = \<lparr>m_sslCheck = config.m_useSsl g, m_mtlsCheck = config.m_useMtls g\<rparr>,
      m_connectBtn = cConnectLabel, entries_sensitive = True,
      m_relayWidgets = relay_grid, m_logQueue = [], m_logTextView = [],
      m_relayQueue = [], m_connectionState = False\<rparr>"

text \<open>
  The handlers of the signals of the controller, which run on the thread that emits them, and
  those of the dispatchers, which run later on the thread of the window. \<open>stamp\<close> is the time
  put before a log line.
\<close>

definition postLogMessage :: "string \<Rightarrow> string \<Rightarrow> home \<Rightarrow> home" where
  "postLogMessage stamp msg h = h\<lparr>m_logQueue := m_logQueue h @ [stamp @ '' '' @ msg]\<rparr>"

definition onRelayStateUpdated :: "int \<Rightarrow> bool \<Rightarrow> home \<Rightarrow> home" where
  "onRelayStateUpdated relayId st h = h\<lparr>m_relayQueue := m_relayQueue h @ [(relayId, st)]\<rparr>"

definition onConnectionStateUpdated :: "bool \<Rightarrow> home \<Rightarrow> home" where
  "onConnectionStateUpdated st h = h\<lparr>m_connectionState := st\<rparr>"

fun on_signal :: "string \<Rightarrow> desk_signal \<Rightarrow> home \<Rightarrow> home" where
  "on_signal stamp (Log t) = postLogMessage stamp t"
| "on_signal stamp (Relay_state i b) = onRelayStateUpdated i b"
| "on_signal stamp (Connection_state b) = onConnectionStateUpdated b"

definition onLogDispatcher :: "home \<Rightarrow> home" where
  "onLogDispatcher h =
     h\<lparr>m_logTextView := m_logTextView h @ concat (map (\<lambda>l. l @ [nl]) (m_logQueue h)), m_logQueue := []\<rparr>"

fun show_states :: "(int \<times> bool) list \<Rightarrow> relay_widget list \<Rightarrow> relay_request list \<times> relay_widget list" where
  "show_states [] ws = ([], ws)"
| "show_states ((i, st) # q) ws =
     (if 1 \<le> i \<and> i \<le> 8 then
        let (es, w) = updateState st (ws ! nat (i - 1));
            (es', ws') = show_states q (ws[nat (i - 1) := w])
        in (es @ es', ws')
      else show_states q ws)"

definition onRelayDispatcher :: "home \<Rightarrow> relay_request list \<times> home" where
  "onRelayDispatcher h =
     (let (es, ws) = show_states (m_relayQueue h) (m_relayWidgets h)
      in (es, h\<lparr>m_relayQueue := [], m_relayWidgets := ws\<rparr>))"

fun reset_widgets :: "relay_widget list \<Rightarrow> relay_request list \<times> relay_widget list" where
  "reset_widgets [] = ([], [])"
| "reset_widgets (w # ws) =
     (let (es, w') = updateState False w; (es', ws') = reset_widgets ws
      in (es @ es', w'\<lparr>widget_sensitive := False\<rparr> # ws'))"

definition onConnectionDispatcher :: "home \<Rightarrow> relay_request list \<times> home" where
  "onConnectionDispatcher h =
     (if m_connectionState h then
        ([], h\<lparr>m_connectBtn := cDisconnectLabel, entries_sensitive := False,
           m_relayWidgets := map (\<lambda>w. w\<lparr>widget_sensitive := True\<rparr>) (m_relayWidgets h)\<rparr>)
      else let (es, ws) = reset_widgets (m_relayWidgets h)
        in (es, h\<lparr>m_connectBtn := cConnectLabel, entries_sensitive := True, m_relayWidgets := ws\<rparr>))"

section \<open>The application\<close>

record 'a desktop =
  app :: 'a
  home :: home

text \<open>The signals a call of the controller has emitted reach the window.\<close>

definition with_signals :: "('a \<Rightarrow> desk_signal list) \<Rightarrow> string \<Rightarrow> 'a \<Rightarrow> 'a desktop \<Rightarrow> 'a desktop" where
  "with_signals sig stamp a d =
     d\<lparr>app := a, home := fold (on_signal stamp) (drop (length (sig (app d))) (sig a)) (home d)\<rparr>"

abbreviation with_app :: "string \<Rightarrow> 'c app_controller \<Rightarrow> 'c app_controller desktop \<Rightarrow> 'c app_controller desktop" where
  "with_app \<equiv> with_signals signals"

definition port_of :: "home \<Rightarrow> int" where
  "port_of h = (case stoi (m_portEntry h) of None \<Rightarrow> cDefaultPortFallback | Some p \<Rightarrow> p)"

definition onConnectClicked :: "('a, 'c) controller_ops \<Rightarrow> bool \<Rightarrow> string \<Rightarrow> 'a desktop \<Rightarrow> 'a desktop option" where
  "onConnectClicked I busy stamp d =
     (if ia_isConnected I (app d) then
        map_option (\<lambda>a. with_signals (ia_signals I) stamp a d) (ia_requestDisconnect I busy (app d))
      else map_option (\<lambda>(r, a). with_signals (ia_signals I) stamp a d)
        (ia_requestConnect I busy (m_ipEntry (home d)) (port_of (home d)) (m_sslCheck (m_checks (home d)))
          (m_mtlsCheck (m_checks (home d))) (app d)))"

fun relay_call :: "('a, 'c) controller_ops \<Rightarrow> relay_request \<Rightarrow> 'a \<Rightarrow> 'a" where
  "relay_call I (Toggled i st) a = snd (ia_toggleRelay I i st a)"
| "relay_call I (Timer_started i s) a = snd (ia_startTimer I i s a)"
| "relay_call I (Pulse_triggered i ms) a = snd (ia_startPulse I i ms a)"
| "relay_call I (Blink_started i onMs offMs n) a = snd (ia_startBlink I i onMs offMs n a)"

definition onPollTimeout :: "('a, 'c) controller_ops \<Rightarrow> string \<Rightarrow> 'a desktop \<Rightarrow> 'a desktop" where
  "onPollTimeout I stamp d =
     (if ia_isConnected I (app d) then with_signals (ia_signals I) stamp (snd (ia_queryAllRelays I (app d))) d else d)"

section \<open>Showing states\<close>

lemma page_updateState_eq:
  "page_updateState active p = ([], p\<lparr>m_switch := active, m_updating := False\<rparr>)"
  by (cases p) (auto simp: page_updateState_def set_switch_def onStateSet_def Let_def)

definition shown :: "bool \<Rightarrow> relay_widget \<Rightarrow> relay_widget" where
  "shown st w = w\<lparr>m_active := st, led_on := st,
     m_pageToggle := (m_pageToggle w)\<lparr>m_switch := st, m_updating := False\<rparr>\<rparr>"

lemma updateState_eq: "updateState st w = ([], shown st w)"
  by (simp add: updateState_def page_updateState_eq shown_def)

lemma shown_fields [simp]:
  "led_on (shown st w) = st" "m_active (shown st w) = st" "m_switch (m_pageToggle (shown st w)) = st"
  "m_relayId (shown st w) = m_relayId w" "widget_sensitive (shown st w) = widget_sensitive w"
  by (simp_all add: shown_def)

text \<open>The last state for a relay in a list of updates.\<close>

fun last_state :: "int \<Rightarrow> (int \<times> bool) list \<Rightarrow> bool option" where
  "last_state i [] = None"
| "last_state i ((j, st) # q) = (case last_state i q of None \<Rightarrow> if j = i then Some st else None | Some b \<Rightarrow> Some b)"

lemma show_states_eq:
  "show_states q ws = ([], fold (\<lambda>(i, st) ws. if 1 \<le> i \<and> i \<le> 8 then ws[nat (i - 1) := shown st (ws ! nat (i - 1))] else ws) q ws)"
  by (induction q ws rule: show_states.induct) (auto simp: updateState_eq)

lemma shown_shown: "shown st (shown st' w) = shown st w"
  by (simp add: shown_def)

lemma show_states_nth:
  assumes "length ws = 8" "k < 8"
  shows "snd (show_states q ws) ! k =
    (case last_state (int k + 1) q of None \<Rightarrow> ws ! k | Some st \<Rightarrow> shown st (ws ! k))"
  using assms(1)
proof (induction q arbitrary: ws)
  case Nil
  then show ?case by simp
next
  case (Cons x q)
  obtain i st where x: "x = (i, st)" by (cases x)
  let ?ws = "if 1 \<le> i \<and> i \<le> 8 then ws[nat (i - 1) := shown st (ws ! nat (i - 1))] else ws"
  have step: "snd (show_states (x # q) ws) = snd (show_states q ?ws)"
    by (simp add: x show_states_eq)
  have "?ws ! k = (if i = int k + 1 then shown st (ws ! k) else ws ! k)"
    using Cons.prems assms(2) by (auto simp: nth_list_update)
  moreover have "length ?ws = 8" using Cons.prems by simp
  ultimately show ?case
    unfolding step using Cons.IH [of ?ws] by (auto simp: x shown_shown split: option.split)
qed

lemma reset_widgets_eq: "reset_widgets ws = ([], map (\<lambda>w. (shown False w)\<lparr>widget_sensitive := False\<rparr>) ws)"
  by (induction ws) (simp_all add: updateState_eq)

section \<open>Running\<close>

definition do_requests :: "('a, 'c) controller_ops \<Rightarrow> string \<Rightarrow> relay_request list \<Rightarrow> 'a desktop \<Rightarrow> 'a desktop" where
  "do_requests I stamp rs d = fold (\<lambda>r d. with_signals (ia_signals I) stamp (relay_call I r (app d)) d) rs d"

text \<open>
  What can happen in the window and in the read thread. A widget that is used by the user is
  replaced by what it becomes, and its requests are made.
\<close>

inductive desktop_step :: "json_lib \<Rightarrow> 'c client_ops \<Rightarrow> 'c app_controller desktop \<Rightarrow> 'c app_controller desktop \<Rightarrow> bool" for L cops where
  connect: "onConnectClicked (app_ops L cops) busy stamp d = Some d' \<Longrightarrow> desktop_step L cops d d'"
| use_relay: "k < length (m_relayWidgets (home d)) \<Longrightarrow> widget_input inp (m_relayWidgets (home d) ! k) = (rs, w) \<Longrightarrow>
    desktop_step L cops d (do_requests (app_ops L cops) stamp rs
      (d\<lparr>home := (home d)\<lparr>m_relayWidgets := (m_relayWidgets (home d))[k := w]\<rparr>\<rparr>))"
| use_ssl: "desktop_step L cops d (d\<lparr>home := (home d)\<lparr>m_checks := toggle_ssl (m_checks (home d))\<rparr>\<rparr>)"
| use_mtls: "desktop_step L cops d (d\<lparr>home := (home d)\<lparr>m_checks := toggle_mtls (m_checks (home d))\<rparr>\<rparr>)"
| enter: "desktop_step L cops d (d\<lparr>home := (home d)\<lparr>m_ipEntry := ip, m_portEntry := port\<rparr>\<rparr>)"
| poll: "desktop_step L cops d (onPollTimeout (app_ops L cops) stamp d)"
| read: "m_readThread (app d) = Reading \<Longrightarrow> m_running (app d) \<Longrightarrow> read_body L cops (app d) = Some (True, a) \<Longrightarrow>
    desktop_step L cops d (with_app stamp a d)"
| read_end: "m_readThread (app d) = Reading \<Longrightarrow> m_running (app d) \<Longrightarrow> read_body L cops (app d) = Some (False, a) \<Longrightarrow>
    desktop_step L cops d (with_app stamp (a\<lparr>m_readThread := Ended\<rparr>) d)"
| show_log: "desktop_step L cops d (d\<lparr>home := onLogDispatcher (home d)\<rparr>)"
| show_relays: "onRelayDispatcher (home d) = (rs, h) \<Longrightarrow>
    desktop_step L cops d (do_requests (app_ops L cops) stamp rs (d\<lparr>home := h\<rparr>))"
| show_connection: "onConnectionDispatcher (home d) = (rs, h) \<Longrightarrow>
    desktop_step L cops d (do_requests (app_ops L cops) stamp rs (d\<lparr>home := h\<rparr>))"

text \<open>
  The factories (config_factory.cc, app_controller_factory.cc, view_factory.cc) call one
  constructor each; the settings a ConfigManager has made come with the files it made them from.
\<close>

definition createConfigManager :: "json_lib \<Rightarrow> desk_disk \<Rightarrow> config \<times> desk_disk" where
  [simp]: "createConfigManager L disk = ConfigManager L disk"

definition createAppController :: "config \<times> desk_disk \<Rightarrow> 'c \<Rightarrow> 'c app_controller" where
  [simp]: "createAppController cfg client = AppController (fst cfg) (snd cfg) client"

definition createHomeView :: "'c app_controller \<Rightarrow> home" where
  [simp]: "createHomeView controller = AppHome (m_config controller)"

text \<open>
  EntryApplication (application.cc): on_startup makes settings, client, controller and window,
  and starts the controller, which does nothing. on_shutdown stops the controller.
\<close>

lemma AppController_config [simp]: "m_config (AppController g disk c) = g"
  by (simp add: AppController_def)

definition start_desktop :: "config \<Rightarrow> desk_disk \<Rightarrow> 'c \<Rightarrow> 'c app_controller desktop" where
  "start_desktop g disk c =
     (let a = createAppController (g, disk) c; h = createHomeView a in \<lparr>app = app_start a, home = h\<rparr>)"

definition on_startup :: "json_lib \<Rightarrow> 'c \<Rightarrow> desk_disk \<Rightarrow> 'c app_controller desktop" where
  "on_startup L c disk = (let (g, disk1) = createConfigManager L disk in start_desktop g disk1 c)"

definition on_shutdown :: "('a, 'c) controller_ops \<Rightarrow> bool \<Rightarrow> string \<Rightarrow> 'a desktop \<Rightarrow> 'a desktop option" where
  "on_shutdown I busy stamp d = map_option (\<lambda>a. with_signals (ia_signals I) stamp a d) (ia_stop I busy (app d))"

lemma with_app_def:
  "with_app stamp a d =
     d\<lparr>app := a, home := fold (on_signal stamp) (drop (length (signals (app d))) (signals a)) (home d)\<rparr>"
  by (rule with_signals_def)

section \<open>The window on its controller\<close>

text \<open>What holds of the window with any controller that keeps to its contract.\<close>

lemma signals_state: "m_connectionState (fold (on_signal stamp) xs h) = fold tell xs (m_connectionState h)"
proof (induction xs arbitrary: h)
  case (Cons x xs)
  then show ?case
    by (cases x) (simp_all add: postLogMessage_def onRelayStateUpdated_def onConnectionStateUpdated_def)
qed simp

lemma same_log: "\<exists>q. h = h\<lparr>m_logQueue := q\<rparr>"
  by (rule exI [of _ "m_logQueue h"]) simp

lemma logs_home: "\<exists>q. fold (on_signal stamp) (map Log ts) h = h\<lparr>m_logQueue := q\<rparr>"
proof (induction ts arbitrary: h)
  case (Cons t ts)
  then show ?case using Cons [of "postLogMessage stamp t h"] by (auto simp: postLogMessage_def)
qed (simp add: same_log)

text \<open>The window knows the last connection signal of its controller.\<close>

definition knows_state :: "('a \<Rightarrow> desk_signal list) \<Rightarrow> 'a desktop \<Rightarrow> bool" where
  "knows_state sig d \<longleftrightarrow> m_connectionState (home d) = told (sig (app d))"

lemma with_signals_app [simp]: "app (with_signals sig stamp a d) = a"
  by (simp add: with_signals_def)

lemma with_signals_knows:
  "knows_state sig d \<Longrightarrow> adds_signals sig (app d) a \<Longrightarrow> knows_state sig (with_signals sig stamp a d)"
  by (auto simp: knows_state_def adds_signals_def with_signals_def signals_state)

context app_controller_contract
begin

lemma logs_adds: "only_logs I a a' \<Longrightarrow> adds_signals (ia_signals I) a a'"
  by (auto simp: only_logs_def adds_signals_def)

lemma relay_call_logs: "only_logs I a (relay_call I r a)"
  by (cases r) (simp_all add: toggle_logs timer_logs pulse_logs blink_logs)

lemma with_logs_home:
  "only_logs I (app d) a \<Longrightarrow> \<exists>q. home (with_signals (ia_signals I) stamp a d) = (home d)\<lparr>m_logQueue := q\<rparr>"
  using logs_home by (auto simp: only_logs_def with_signals_def)

text \<open>A request of a panel changes neither the settings nor the window, but for its log.\<close>

lemma requests_home: "\<exists>q. home (do_requests I stamp rs d) = (home d)\<lparr>m_logQueue := q\<rparr>"
proof (induction rs arbitrary: d)
  case (Cons r rs)
  let ?d = "with_signals (ia_signals I) stamp (relay_call I r (app d)) d"
  obtain q where "home ?d = (home d)\<lparr>m_logQueue := q\<rparr>" using with_logs_home [OF relay_call_logs] by blast
  then show ?case using Cons [of ?d] by (auto simp: do_requests_def)
qed (simp add: do_requests_def same_log)

lemma poll_home: "\<exists>q. home (onPollTimeout I stamp d) = (home d)\<lparr>m_logQueue := q\<rparr>"
  using with_logs_home [OF query_logs]
  by (cases "ia_isConnected I (app d)") (simp_all add: onPollTimeout_def same_log)

lemma requests_config: "ia_getConfig I (app (do_requests I stamp rs d)) = ia_getConfig I (app d)"
  using relay_call_logs by (induction rs arbitrary: d) (simp_all add: do_requests_def only_logs_def)

lemma poll_config: "ia_getConfig I (app (onPollTimeout I stamp d)) = ia_getConfig I (app d)"
  using query_logs by (simp add: onPollTimeout_def only_logs_def)

lemma requests_know: "knows_state (ia_signals I) d \<Longrightarrow> knows_state (ia_signals I) (do_requests I stamp rs d)"
  by (induction rs arbitrary: d)
    (simp_all add: do_requests_def with_signals_knows logs_adds [OF relay_call_logs])

lemma poll_knows: "knows_state (ia_signals I) d \<Longrightarrow> knows_state (ia_signals I) (onPollTimeout I stamp d)"
  by (simp add: onPollTimeout_def with_signals_knows logs_adds [OF query_logs])

text \<open>A click on the button: the settings it asks for are those in the window.\<close>

lemma click_knows:
  assumes "onConnectClicked I busy stamp d = Some d'" "knows_state (ia_signals I) d"
  shows "knows_state (ia_signals I) d'"
  using assms disconnect_adds connect_adds
  by (auto simp: onConnectClicked_def intro!: with_signals_knows split: if_splits)

lemma click_config:
  assumes "onConnectClicked I busy stamp d = Some d'"
  shows "ia_getConfig I (app d') = ia_getConfig I (app d) \<or>
    ia_getConfig I (app d') = \<lparr>m_ip = m_ipEntry (home d), m_port = port_of (home d),
      m_useSsl = m_sslCheck (m_checks (home d)), m_useMtls = m_mtlsCheck (m_checks (home d))\<rparr>"
proof (cases "ia_isConnected I (app d)")
  case True
  then show ?thesis using assms disconnect_adds by (auto simp: onConnectClicked_def)
next
  case False
  with assms obtain r a where a: "ia_requestConnect I busy (m_ipEntry (home d)) (port_of (home d))
      (m_sslCheck (m_checks (home d))) (m_mtlsCheck (m_checks (home d))) (app d) = Some (r, a)"
    and "d' = with_signals (ia_signals I) stamp a d" by (auto simp: onConnectClicked_def)
  with connect_adds [OF a] show ?thesis by simp
qed

lemma click_home:
  assumes "onConnectClicked I busy stamp d = Some d'"
  shows "\<exists>xs. home d' = fold (on_signal stamp) xs (home d)"
  using assms by (auto simp: onConnectClicked_def with_signals_def split: if_splits)

end

section \<open>Running with the client\<close>

definition desktop_inv :: "'c client_ops \<Rightarrow> ('c \<Rightarrow> bool) \<Rightarrow> 'c app_controller desktop \<Rightarrow> bool" where
  "desktop_inv cops ok d \<longleftrightarrow> app_inv cops ok (app d) \<and> m_connectionState (home d) = told (signals (app d))"

lemma with_app_inv:
  assumes "desktop_inv cops ok d" "adds_signals signals (app d) a" "app_inv cops ok a"
  shows "desktop_inv cops ok (with_app stamp a d)"
  using with_signals_knows [of signals d a stamp] assms by (simp add: desktop_inv_def knows_state_def)

context tcp_client_contract
begin

lemma relay_call_inv: "app_inv cops ok a \<Longrightarrow> app_inv cops ok (relay_call (app_ops L cops) r a)"
  by (cases r) (simp_all add: desk_requests sendJsonRpc_inv)

lemma do_requests_inv:
  assumes "desktop_inv cops ok d"
  shows "desktop_inv cops ok (do_requests (app_ops L cops) stamp rs d)"
proof -
  have "app_inv cops ok (app d) \<Longrightarrow> app_inv cops ok (app (do_requests (app_ops L cops) stamp rs d))"
    by (induction rs arbitrary: d) (simp_all add: do_requests_def relay_call_inv)
  then show ?thesis
    using assms control.requests_know [of L cops d stamp rs] by (simp add: desktop_inv_def knows_state_def)
qed

lemma desktop_step_inv:
  assumes "desktop_step L cops d d'" "desktop_inv cops ok d"
  shows "desktop_inv cops ok d'"
proof -
  have inv: "app_inv cops ok (app d)" using assms(2) by (simp add: desktop_inv_def)
  have same: "desktop_inv cops ok (d\<lparr>home := h\<rparr>)" if "m_connectionState h = m_connectionState (home d)" for h
    using assms(2) that by (simp add: desktop_inv_def)
  from assms(1) show ?thesis
  proof (cases rule: desktop_step.cases)
    case (connect busy stamp)
    show ?thesis
    proof (cases "isConnected cops (app d)")
      case True
      with connect obtain a where a: "requestDisconnect L cops busy (app d) = Some a" "d' = with_app stamp a d"
        by (auto simp: onConnectClicked_def)
      show ?thesis
        unfolding a(2) by (rule with_app_inv [OF assms(2) requestDisconnect_adds [OF a(1)] requestDisconnect_inv [OF inv a(1)]])
    next
      case False
      with connect obtain r a where a: "requestConnect L cops busy (m_ipEntry (home d)) (port_of (home d))
          (m_sslCheck (m_checks (home d))) (m_mtlsCheck (m_checks (home d))) (app d) = Some (r, a)" "d' = with_app stamp a d"
        by (auto simp: onConnectClicked_def)
      show ?thesis
        unfolding a(2) by (rule with_app_inv [OF assms(2) requestConnect_adds [OF a(1)] requestConnect_inv [OF inv a(1)]])
    qed
  next
    case (use_relay k inp rs w stamp)
    show ?thesis unfolding use_relay(1) by (intro do_requests_inv same) simp
  next
    case (poll stamp)
    show ?thesis
      unfolding poll onPollTimeout_def
      using with_app_inv [OF assms(2) sendJsonRpc_adds sendJsonRpc_inv [OF inv]] assms(2)
      by (simp add: queryAllRelays_def)
  next
    case (read a stamp)
    have "app_inv cops ok a" using app_step_inv [OF app_step.read [OF read(2-4)] inv] .
    then show ?thesis unfolding read(1) by (rule with_app_inv [OF assms(2) read_body_adds [OF read(4)]])
  next
    case (read_end a stamp)
    have "app_inv cops ok (a\<lparr>m_readThread := Ended\<rparr>)" using app_step_inv [OF app_step.read_end [OF read_end(2-4)] inv] .
    moreover have "adds_signals signals (app d) (a\<lparr>m_readThread := Ended\<rparr>)"
      using read_body_adds [OF read_end(4)] by (simp add: adds_signals_def)
    ultimately show ?thesis unfolding read_end(1) by (intro with_app_inv [OF assms(2)])
  next
    case (show_relays rs h stamp)
    have "m_connectionState h = m_connectionState (home d)"
      using show_relays(2) by (auto simp: onRelayDispatcher_def split: prod.splits)
    then show ?thesis unfolding show_relays(1) by (intro do_requests_inv same)
  next
    case (show_connection rs h stamp)
    have "m_connectionState h = m_connectionState (home d)"
      using show_connection(2) by (auto simp: onConnectionDispatcher_def split: prod.splits if_splits)
    then show ?thesis unfolding show_connection(1) by (intro do_requests_inv same)
  qed (use assms(2) in \<open>simp_all add: desktop_inv_def onLogDispatcher_def\<close>)
qed

lemma desktop_run_inv:
  "(desktop_step L cops)\<^sup>*\<^sup>* d d' \<Longrightarrow> desktop_inv cops ok d \<Longrightarrow> desktop_inv cops ok d'"
  by (induction rule: rtranclp_induct) (auto intro: desktop_step_inv)

lemma start_desktop_inv: "closed c \<Longrightarrow> desktop_inv cops ok (start_desktop g disk c)"
  using AppController_inv [of c g disk]
  by (simp add: desktop_inv_def start_desktop_def AppHome_def AppController_def)

end

section \<open>Properties\<close>

text \<open>
  C24: Showing states never asks for any: whatever states and connection changes the window is
  shown, no request comes of it, although the switches change. After the updates are shown
  each relay has the last state that was reported for it, in its lamp, its switch and its
  memory, and relays without an update are untouched.
\<close>

theorem relay_panel_shows_last_state:
  assumes "length (m_relayWidgets h) = 8" "k < 8"
  shows "fst (onConnectionDispatcher h) = [] \<and> fst (onRelayDispatcher h) = [] \<and>
    (case last_state (int k + 1) (m_relayQueue h) of
       None \<Rightarrow> m_relayWidgets (snd (onRelayDispatcher h)) ! k = m_relayWidgets h ! k
     | Some st \<Rightarrow>
         led_on (m_relayWidgets (snd (onRelayDispatcher h)) ! k) = st \<and>
         widget_getState (m_relayWidgets (snd (onRelayDispatcher h)) ! k) = st \<and>
         page_getState (m_pageToggle (m_relayWidgets (snd (onRelayDispatcher h)) ! k)) = st)"
proof -
  have "fst (onConnectionDispatcher h) = []" by (simp add: onConnectionDispatcher_def reset_widgets_eq)
  moreover have "fst (onRelayDispatcher h) = []" by (simp add: onRelayDispatcher_def show_states_eq)
  moreover have "m_relayWidgets (snd (onRelayDispatcher h)) = snd (show_states (m_relayQueue h) (m_relayWidgets h))"
    by (simp add: onRelayDispatcher_def case_prod_beta Let_def)
  ultimately show ?thesis
    using show_states_nth [OF assms, of "m_relayQueue h"] by (auto simp: widget_getState_def page_getState_def split: option.split)
qed

theorem relay_panel_shows_last_state_witness:
  "led_on (m_relayWidgets (snd (onRelayDispatcher ((AppHome demo_config)\<lparr>m_relayQueue := [(3, True), (9, True), (3, False), (3, True)]\<rparr>))) ! 2)"
  using relay_panel_shows_last_state [of "(AppHome demo_config)\<lparr>m_relayQueue := [(3, True), (9, True), (3, False), (3, True)]\<rparr>" 2]
  by (simp add: AppHome_def relay_grid_def)

text \<open>The window over the client of the program.\<close>

abbreviation desk_runs :: "json_lib \<Rightarrow> client_env \<Rightarrow> ssl_env \<Rightarrow> config \<Rightarrow> desk_disk \<Rightarrow>
    ssl_session tcp_client app_controller desktop \<Rightarrow> bool" where
  "desk_runs L env senv g disk d \<equiv> (desktop_step L (tcp_ops env (openssl_ops senv True)))\<^sup>*\<^sup>*
     (start_desktop g disk (TcpClient (Some OpenSslSession))) d"

lemma desk_runs_inv:
  "bounded_writes env (openssl_ops senv True) \<Longrightarrow> desk_runs L env senv g disk d \<Longrightarrow>
     desktop_inv (tcp_ops env (openssl_ops senv True)) (client_ok env (openssl_ops senv True) ssl_ok) d"
  using tcp.desktop_run_inv tcp.start_desktop_inv TcpClient_closed by metis

text \<open>
  When the window has handled the last connection signal it shows what the controller does:
  the button says Disconnect, the address fields are locked and the relays can be used exactly
  while the client runs. It is so after any use of the window and any traffic.
\<close>

theorem window_follows_controller:
  assumes "bounded_writes env (openssl_ops senv True)" "desk_runs L env senv g disk d"
    and "h = snd (onConnectionDispatcher (home d))"
  shows "m_connectBtn h = (if m_running (app d) then ''Disconnect'' else ''Connect'') \<and>
    entries_sensitive h = (\<not> m_running (app d)) \<and>
    list_all (\<lambda>w. widget_sensitive w = m_running (app d)) (m_relayWidgets h)"
proof -
  have "m_connectionState (home d) = m_running (app d)"
    using desk_runs_inv [OF assms(1,2)] by (simp add: desktop_inv_def app_inv_def)
  then show ?thesis
    unfolding assms(3) by (simp add: onConnectionDispatcher_def reset_widgets_eq list_all_iff)
qed

definition demo_desktop :: "ssl_session tcp_client app_controller desktop" where
  "demo_desktop = start_desktop demo_config demo_disk (TcpClient (Some OpenSslSession))"

theorem window_follows_controller_witness:
  "m_connectBtn (snd (onConnectionDispatcher (home demo_desktop))) = ''Connect''"
proof -
  have "desk_runs (table_lib []) demo_net (demo_ssl 1) demo_config demo_disk demo_desktop"
    by (simp add: demo_desktop_def)
  from window_follows_controller [OF demo_bounded this refl] show ?thesis
    by (simp add: demo_desktop_def start_desktop_def AppController_def)
qed

text \<open>
  C37: After a lost connection the button says Connect, but the first click does not connect: the
  client still counts as connected, so that the click only closes what is left of it, without
  a word, and it takes a second click to connect.
\<close>

theorem connect_button_after_loss:
  assumes "bounded_writes env (openssl_ops senv True)" "desk_runs L env senv g disk d" "m_running (app d)"
    and "receiveLine env (openssl_ops senv True) (m_client (app d)) = Some ([], c)"
  shows "\<exists>d1 d2. desktop_step L (tcp_ops env (openssl_ops senv True)) d d1 \<and>
    m_connectBtn (snd (onConnectionDispatcher (home d1))) = ''Connect'' \<and>
    onConnectClicked (app_ops L (tcp_ops env (openssl_ops senv True))) False stamp d1 = Some d2 \<and>
    \<not> isConnected (tcp_ops env (openssl_ops senv True)) (app d2) \<and> signals (app d2) = signals (app d1)"
proof -
  let ?ops = "tcp_ops env (openssl_ops senv True)"
  have inv: "app_inv ?ops (client_ok env (openssl_ops senv True) ssl_ok) (app d)"
    using desk_runs_inv [OF assms(1,2)] by (simp add: desktop_inv_def)
  then have run: "m_readThread (app d) = Reading" "isOpen (m_client (app d))"
    using assms(3) by (simp_all add: app_inv_def)
  define a where "a = (app d)\<lparr>m_client := c, m_running := False, signals := signals (app d) @ lost_connection\<rparr>"
  have b: "read_body L ?ops (app d) = Some (False, a)"
    using run(2) assms(3,4) by (simp add: read_body_def a_def emit_def lost_connection_def)
  let ?d1 = "with_app stamp (a\<lparr>m_readThread := Ended\<rparr>) d"
  have step: "desktop_step L ?ops d ?d1" by (rule desktop_step.read_end [OF run(1) assms(3) b])
  then have runs: "desk_runs L env senv g disk ?d1" using assms(2) by (rule rtranclp.rtrancl_into_rtrancl [rotated])
  have app1: "app ?d1 = a\<lparr>m_readThread := Ended\<rparr>" by (simp add: with_app_def)
  have off: "\<not> m_running (app ?d1)" unfolding app1 by (simp add: a_def)
  then have "m_connectionState (home ?d1) = False"
    using desk_runs_inv [OF assms(1) runs] by (simp add: desktop_inv_def app_inv_def)
  then have btn: "m_connectBtn (snd (onConnectionDispatcher (home ?d1))) = ''Connect''"
    by (simp add: onConnectionDispatcher_def reset_widgets_eq)
  have conn: "isConnected ?ops (app ?d1)"
    unfolding app1 using receiveLine_fields [OF assms(4)] run(2) by (simp add: isConnected_def isOpen_def a_def)
  obtain a2 where a2: "requestDisconnect L ?ops False (app ?d1) = Some a2" "signals a2 = signals (app ?d1)"
    using off by (simp add: requestDisconnect_def join_reader_def)
  have click: "onConnectClicked (app_ops L ?ops) False stamp ?d1 = Some (with_app stamp a2 ?d1)"
    using conn a2(1) by (simp add: onConnectClicked_def)
  have "\<not> isConnected ?ops a2"
    using tcp.requestDisconnect_state [OF _ a2(1)] desk_runs_inv [OF assms(1) runs]
    by (auto simp: desktop_inv_def isConnected_def isOpen_def client_closed_def)
  then have "\<not> isConnected ?ops (app (with_app stamp a2 ?d1))"
    "signals (app (with_app stamp a2 ?d1)) = signals (app ?d1)"
    using a2(2) by (simp_all add: with_app_def [of stamp a2])
  with step btn click show ?thesis by blast
qed

lemma quiet_desktop:
  "\<exists>d. desk_runs (table_lib []) quiet_net (demo_ssl 1) demo_config demo_disk d \<and> m_running (app d) \<and>
     m_readBuffer (m_client (app d)) = [] \<and> \<not> c_useSsl (m_client (app d))"
proof -
  let ?ops = "tcp_ops quiet_net demo_ops" and ?L = "table_lib []"
  obtain r a where a: "requestConnect ?L ?ops False ''10.0.0.2'' 5555 False False demo_app = Some (r, a)"
      "m_running a" "m_readBuffer (m_client a) = []" "\<not> c_useSsl (m_client a)"
    using quiet_run by blast
  let ?d1 = "demo_desktop\<lparr>home := (home demo_desktop)\<lparr>m_ipEntry := ''10.0.0.2'', m_portEntry := ''5555''\<rparr>\<rparr>"
  let ?d2 = "?d1\<lparr>home := (home ?d1)\<lparr>m_checks := toggle_ssl (m_checks (home ?d1))\<rparr>\<rparr>"
  have port: "port_of (home ?d2) = 5555"
    by (simp add: port_of_def stoi_def is_space_def is_digit_def read_nat_def digit_val_def fits_int_def Let_def)
  have app: "app ?d2 = demo_app" by (simp add: demo_desktop_def start_desktop_def Let_def demo_app_def)
  have checks: "m_checks (home ?d2) = \<lparr>m_sslCheck = False, m_mtlsCheck = False\<rparr>"
    by (simp add: demo_desktop_def start_desktop_def AppHome_def toggle_ssl_def demo_config_def Let_def)
  have "\<not> isConnected ?ops demo_app"
    by (simp add: isConnected_def isOpen_def demo_app_def AppController_def TcpClient_def)
  then have "onConnectClicked (app_ops ?L ?ops) False [] ?d2 = Some (with_app [] a ?d2)"
    using a(1) unfolding onConnectClicked_def app port checks by simp
  then have "desktop_step ?L ?ops ?d2 (with_app [] a ?d2)" by (rule desktop_step.connect)
  moreover have "desktop_step ?L ?ops demo_desktop ?d1" by (rule desktop_step.enter)
  moreover have "desktop_step ?L ?ops ?d1 ?d2" by (rule desktop_step.use_ssl)
  ultimately have "desk_runs ?L quiet_net (demo_ssl 1) demo_config demo_disk (with_app [] a ?d2)"
    unfolding demo_desktop_def by (meson rtranclp.rtrancl_into_rtrancl rtranclp.rtrancl_refl)
  moreover have "app (with_app [] a ?d2) = a" by (simp add: with_app_def)
  ultimately show ?thesis using a(2-4) by metis
qed

theorem connect_button_after_loss_witness:
  "\<exists>d1 d2. m_connectBtn (snd (onConnectionDispatcher (home d1))) = ''Connect'' \<and>
     onConnectClicked (app_ops (table_lib []) (tcp_ops quiet_net demo_ops)) False [] d1 = Some d2 \<and>
     \<not> isConnected (tcp_ops quiet_net demo_ops) (app d2)"
proof -
  obtain d where d: "desk_runs (table_lib []) quiet_net (demo_ssl 1) demo_config demo_disk d" "m_running (app d)"
      "m_readBuffer (m_client (app d)) = []" "\<not> c_useSsl (m_client (app d))"
    using quiet_desktop by blast
  have "\<exists>c. receiveLine quiet_net demo_ops (m_client (app d)) = Some ([], c)"
    using d(3,4) by (simp add: receiveLine_reads receive_loop_read reads_def read_some_def quiet_net_def
        split: option.split)
  then obtain c where "receiveLine quiet_net demo_ops (m_client (app d)) = Some ([], c)" by blast
  from connect_button_after_loss [OF quiet_bounded d(1,2) this] show ?thesis by blast
qed

section \<open>Inputs\<close>

definition spin_ok :: "rat \<Rightarrow> rat \<Rightarrow> spin \<Rightarrow> bool" where
  "spin_ok lo hi s \<longleftrightarrow> range_min s = lo \<and> range_max s = hi \<and> lo \<le> spin_value s \<and> spin_value s \<le> hi"

lemma set_spin_ok: "lo \<le> hi \<Longrightarrow> spin_ok lo hi s \<Longrightarrow> spin_ok lo hi (set_spin v s)"
  by (simp add: spin_ok_def set_spin_def)

lemma new_spin_ok: "lo \<le> hi \<Longrightarrow> spin_ok lo hi (new_spin lo hi v)"
  by (simp add: spin_ok_def new_spin_def set_spin_def)

lemma spin_u32:
  assumes "spin_ok (of_nat lo) (of_nat hi) s" "hi < 2 ^ 32"
  shows "int lo \<le> uint (to_u32 (spin_value s)) \<and> uint (to_u32 (spin_value s)) \<le> int hi"
proof -
  let ?f = "\<lfloor>spin_value s\<rfloor>"
  have lo: "int lo \<le> ?f" using assms(1) by (simp add: spin_ok_def le_floor_iff)
  have hi: "?f \<le> int hi" using assms(1) by (simp add: spin_ok_def) linarith
  have "int hi < 2 ^ 32" using assms(2) by (simp add: of_nat_less_iff [symmetric])
  with lo hi have "take_bit 32 ?f = ?f" by (intro take_bit_int_eq_self) linarith+
  then have "uint (to_u32 (spin_value s)) = ?f" by (simp add: to_u32_def uint_word_of_int_eq)
  with lo hi show ?thesis by simp
qed

definition widget_ok :: "int \<Rightarrow> relay_widget \<Rightarrow> bool" where
  "widget_ok i w \<longleftrightarrow> m_relayId w = i \<and> spin_ok (of_nat 1) (of_nat 3600) (m_durationSpin (m_pageTimer w)) \<and>
     spin_ok (of_nat 10) (of_nat 100000) (m_pulseSpin (m_pagePulse w)) \<and> spin_ok (of_nat 10) (of_nat 100000) (m_onSpin (m_pageBlink w)) \<and>
     spin_ok (of_nat 10) (of_nat 100000) (m_offSpin (m_pageBlink w)) \<and> spin_ok (of_nat 0) (of_nat 1000) (m_countSpin (m_pageBlink w))"

text \<open>The requests a window can make for a relay.\<close>

fun in_range :: "int \<Rightarrow> relay_request \<Rightarrow> bool" where
  "in_range i (Toggled j st) = (j = i)"
| "in_range i (Timer_started j s) = (j = i \<and> 1 \<le> uint s \<and> uint s \<le> 3600)"
| "in_range i (Pulse_triggered j d) = (j = i \<and> 10 \<le> uint d \<and> uint d \<le> 100000)"
| "in_range i (Blink_started j x y n) = (j = i \<and> 10 \<le> uint x \<and> uint x \<le> 100000 \<and>
     10 \<le> uint y \<and> uint y \<le> 100000 \<and> uint n \<le> 1000)"

fun widget_inputs :: "relay_input list \<Rightarrow> relay_widget \<Rightarrow> relay_request list \<times> relay_widget" where
  "widget_inputs [] w = ([], w)"
| "widget_inputs (inp # inps) w =
     (let (rs, w1) = widget_input inp w; (rs', w2) = widget_inputs inps w1 in (rs @ rs', w2))"

lemma RelayWidget_ok: "widget_ok i (RelayWidget i)"
  by (simp add: widget_ok_def RelayWidget_def TimerModePage_def PulseModePage_def BlinkModePage_def new_spin_ok)

lemma widget_input_ok:
  assumes "widget_ok i w" "widget_input inp w = (rs, w')"
  shows "widget_ok i w' \<and> list_all (in_range i) rs"
proof (cases inp)
  case (Flip st)
  then show ?thesis using assms
    by (auto simp: widget_ok_def onPageToggled_def list_all_iff split: prod.splits)
next
  case (Choose_mode j)
  then show ?thesis using assms by (auto simp: widget_ok_def onModeChanged_def Let_def split: if_splits)
next
  case Click_timer
  then show ?thesis using assms spin_u32 [of 1 3600 "m_durationSpin (m_pageTimer w)"]
    by (auto simp: widget_ok_def onPageTimerStarted_def timer_onStartClicked_def)
next
  case Click_pulse
  then show ?thesis using assms spin_u32 [of 10 100000 "m_pulseSpin (m_pagePulse w)"]
    by (auto simp: widget_ok_def onPagePulseTriggered_def pulse_onTriggerClicked_def)
next
  case Click_blink
  then show ?thesis
    using assms spin_u32 [of 10 100000 "m_onSpin (m_pageBlink w)"] spin_u32 [of 10 100000 "m_offSpin (m_pageBlink w)"] spin_u32 [of 0 1000 "m_countSpin (m_pageBlink w)"]
    by (auto simp: widget_ok_def onPageBlinkStarted_def blink_onStartClicked_def)
qed (use assms in \<open>auto simp: widget_ok_def set_spin_ok\<close>)

text \<open>
  C26: Whatever the user enters and clicks on the panel of a relay, in any order, every request
  is for that relay and within the documented bounds: timers of 1 to 3600 seconds, pulses and
  the phases of a blink of 10 to 100,000 ms, at most 1000 blinks.
\<close>

theorem panel_requests_in_range:
  assumes "widget_inputs inps (RelayWidget i) = (rs, w)" "r \<in> set rs"
  shows "in_range i r"
proof -
  have "list_all (in_range i) (fst (widget_inputs inps v))" if "widget_ok i v" for v
    using that
  proof (induction inps arbitrary: v)
    case (Cons inp inps)
    obtain rs1 w1 where w1: "widget_input inp v = (rs1, w1)" by (cases "widget_input inp v")
    from widget_input_ok [OF Cons.prems w1] Cons.IH [of w1] w1 show ?case
      by (simp add: case_prod_beta Let_def)
  qed simp
  from this [OF RelayWidget_ok] assms show ?thesis by (simp add: list_all_iff)
qed

theorem panel_requests_in_range_witness:
  "in_range 2 (Timer_started 2 (to_u32 (spin_value (set_spin 99999 (m_durationSpin TimerModePage)))))"
proof (rule panel_requests_in_range)
  show "widget_inputs [Set_duration 99999, Click_timer] (RelayWidget 2) =
    ([Timer_started 2 (to_u32 (spin_value (set_spin 99999 (m_durationSpin TimerModePage))))],
     (RelayWidget 2)\<lparr>m_pageTimer := \<lparr>m_durationSpin = set_spin 99999 (m_durationSpin TimerModePage)\<rparr>\<rparr>)"
    by (simp add: onPageTimerStarted_def timer_onStartClicked_def RelayWidget_def)
qed simp

section \<open>Mutual TLS needs TLS\<close>

definition tls_consistent :: "'c app_controller desktop \<Rightarrow> bool" where
  "tls_consistent d \<longleftrightarrow> (m_mtlsCheck (m_checks (home d)) \<longrightarrow> m_sslCheck (m_checks (home d))) \<and>
     (config.m_useMtls (m_config (app d)) \<longrightarrow> config.m_useSsl (m_config (app d)))"

lemma signals_checks: "m_checks (fold (on_signal stamp) xs h) = m_checks h"
proof (induction xs arbitrary: h)
  case (Cons x xs)
  then show ?case
    by (cases x) (simp_all add: postLogMessage_def onRelayStateUpdated_def onConnectionStateUpdated_def)
qed simp

lemma with_app_tls:
  "tls_consistent (with_app stamp a d) \<longleftrightarrow> (m_mtlsCheck (m_checks (home d)) \<longrightarrow> m_sslCheck (m_checks (home d))) \<and>
     (config.m_useMtls (m_config a) \<longrightarrow> config.m_useSsl (m_config a))"
  by (simp add: tls_consistent_def with_app_def signals_checks)

lemma do_requests_tls:
  assumes "tls_consistent d"
  shows "tls_consistent (do_requests (app_ops L cops) stamp rs d)"
proof -
  obtain q where "home (do_requests (app_ops L cops) stamp rs d) = (home d)\<lparr>m_logQueue := q\<rparr>"
    using control.requests_home by blast
  then show ?thesis using assms control.requests_config [of L cops stamp rs d] by (simp add: tls_consistent_def)
qed

lemma desktop_step_tls:
  assumes "desktop_step L cops d d'" "tls_consistent d"
  shows "tls_consistent d'"
proof -
  note tls = assms(2) [unfolded tls_consistent_def]
  have same: "tls_consistent (d\<lparr>home := h\<rparr>)" if "m_checks h = m_checks (home d)" for h
    using tls that by (simp add: tls_consistent_def)
  from assms(1) show ?thesis
  proof (cases rule: desktop_step.cases)
    case (connect busy stamp)
    obtain xs where "home d' = fold (on_signal stamp) xs (home d)" using control.click_home [OF connect] by blast
    with control.click_config [OF connect] tls show ?thesis by (auto simp: tls_consistent_def signals_checks)
  next
    case (use_relay k inp rs w stamp)
    show ?thesis unfolding use_relay(1) by (intro do_requests_tls same) simp
  next
    case (poll stamp)
    obtain q where "home d' = (home d)\<lparr>m_logQueue := q\<rparr>" using control.poll_home poll by blast
    with control.poll_config [of L cops stamp d] tls show ?thesis by (simp add: tls_consistent_def poll)
  next
    case (read a stamp)
    with tls show ?thesis by (simp add: with_app_tls read_body_config)
  next
    case (read_end a stamp)
    with tls show ?thesis by (simp add: with_app_tls read_body_config)
  next
    case (show_relays rs h stamp)
    have "m_checks h = m_checks (home d)"
      using show_relays(2) by (auto simp: onRelayDispatcher_def split: prod.splits)
    then show ?thesis unfolding show_relays(1) by (intro do_requests_tls same)
  next
    case (show_connection rs h stamp)
    have "m_checks h = m_checks (home d)"
      using show_connection(2) by (auto simp: onConnectionDispatcher_def split: prod.splits if_splits)
    then show ?thesis unfolding show_connection(1) by (intro do_requests_tls same)
  qed (use tls in \<open>simp_all add: tls_consistent_def onLogDispatcher_def toggle_ssl_def toggle_mtls_def Let_def\<close>)
qed

text \<open>
  C25: Mutual TLS is never on without TLS: from a start whose settings file does not say so
  itself, whatever the user clicks and the server sends, the check box mTLS is active only with
  the box SSL, what a click on Connect asks for follows them, and the settings in memory, which
  are what is saved, agree.
\<close>

theorem mtls_needs_tls:
  assumes "(desktop_step L cops)\<^sup>*\<^sup>* (on_startup L c disk) d"
    and "config.m_useMtls (fst (ConfigManager L disk)) \<Longrightarrow> config.m_useSsl (fst (ConfigManager L disk))"
  shows "(m_mtlsCheck (m_checks (home d)) \<longrightarrow> m_sslCheck (m_checks (home d))) \<and>
    (config.m_useMtls (m_config (app d)) \<longrightarrow> config.m_useSsl (m_config (app d)))"
proof -
  have "tls_consistent (on_startup L c disk)"
    using assms(2) by (simp add: tls_consistent_def on_startup_def start_desktop_def AppHome_def AppController_def case_prod_beta)
  with assms(1) have "tls_consistent d" by (induction rule: rtranclp_induct) (auto intro: desktop_step_tls)
  then show ?thesis by (simp add: tls_consistent_def)
qed

theorem mtls_needs_tls_witness:
  "\<exists>d. (desktop_step (table_lib []) (tcp_ops demo_net demo_ops))\<^sup>*\<^sup>*
      (on_startup (table_lib []) (TcpClient (Some OpenSslSession)) demo_disk) d \<and>
    m_mtlsCheck (m_checks (home d)) \<and> m_sslCheck (m_checks (home d))"
proof -
  let ?s = "on_startup (table_lib []) (TcpClient (Some OpenSslSession)) demo_disk"
  let ?d = "?s\<lparr>home := (home ?s)\<lparr>m_checks := toggle_mtls (m_checks (home ?s))\<rparr>\<rparr>"
  have plain: "\<not> config.m_useMtls (fst (ConfigManager (table_lib []) demo_disk))"
    by (simp add: ConfigManager_def demo_disk_def getConfigPath_def defaultConfigStore_def populateDefaults_def Let_def case_prod_beta)
  have run: "(desktop_step (table_lib []) (tcp_ops demo_net demo_ops))\<^sup>*\<^sup>* ?s ?d"
    by (rule r_into_rtranclp [where r = "desktop_step (table_lib []) (tcp_ops demo_net demo_ops)", OF desktop_step.use_mtls])
  have on: "m_mtlsCheck (m_checks (home ?d))"
    using plain by (simp add: toggle_mtls_def on_startup_def start_desktop_def AppHome_def AppController_def case_prod_beta Let_def)
  have "m_sslCheck (m_checks (home ?d))"
    by (rule mp [OF conjunct1 [OF mtls_needs_tls [OF run]] on]) (rule notE [OF plain])
  with run on show ?thesis by (intro exI [of _ ?d] conjI)
qed

end
