(* ===== verification/Desk_Panel.thy ===== *)
theory Desk_Panel
  imports Desk_View Desk_Daemon
begin

text \<open>
  A switch of the window and the relay behind it: the relays of the window keep their numbers
  and places, so that what the user flips is what the daemon sets and what its answer shows.
\<close>

section \<open>The panels keep their places\<close>

text \<open>
  A panel that is not just showing a state: its lamp tells the state it holds, and the page of
  its mode is the one in front.
\<close>

definition mode_page :: "int \<Rightarrow> string" where
  "mode_page i = (if i = 1 then ''timer'' else if i = 2 then ''pulse'' else if i = 3 then ''blink'' else ''toggle'')"

definition panel_ok :: "relay_widget \<Rightarrow> bool" where
  "panel_ok w \<longleftrightarrow> \<not> m_updating (m_pageToggle w) \<and> led_on w = m_active w \<and> m_stack w = mode_page (m_modeCombo w)"

definition panels_ok :: "relay_widget list \<Rightarrow> bool" where
  "panels_ok ws \<longleftrightarrow> map m_relayId ws = [1..8] \<and> list_all panel_ok ws"

lemma panels_length: "panels_ok ws \<Longrightarrow> length ws = 8"
  by (auto simp: panels_ok_def dest: arg_cong [where f = length])

lemma panels_nth:
  assumes "panels_ok ws" "k < 8"
  shows "m_relayId (ws ! k) = int k + 1" "panel_ok (ws ! k)"
proof -
  have k: "k < length ws" using assms panels_length by simp
  have "m_relayId (ws ! k) = [1..8] ! k" using assms(1) k by (simp add: panels_ok_def flip: nth_map)
  with assms(2) show "m_relayId (ws ! k) = int k + 1" by (simp add: nth_upto)
  show "panel_ok (ws ! k)" using assms(1) k by (simp add: panels_ok_def list_all_length)
qed

lemma panels_map:
  assumes "panels_ok ws" "\<And>w. m_relayId (f w) = m_relayId w"
    "\<And>w. panel_ok w \<Longrightarrow> panel_ok (f w)"
  shows "panels_ok (map f ws)"
  using assms by (simp add: panels_ok_def comp_def list_all_iff)

lemma panels_update:
  assumes "panels_ok ws" "k < length ws" "m_relayId w = m_relayId (ws ! k)" "panel_ok w"
  shows "panels_ok (ws[k := w])"
proof -
  have "map m_relayId (ws[k := w]) = map m_relayId ws"
    using assms(3) by (simp add: map_update list_update_same_conv assms(2))
  moreover have "list_all panel_ok (ws[k := w])"
    using assms(1,4) by (auto simp: panels_ok_def list_all_iff dest: set_update_subset_insert [THEN subsetD])
  ultimately show ?thesis using assms(1) by (simp add: panels_ok_def)
qed

lemma panel_shown: "panel_ok w \<Longrightarrow> panel_ok (shown st w)"
  by (simp add: panel_ok_def shown_def)

lemma panels_show:
  "panels_ok ws \<Longrightarrow> panels_ok (snd (show_states q ws))"
proof (induction q ws rule: show_states.induct)
  case (2 i st q ws)
  show ?case
  proof (cases "1 \<le> i \<and> i \<le> 8")
    case True
    then have "nat (i - 1) < 8" by (simp add: nat_less_iff)
    then have "nat (i - 1) < length ws" using panels_length [OF "2.prems"] by simp
    then have "panels_ok (ws[nat (i - 1) := shown st (ws ! nat (i - 1))])"
      using panels_nth(2) [OF "2.prems", of "nat (i - 1)"] panels_length [OF "2.prems"]
      by (intro panels_update "2.prems" panel_shown) simp_all
    with "2.IH"(1) [OF True] True show ?thesis
      by (simp add: updateState_eq case_prod_beta Let_def)
  next
    case False
    with 2 show ?thesis by auto
  qed
qed simp

lemma panels_reset: "panels_ok ws \<Longrightarrow> panels_ok (snd (reset_widgets ws))"
  unfolding reset_widgets_eq by (simp, rule panels_map) (simp_all add: panel_ok_def shown_def)

lemma panel_inputs:
  "panel_ok w \<Longrightarrow> panel_ok (w\<lparr>m_pageToggle := snd (set_switch st (m_pageToggle w))\<rparr>)"
  "panel_ok w \<Longrightarrow> panel_ok (snd (onModeChanged i w))"
  "m_relayId (snd (onModeChanged i w)) = m_relayId w"
  by (simp_all add: panel_ok_def set_switch_def onModeChanged_def mode_page_def Let_def)

lemma panel_spins [simp]:
  "panel_ok (w\<lparr>m_pageTimer := t\<rparr>) = panel_ok w" "panel_ok (w\<lparr>m_pagePulse := p\<rparr>) = panel_ok w"
  "panel_ok (w\<lparr>m_pageBlink := k\<rparr>) = panel_ok w" "panel_ok (w\<lparr>widget_sensitive := b\<rparr>) = panel_ok w"
  by (simp_all add: panel_ok_def)

lemma widget_input_panel:
  assumes "widget_input inp w = (rs, w')" "panel_ok w"
  shows "m_relayId w' = m_relayId w \<and> panel_ok w'"
proof -
  have "w' = snd (widget_input inp w)" using assms(1) by simp
  with assms(2) show ?thesis
    by (cases inp) (simp_all add: panel_inputs case_prod_beta Let_def)
qed

lemma signals_panels: "m_relayWidgets (fold (on_signal stamp) xs h) = m_relayWidgets h"
proof (induction xs arbitrary: h)
  case (Cons x xs)
  then show ?case
    by (cases x) (simp_all add: postLogMessage_def onRelayStateUpdated_def onConnectionStateUpdated_def)
qed simp

lemma with_app_panels [simp]: "m_relayWidgets (home (with_app stamp a d)) = m_relayWidgets (home d)"
  by (simp add: with_app_def signals_panels)

lemma do_requests_panels [simp]: "m_relayWidgets (home (do_requests (app_ops L cops) stamp rs d)) = m_relayWidgets (home d)"
  using control.requests_home [of L cops stamp rs d] by auto

lemma poll_panels [simp]: "m_relayWidgets (home (onPollTimeout (app_ops L cops) stamp d)) = m_relayWidgets (home d)"
  using control.poll_home [of L cops stamp d] by auto

lemma desktop_step_panels:
  assumes "desktop_step L cops d d'" "panels_ok (m_relayWidgets (home d))"
  shows "panels_ok (m_relayWidgets (home d'))"
  using assms(1)
proof (cases rule: desktop_step.cases)
  case (use_relay k inp rs w stamp)
  have "panel_ok (m_relayWidgets (home d) ! k)"
    using panels_nth(2) [OF assms(2)] panels_length [OF assms(2)] use_relay(2) by simp
  from widget_input_panel [OF use_relay(3) this] show ?thesis
    unfolding use_relay(1) by (simp add: panels_update assms(2) use_relay(2))
next
  case (connect busy stamp)
  then have "m_relayWidgets (home d') = m_relayWidgets (home d)"
    by (auto simp: onConnectClicked_def split: if_splits)
  with assms(2) show ?thesis by simp
next
  case (poll stamp)
  with assms(2) show ?thesis by simp
next
  case (show_relays rs h stamp)
  then have "m_relayWidgets h = snd (show_states (m_relayQueue (home d)) (m_relayWidgets (home d)))"
    by (auto simp: onRelayDispatcher_def split: prod.splits)
  with show_relays(1) panels_show [OF assms(2)] show ?thesis by simp
next
  case (show_connection rs h stamp)
  have "panels_ok (m_relayWidgets h)"
  proof (cases "m_connectionState (home d)")
    case True
    with show_connection(2) have "m_relayWidgets h = map (\<lambda>w. w\<lparr>widget_sensitive := True\<rparr>) (m_relayWidgets (home d))"
      by (auto simp: onConnectionDispatcher_def)
    then show ?thesis using panels_map [OF assms(2)] by (simp add: panel_ok_def)
  next
    case False
    with show_connection(2) have "m_relayWidgets h = snd (reset_widgets (m_relayWidgets (home d)))"
      by (auto simp: onConnectionDispatcher_def split: prod.splits)
    then show ?thesis using panels_reset [OF assms(2)] by simp
  qed
  then show ?thesis unfolding show_connection(1) by simp
qed (use assms(2) in \<open>simp_all add: onLogDispatcher_def\<close>)

lemma start_panels: "panels_ok (m_relayWidgets (home (start_desktop g disk c)))"
  by (simp add: panels_ok_def panel_ok_def mode_page_def start_desktop_def AppHome_def relay_grid_def RelayWidget_def list_all_iff Let_def
      upt_rec upto_rec1)

lemma run_panels:
  "(desktop_step L cops)\<^sup>*\<^sup>* (start_desktop g disk c) d \<Longrightarrow> panels_ok (m_relayWidgets (home d))"
  by (induction rule: rtranclp_induct) (auto intro: start_panels desktop_step_panels)

section \<open>From the switch to the relay and back\<close>

text \<open>What the user's flip of a switch does, when the request goes out.\<close>

lemma flip_request:
  assumes "panels_ok (m_relayWidgets (home d))" "k < 8"
    and "m_switch (m_pageToggle (m_relayWidgets (home d) ! k)) \<noteq> st"
  shows "\<exists>w. widget_input (Flip st) (m_relayWidgets (home d) ! k) = ([Toggled (int k + 1) st], w)"
  using panels_nth [OF assms(1,2)] assms(3) by (simp add: set_switch_def onStateSet_def onPageToggled_def panel_ok_def)

text \<open>What the answer shows: the state joins the queue, and the dispatcher shows the last one.\<close>

lemma last_state_snoc: "last_state i (q @ [(i, st)]) = Some st"
  by (induction i q rule: last_state.induct) simp_all

lemma answer_shown:
  assumes "panels_ok (m_relayWidgets (home d))" "k < 8"
    and "signals a = signals (app d) @ [Log l, Relay_state (int k + 1) st]"
  shows "m_active (m_relayWidgets (snd (onRelayDispatcher (home (with_app stamp a d)))) ! k) = st \<and>
    led_on (m_relayWidgets (snd (onRelayDispatcher (home (with_app stamp a d)))) ! k) = st"
proof -
  let ?h = "home (with_app stamp a d)"
  have q: "m_relayQueue ?h = m_relayQueue (home d) @ [(int k + 1, st)]"
    using assms(3) by (simp add: with_app_def postLogMessage_def onRelayStateUpdated_def)
  have "m_relayWidgets (snd (onRelayDispatcher ?h)) ! k = shown st (m_relayWidgets ?h ! k)"
    using show_states_nth [of "m_relayWidgets ?h" k "m_relayQueue ?h"] panels_length [OF assms(1)] assms(2)
    by (simp add: onRelayDispatcher_def case_prod_beta Let_def q last_state_snoc)
  then show ?thesis by simp
qed


text \<open>A window that is connected to a server that takes every byte.\<close>

definition plain_config :: config where
  "plain_config = \<lparr>m_ip = ''10.0.0.2'', m_port = 5555, m_useSsl = False, m_useMtls = False\<rparr>"

lemma open_desktop:
  assumes "dump L (- 1) (request_json 1 ''get_relays'' JNull) = Inl e"
  shows "\<exists>d. desk_runs L quiet_net (demo_ssl 1) plain_config demo_disk d \<and> m_requestId (app d) = 2 \<and>
    m_socketFd (m_client (app d)) = 3 \<and> \<not> c_useSsl (m_client (app d)) \<and> m_relayWidgets (home d) = relay_grid"
proof -
  let ?ops = "tcp_ops quiet_net demo_ops"
  let ?s = "start_desktop plain_config demo_disk (TcpClient (Some OpenSslSession))"
  obtain r a where a: "requestConnect L ?ops False ''10.0.0.2'' (port_of (home ?s)) False False (app ?s) = Some (r, a)"
      "m_requestId a = 2" "m_socketFd (m_client a) = 3" "\<not> c_useSsl (m_client a)"
    using assms
    by (simp add: requestConnect_def requestDisconnect_def join_reader_def start_desktop_def AppController_def
        TcpClient_def shutdownSocket_def client_disconnect_def client_connect_def quiet_net_def demo_net_def
        queryAllRelays_def sendJsonRpc_def isOpen_def Let_def)
  have entries: "m_ipEntry (home ?s) = ''10.0.0.2''" "m_checks (home ?s) = \<lparr>m_sslCheck = False, m_mtlsCheck = False\<rparr>"
    by (simp_all add: start_desktop_def AppHome_def plain_config_def)
  have "\<not> isConnected ?ops (app ?s)"
    by (simp add: isConnected_def isOpen_def start_desktop_def AppController_def TcpClient_def)
  then have "onConnectClicked (app_ops L ?ops) False [] ?s = Some (with_app [] a ?s)"
    using a(1) unfolding onConnectClicked_def entries by simp
  then have "desktop_step L ?ops ?s (with_app [] a ?s)" by (rule desktop_step.connect)
  then have "desk_runs L quiet_net (demo_ssl 1) plain_config demo_disk (with_app [] a ?s)" by (rule r_into_rtranclp)
  moreover have "app (with_app [] a ?s) = a" by (simp add: with_app_def)
  moreover have "m_relayWidgets (home (with_app [] a ?s)) = relay_grid"
    unfolding with_app_panels by (simp add: start_desktop_def AppHome_def)
  ultimately show ?thesis using a(2-4) by metis
qed


end
