(* ===== verification/Daemon_Requests.thy ===== *)
theory Daemon_Requests
  imports Rpc_Properties
begin

text \<open>
  The requests of many clients on one device. A request is at most one operation of the
  controller, which can be told from the request alone; so the threads of the daemon, whose
  operations the mutex of the controller keeps apart, move the device by the operations of the
  requests and the ticks of the worker, in some order.
\<close>

section \<open>Operations as data\<close>

datatype operation =
    Op_set int bool
  | Op_timer int u32
  | Op_pulse int u32
  | Op_blink int u32 u32 u32
  | Op_status int

fun run_op :: "'hw hw_ops \<Rightarrow> operation \<Rightarrow> 'hw controller \<Rightarrow> 'hw controller" where
  "run_op ops (Op_set i b) c = snd (setRelay ops i b c)"
| "run_op ops (Op_timer i s) c = snd (startTimer ops i s c)"
| "run_op ops (Op_pulse i d) c = snd (startPulse ops i d c)"
| "run_op ops (Op_blink i onMs offMs n) c = snd (startBlink ops i onMs offMs n c)"
| "run_op ops (Op_status i) c = snd (getRelayStatus i c)"

text \<open>The relay an operation may change.\<close>

fun op_target :: "operation \<Rightarrow> int option" where
  "op_target (Op_set i b) = Some i"
| "op_target (Op_timer i s) = Some i"
| "op_target (Op_pulse i d) = Some i"
| "op_target (Op_blink i onMs offMs n) = Some i"
| "op_target (Op_status i) = None"

section \<open>The operation of a request\<close>

definition param :: "(json \<Rightarrow> exn + 'a) \<Rightarrow> json \<Rightarrow> string \<Rightarrow> 'a option" where
  "param get p k = (if contains p k then (case get (field p k) of Inl _ \<Rightarrow> None | Inr x \<Rightarrow> Some x) else None)"

definition channel_param :: "json_lib \<Rightarrow> json \<Rightarrow> int option" where
  "channel_param L p = Option.bind (param (get_int L) p ''relay_id'') (\<lambda>i. if bad_channel i then None else Some i)"

definition method_operation :: "json_lib \<Rightarrow> string \<Rightarrow> json \<Rightarrow> operation option" where
  "method_operation L m p =
     Option.bind (channel_param L p) (\<lambda>i.
       if m = ''set_relay'' then map_option (Op_set i) (param (get_bool L) p ''state'')
       else if m = ''start_timer'' then map_option (Op_timer i) (param (get_u32 L) p ''seconds'')
       else if m = ''start_pulse'' then map_option (Op_pulse i) (param (get_u32 L) p ''duration_ms'')
       else if m = ''start_blink'' then
         Option.bind (param (get_u32 L) p ''on_ms'') (\<lambda>x.
         Option.bind (param (get_u32 L) p ''off_ms'') (\<lambda>y.
         map_option (Op_blink i x y) (param (get_u32 L) p ''count'')))
       else if m = ''get_relay_status'' then Some (Op_status i)
       else None)"

definition operation_of :: "json_lib \<Rightarrow> json \<Rightarrow> operation option" where
  "operation_of L req =
     (if valid_request req then
        (case get_string L (field req ''method'') of
           Inl _ \<Rightarrow> None
         | Inr m \<Rightarrow> method_operation L m (if contains req ''params'' then field req ''params'' else JObject []))
      else None)"

definition apply_op :: "'hw hw_ops \<Rightarrow> operation option \<Rightarrow> 'hw controller \<Rightarrow> 'hw controller" where
  "apply_op ops x c = (case x of None \<Rightarrow> c | Some e \<Rightarrow> run_op ops e c)"

lemma apply_op_simps [simp]: "apply_op ops None c = c" "apply_op ops (Some e) c = run_op ops e c"
  by (simp_all add: apply_op_def)

lemmas operation_defs = method_operation_def channel_param_def param_def base_device_def Let_def case_prod_beta bindE_def bindS_def

text \<open>The state each method leaves.\<close>

lemma method_state:
  "snd (rpc_set_relay L (base_device ops) p rid c) = apply_op ops (method_operation L ''set_relay'' p) c"
  "snd (rpc_start_timer L (base_device ops) p rid c) = apply_op ops (method_operation L ''start_timer'' p) c"
  "snd (rpc_start_pulse L (base_device ops) p rid c) = apply_op ops (method_operation L ''start_pulse'' p) c"
  "snd (rpc_start_blink L (base_device ops) p rid c) = apply_op ops (method_operation L ''start_blink'' p) c"
  "snd (rpc_get_relay_status L (base_device ops) p rid c) = apply_op ops (method_operation L ''get_relay_status'' p) c"
  "snd (rpc_get_relays (base_device ops) p rid c) = apply_op ops (method_operation L ''get_relays'' p) c"
proof -
  note obj = contains_is_object [of p]
  show "snd (rpc_set_relay L (base_device ops) p rid c) = apply_op ops (method_operation L ''set_relay'' p) c"
    using obj by (auto simp: rpc_set_relay_def operation_defs split: sum.split)
  show "snd (rpc_start_timer L (base_device ops) p rid c) = apply_op ops (method_operation L ''start_timer'' p) c"
    using obj by (auto simp: rpc_start_timer_def operation_defs split: sum.split)
  show "snd (rpc_start_pulse L (base_device ops) p rid c) = apply_op ops (method_operation L ''start_pulse'' p) c"
    using obj by (auto simp: rpc_start_pulse_def operation_defs split: sum.split)
  show "snd (rpc_start_blink L (base_device ops) p rid c) = apply_op ops (method_operation L ''start_blink'' p) c"
    using obj by (auto simp: rpc_start_blink_def operation_defs split: sum.split)
  show "snd (rpc_get_relay_status L (base_device ops) p rid c) = apply_op ops (method_operation L ''get_relay_status'' p) c"
    using obj by (auto simp: rpc_get_relay_status_def operation_defs split: sum.split)
  show "snd (rpc_get_relays (base_device ops) p rid c) = apply_op ops (method_operation L ''get_relays'' p) c"
    by (auto simp: rpc_get_relays_def operation_defs split: sum.split)
qed

section \<open>Requests are operations\<close>

text \<open>Neither the dispatch nor the answer of a request touches the device: its handler does.\<close>

lemma dispatch_state:
  "snd (dispatch L r m p rid s) = (case map_of (m_methods r) m of None \<Rightarrow> s | Some h \<Rightarrow> snd (h p rid s))"
  by (auto simp: dispatch_def bindS_def bindE_def Let_def split: option.split sum.split prod.split)

lemma operation_unknown:
  "map_of (m_methods (daemon_router L dev)) m = None \<Longrightarrow> method_operation L m p = None"
  by (cases "channel_param L p") (auto simp: daemon_methods method_operation_def split: if_splits)

lemma dispatch_operation:
  "snd (dispatch L (daemon_router L (base_device ops)) m p rid c) = apply_op ops (method_operation L m p) c"
proof (cases "map_of (m_methods (daemon_router L (base_device ops))) m")
  case None
  with operation_unknown [OF None] show ?thesis by (simp add: dispatch_state)
next
  case (Some h)
  then show ?thesis
    by (auto simp: dispatch_state daemon_methods method_state split: if_splits)
qed

lemma catch_state:
  "snd (case x of (Inr res, s) \<Rightarrow> (Inr res, s) | (Inl e, s) \<Rightarrow> (Inr (f e), s)) = snd x"
  by (cases x) (auto split: sum.split)

lemma single_operation:
  "snd (processSingleRequest L (daemon_router L (base_device ops)) req c) = apply_op ops (operation_of L req) c"
  by (simp add: processSingleRequest_def operation_of_def Let_def bindE_def catch_state dispatch_operation
      split: sum.split)

text \<open>
  A line is one request, or a batch, which is cut short at the first request that throws out of
  processSingleRequest.
\<close>

definition escapes :: "json_lib \<Rightarrow> json \<Rightarrow> bool" where
  "escapes L q \<longleftrightarrow> valid_request q \<and> isl (get_string L (field q ''method''))"

fun batch_operations :: "json_lib \<Rightarrow> json list \<Rightarrow> operation list" where
  "batch_operations L [] = []"
| "batch_operations L (q # qs) =
     (case operation_of L q of None \<Rightarrow> [] | Some e \<Rightarrow> [e]) @ (if escapes L q then [] else batch_operations L qs)"

definition line_operations :: "json_lib \<Rightarrow> string \<Rightarrow> operation list" where
  "line_operations L raw =
     (case parse L raw of
        Inl _ \<Rightarrow> []
      | Inr root \<Rightarrow> batch_operations L (if is_array root then elements root else [root]))"

lemma escapes_iff: "isl (fst (processSingleRequest L r q s)) \<longleftrightarrow> escapes L q"
  by (auto simp: escapes_def processSingleRequest_def Let_def bindE_def split: sum.split prod.split)

lemma escapes_nothing: "escapes L q \<Longrightarrow> operation_of L q = None"
  by (auto simp: escapes_def operation_of_def split: sum.split)

lemma run_option: "fold (run_op ops) (case x of None \<Rightarrow> [] | Some e \<Rightarrow> [e]) c = apply_op ops x c"
  by (cases x) simp_all

lemma batch_state:
  "snd (processBatch L (daemon_router L (base_device ops)) qs acc c) = fold (run_op ops) (batch_operations L qs) c"
proof (induction qs arbitrary: acc c)
  case (Cons q qs)
  let ?p = "processSingleRequest L (daemon_router L (base_device ops)) q c"
  have p: "snd ?p = fold (run_op ops) (case operation_of L q of None \<Rightarrow> [] | Some e \<Rightarrow> [e]) c"
    by (simp add: run_option single_operation)
  show ?case
  proof (cases "fst ?p")
    case (Inl e)
    then have "escapes L q" using escapes_iff [of L _ q c] by (metis isl_def)
    with Inl p show ?thesis by (simp add: bindS_def)
  next
    case (Inr res)
    then have "\<not> escapes L q" using escapes_iff [of L _ q c] by (metis sum.disc(2))
    with Inr p show ?thesis by (simp add: bindS_def Cons.IH)
  qed
qed simp

lemma array_not_object: "is_array j \<Longrightarrow> \<not> is_object j"
  by (cases j) simp_all

lemma request_state:
  "snd (processRequest L (daemon_router L (base_device ops)) raw c) = fold (run_op ops) (line_operations L raw) c"
proof (cases "parse L raw")
  case (Inl e)
  then show ?thesis
    by (cases e) (simp_all add: processRequest_def line_operations_def dump_line_state)
next
  case (Inr root)
  show ?thesis
  proof (cases "is_array root")
    case True
    with Inr show ?thesis
      by (simp add: processRequest_def line_operations_def bindS_def bindE_def dump_line_state
          batch_state split: sum.split)
  next
    case False
    with Inr show ?thesis
      by (simp add: processRequest_def line_operations_def bindS_def bindE_def dump_line_state
          single_operation run_option escapes_def split: sum.split)
  qed
qed

text \<open>
  C7: Whatever a client sends in a line, what it does to the device can be told from the line
  alone: the controller goes through the operations of the valid requests in it, in their order,
  up to the first request that makes processSingleRequest throw. Nothing else in the line, and
  nothing the other clients have done, has a part in which operations these are.
\<close>

theorem requests_are_operations:
  "snd (processRequest L (daemon_router L (base_device ops)) raw c) = fold (run_op ops) (line_operations L raw) c"
  by (rule request_state)

section \<open>Requests and ticks in any order\<close>

datatype action = A_line string | A_tick

fun act :: "json_lib \<Rightarrow> 'hw hw_ops \<Rightarrow> action \<Rightarrow> 'hw controller \<Rightarrow> 'hw controller" where
  "act L ops (A_line raw) c = snd (processRequest L (daemon_router L (base_device ops)) raw c)"
| "act L ops A_tick c = tick ops c"

abbreviation run_actions :: "json_lib \<Rightarrow> 'hw hw_ops \<Rightarrow> action list \<Rightarrow> 'hw controller \<Rightarrow> 'hw controller" where
  "run_actions L ops \<equiv> fold (act L ops)"

text \<open>The readings of the clock at the ticks of a run.\<close>

fun tick_times :: "json_lib \<Rightarrow> 'hw hw_ops \<Rightarrow> action list \<Rightarrow> 'hw controller \<Rightarrow> int list" where
  "tick_times L ops [] c = []"
| "tick_times L ops (a # as) c =
     (if a = A_tick then [clock c (clock_reads c)] else []) @ tick_times L ops as (act L ops a c)"

text \<open>The relays a client may change with a line.\<close>

definition line_targets :: "json_lib \<Rightarrow> string \<Rightarrow> int set" where
  "line_targets L raw = {i. Some i \<in> op_target ` set (line_operations L raw)}"

lemma status_fields:
  "clock (snd (getRelayStatus i c)) = clock c" "m_relayStates (snd (getRelayStatus i c)) = m_relayStates c"
  "clock_reads c \<le> clock_reads (snd (getRelayStatus i c))"
  using getRelayStatus_state [of i c] by (auto simp: relay_simps)

lemma run_op_fields:
  "clock (run_op ops e c) = clock c \<and> clock_reads c \<le> clock_reads (run_op ops e c) \<and>
   (op_target e \<noteq> Some i \<longrightarrow> relay (run_op ops e c) i = relay c i)"
proof (cases e)
  case (Op_status j)
  then show ?thesis by (simp add: status_fields)
next
  case (Op_set j b)
  then show ?thesis
    by (cases "1 \<le> j \<and> j \<le> 8") (simp_all add: op_commit op_invalid relay_simps map_simps)
next
  case (Op_timer j s)
  then show ?thesis
    by (cases "1 \<le> j \<and> j \<le> 8") (simp_all add: op_commit op_invalid relay_simps map_simps)
next
  case (Op_pulse j d)
  then show ?thesis
    by (cases "1 \<le> j \<and> j \<le> 8") (simp_all add: op_commit op_invalid relay_simps map_simps)
next
  case (Op_blink j onMs offMs n)
  then show ?thesis
    by (cases "1 \<le> j \<and> j \<le> 8") (simp_all add: op_commit op_invalid relay_simps map_simps)
qed

lemma ctrl_inv_run_op: "ctrl_inv c \<Longrightarrow> ctrl_inv (run_op ops e c)"
  by (cases e) (simp_all add: ctrl_inv_ops)

lemma run_ops_fields:
  assumes "ctrl_inv c"
  shows "ctrl_inv (fold (run_op ops) es c) \<and> clock (fold (run_op ops) es c) = clock c \<and>
    clock_reads c \<le> clock_reads (fold (run_op ops) es c) \<and>
    (Some i \<notin> op_target ` set es \<longrightarrow> relay (fold (run_op ops) es c) i = relay c i)"
  using assms
proof (induction es arbitrary: c)
  case (Cons e es)
  from Cons.IH [OF ctrl_inv_run_op [OF Cons.prems, of ops e]] run_op_fields [of ops e c i]
  show ?case by auto
qed simp

lemma act_fields:
  assumes "ctrl_inv c"
  shows "ctrl_inv (act L ops a c)" "clock (act L ops a c) = clock c" "clock_reads c \<le> clock_reads (act L ops a c)"
    and "(\<And>raw. a = A_line raw \<Longrightarrow> i \<notin> line_targets L raw) \<Longrightarrow> relay (act L ops a c) i =
      map_option (if a = A_tick then rs_tick (clock c (clock_reads c)) else (\<lambda>rs. rs)) (relay c i)"
proof -
  have k: "map fst (m_relayStates c) = [1..8]" using assms by (simp add: ctrl_inv_def)
  show "ctrl_inv (act L ops a c)" "clock (act L ops a c) = clock c" "clock_reads c \<le> clock_reads (act L ops a c)"
    using run_ops_fields [OF assms, of ops] tick_fields [OF k, of ops] ctrl_inv_tick [OF assms, of ops]
    by (cases a; simp add: request_state)+
  show "relay (act L ops a c) i =
      map_option (if a = A_tick then rs_tick (clock c (clock_reads c)) else (\<lambda>rs. rs)) (relay c i)"
    if "\<And>raw. a = A_line raw \<Longrightarrow> i \<notin> line_targets L raw"
    using that run_ops_fields [OF assms, where ops = ops and i = i] tick_fields [OF k, of ops]
    by (cases a) (simp_all add: request_state line_targets_def option.map_ident)
qed

lemma channel_run:
  assumes "ctrl_inv c" "\<And>raw. A_line raw \<in> set as \<Longrightarrow> i \<notin> line_targets L raw"
  shows "relay (run_actions L ops as c) i = map_option (fold rs_tick (tick_times L ops as c)) (relay c i)"
  using assms
proof (induction as arbitrary: c)
  case Nil
  then show ?case by (simp add: option.map_ident)
next
  case (Cons a as)
  have "relay (act L ops a c) i =
      map_option (if a = A_tick then rs_tick (clock c (clock_reads c)) else (\<lambda>rs. rs)) (relay c i)"
    by (rule act_fields(4) [OF Cons.prems(1)]) (simp add: Cons.prems(2))
  with Cons.IH [OF act_fields(1) [OF Cons.prems(1)], of L ops a] Cons.prems(2)
  show ?case by (auto simp: option.map_comp o_def)
qed

lemma tick_times_bounds:
  assumes "ctrl_inv c" "t \<in> set (tick_times L ops as c)"
  shows "clock c (clock_reads c) \<le> t \<and> t < 2 ^ 63"
  using assms
proof (induction as arbitrary: c)
  case (Cons a as)
  note f = act_fields(1-3) [OF Cons.prems(1), of L ops a]
  have mono: "clock c (clock_reads c) \<le> clock c (clock_reads (act L ops a c))"
    by (rule clock_mono [OF Cons.prems(1) f(3)])
  have here: "clock c n < 2 ^ 63" for n
    using Cons.prems(1) by (simp add: ctrl_inv_def clock_ok_def)
  show ?case
    using Cons.prems(2) Cons.IH [OF f(1)] f(2) mono here by (auto split: if_splits)
qed simp

text \<open>A timer or a pulse under any readings of the clock not before its start.\<close>

lemma timed_fold:
  assumes "m = TIMER \<or> m = PULSE" "mode rs = m" "active rs" "0 \<le> startTime rs"
    and "\<And>t. t \<in> set ts \<Longrightarrow> startTime rs \<le> t \<and> t < 2 ^ 63"
  shows "fold rs_tick ts rs =
    (if \<forall>t \<in> set ts. elapsed_ms t (startTime rs) < uint (durationMs rs) then rs else rs_toggle False rs)"
  using assms(5)
proof (induction ts)
  case (Cons t ts)
  have t: "startTime rs \<le> t" "t < 2 ^ 63" using Cons.prems [of t] by simp_all
  then have "0 \<le> elapsed_ms t (startTime rs)" "elapsed_ms t (startTime rs) < 2 ^ 64"
    using assms(4) by (simp_all add: elapsed_ms_nonneg pos_imp_zdiv_nonneg_iff)
  then have due: "rs_due t rs \<longleftrightarrow> \<not> elapsed_ms t (startTime rs) < uint (durationMs rs)"
    using assms(1,2) due_u64 [of "elapsed_ms t (startTime rs)" "durationMs rs"] by (auto simp: rs_due_def)
  have "rs_tick t rs = (if rs_due t rs then rs_toggle False rs else rs)"
    using assms(1-3) by (auto simp: rs_tick_def rs_fire_def)
  moreover have "fold rs_tick ts (rs_toggle False rs) = rs_toggle False rs"
    by (induction ts) (simp_all add: rs_tick_def rs_toggle_def)
  ultimately show ?case using Cons due by simp
qed simp

lemma timed_among_others:
  assumes "ctrl_inv c" "1 \<le> i" "i \<le> 8" "m = TIMER \<or> m = PULSE"
    and "\<And>raw. A_line raw \<in> set as \<Longrightarrow> i \<notin> line_targets L raw"
    and c': "c' = commit ops i (rs_timed m (clock c (clock_reads c)) dur rs0) (snd (steady_now c))"
  shows "\<exists>rs. relay (run_actions L ops as c') i = Some rs \<and>
    (if \<forall>t \<in> set (tick_times L ops as c'). elapsed_ms t (clock c (clock_reads c)) < uint dur
     then mode rs = m \<and> active rs \<and> state rs else mode rs = TOGGLE \<and> \<not> active rs \<and> \<not> state rs)"
proof -
  let ?rs = "rs_timed m (clock c (clock_reads c)) dur rs0"
  have f: "startTime ?rs = clock c (clock_reads c)" "durationMs ?rs = dur" "mode ?rs = m" "active ?rs" "state ?rs"
    by (simp_all add: rs_timed_def)
  have inv: "ctrl_inv c'" unfolding c'
    by (rule ctrl_inv_start [OF assms(1-3)]) (use assms(4) f in simp_all)
  have "clock c' (clock_reads c') = clock c (Suc (clock_reads c))"
    by (simp add: c' relay_simps)
  moreover have "clock c (clock_reads c) \<le> clock c (Suc (clock_reads c))" by (rule clock_mono [OF assms(1)]) simp
  ultimately have times: "startTime ?rs \<le> t \<and> t < 2 ^ 63" if "t \<in> set (tick_times L ops as c')" for t
    using tick_times_bounds [OF inv that] f(1) by simp
  have pos: "0 \<le> startTime ?rs" using assms(1) f(1) by (simp add: ctrl_inv_def clock_ok_def)
  have "relay c' i = Some ?rs" by (simp add: c' relay_simps map_simps)
  with channel_run [OF inv assms(5), where ops = ops]
  have "relay (run_actions L ops as c') i = Some (fold rs_tick (tick_times L ops as c') ?rs)" by simp
  with timed_fold [OF assms(4) f(3,4) pos times] f show ?thesis
    by (simp add: rs_toggle_def)
qed

text \<open>
  C3: A timer or a pulse is not disturbed by other clients. After it has been started, let
  the worker tick and clients send lines in any order and number, none of them with an
  operation for its relay: the relay is on until the first tick that reads its duration or more,
  and off and idle after that. Commands for the other relays, queries, garbage and requests that
  fail do not prolong it, shorten it or switch it.
\<close>

theorem timer_survives_other_clients:
  assumes "ctrl_reachable ops h c" "1 \<le> i" "i \<le> 8"
    and "\<And>raw. A_line raw \<in> set as \<Longrightarrow> i \<notin> line_targets L raw"
  shows "(\<exists>rs. relay (run_actions L ops as (snd (startTimer ops i s c))) i = Some rs \<and>
      (if \<forall>t \<in> set (tick_times L ops as (snd (startTimer ops i s c))).
          elapsed_ms t (clock c (clock_reads c)) < 1000 * uint s
       then mode rs = TIMER \<and> active rs \<and> state rs
       else mode rs = TOGGLE \<and> \<not> active rs \<and> \<not> state rs)) \<and>
    (\<exists>rs. relay (run_actions L ops as (snd (startPulse ops i d c))) i = Some rs \<and>
      (if \<forall>t \<in> set (tick_times L ops as (snd (startPulse ops i d c))).
          elapsed_ms t (clock c (clock_reads c)) < uint d
       then mode rs = PULSE \<and> active rs \<and> state rs
       else mode rs = TOGGLE \<and> \<not> active rs \<and> \<not> state rs))"
proof -
  let ?rs0 = "om_ref RelayState (m_relayStates c) i"
  note inv = ctrl_inv_reachable [OF assms(1)]
  have ops: "snd (startTimer ops i s c) = commit ops i (rs_timed TIMER (clock c (clock_reads c)) (ucast s * 1000) ?rs0) (snd (steady_now c))"
    "snd (startPulse ops i d c) = commit ops i (rs_timed PULSE (clock c (clock_reads c)) (ucast d) ?rs0) (snd (steady_now c))"
    using assms(2,3) by (simp_all add: op_commit)
  show ?thesis
    using timed_among_others [OF inv assms(2,3) _ assms(4) ops(1)]
      timed_among_others [OF inv assms(2,3) _ assms(4) ops(2)]
    unfolding uint_seconds uint_duration mult.commute [of "uint s"] by blast
qed

text \<open>
  A blink under any readings: the phases of the first \<open>2 n\<close> ticks, \<open>n\<close> the count, and rest
  after them.
\<close>

lemma run_times:
  assumes "n \<le> length ts"
  shows "rs_run ((!) ts) 0 n rs = fold rs_tick (take n ts) rs"
proof -
  have "map ((!) ts) [0..<n] = take n ts" using assms by (intro nth_equalityI) simp_all
  then show ?thesis by (simp add: rs_run_def)
qed

lemma idle_fold: "\<not> active rs \<Longrightarrow> fold rs_tick ts rs = rs"
  by (induction ts) (simp_all add: rs_tick_def)

lemma blink_fold:
  assumes "blinking rs" "blinkPhase rs" "state rs" "blinkCount rs \<noteq> 0" "N = 2 * unat (blinkCount rs)"
    and "prompt ((!) ts) 0 (startTime rs) (blinkOnMs rs) (blinkOffMs rs) (min (length ts) N)"
  shows "blink_at ((!) ts) 0 rs (min (length ts) N) (fold rs_tick ts rs)"
proof -
  let ?n = "min (length ts) N"
  have run: "blink_at ((!) ts) 0 rs ?n (fold rs_tick (take ?n ts) rs)"
    using blink_run [OF assms(1-4,6)] assms(5) by (simp add: run_times)
  have all: "fold rs_tick ts rs = fold rs_tick (drop ?n ts) (fold rs_tick (take ?n ts) rs)"
    by (metis append_take_drop_id fold_append o_apply)
  show ?thesis
  proof (cases "length ts \<le> N")
    case True
    with run show ?thesis by (simp add: min_absorb1)
  next
    case False
    then have "\<not> active (fold rs_tick (take ?n ts) rs)" using run assms(5) by (simp add: blink_at_def)
    with all run show ?thesis by (simp add: idle_fold)
  qed
qed

lemma endless_fold:
  "blinking rs \<and> blinkCount rs = 0 \<Longrightarrow> blinking (fold rs_tick ts rs) \<and> blinkCount (fold rs_tick ts rs) = 0"
  by (induction ts arbitrary: rs) (simp_all add: blink_forever_tick)


lemma switch_operation: "operation_of (table_lib tab) (set_relay_call 2 True) = Some (Op_set 2 True)"
  by (simp add: operation_of_def set_relay_call_def call_fields method_operation_def channel_param_def param_def
      jobj_def table_lib_def bad_channel_def)

lemma demo_lines:
  "line_operations (table_lib [(''q'', set_relay_call 2 True)]) ''q'' = [Op_set 2 True]"
  "line_operations (table_lib [(''q'', set_relay_call 2 True)]) ''?'' = []"
proof -
  let ?L = "table_lib [(''q'', set_relay_call 2 True)]"
  have "\<not> is_array (set_relay_call 2 True)"
    using call_fields(1) array_not_object by (auto simp: valid_request_def set_relay_call_def)
  moreover have "parse ?L ''q'' = Inr (set_relay_call 2 True)" "parse ?L ''?'' = Inl (Parse_error ''syntax error'')"
    by (simp_all add: table_lib_def)
  ultimately show "line_operations ?L ''q'' = [Op_set 2 True]" "line_operations ?L ''?'' = []"
    by (simp_all add: line_operations_def switch_operation)
qed

theorem timer_survives_other_clients_witness:
  "\<exists>rs. relay (run_actions (table_lib [(''q'', set_relay_call 2 True)]) sil_ops [A_line ''q'', A_line ''?'', A_tick]
     (snd (startTimer sil_ops 1 1 demo))) 1 = Some rs \<and> mode rs = TIMER \<and> active rs \<and> state rs"
proof -
  let ?L = "table_lib [(''q'', set_relay_call 2 True)]"
  have "1 \<notin> line_targets ?L raw" if "A_line raw \<in> set [A_line ''q'', A_line ''?'', A_tick]" for raw
    using that demo_lines by (auto simp: line_targets_def)
  from conjunct1 [OF timer_survives_other_clients [OF demo_reachable _ _ this, where s = 1 and as = "[A_line ''q'', A_line ''?'', A_tick]"]]
  show ?thesis
    by (simp add: request_state demo_lines op_commit relay_simps demo_fields demo_clock_def elapsed_ms_def)
qed


end
