(* ===== verification/Relay_Spec.thy ===== *)
theory Relay_Spec
  imports Daemon_Requests
begin

text \<open>
  What the relay board promises, without words, flags or modes: each relay is steady, counts
  down, or flashes, on integers and with an optional count. The controller of the code refines
  it, whatever lines clients send and whenever the worker ticks.
\<close>

section \<open>The abstract board\<close>

text \<open>
  \<open>Counting t d\<close> is on since \<open>t\<close> for \<open>d\<close> milliseconds. \<open>Flashing on off left lit t\<close> has been lit or
  dark since \<open>t\<close>, with \<open>left\<close> pulses to go counting the one under way, or without end.
\<close>

datatype spec_relay =
    Steady bool
  | Counting int int
  | Flashing int int "nat option" bool int

definition ms_since :: "int \<Rightarrow> int \<Rightarrow> int" where
  "ms_since t now = (now - t) div 1000000"

fun spec_lit :: "spec_relay \<Rightarrow> bool" where
  "spec_lit (Steady b) = b"
| "spec_lit (Counting t d) = True"
| "spec_lit (Flashing on off left lit t) = lit"

fun spec_tick :: "int \<Rightarrow> spec_relay \<Rightarrow> spec_relay" where
  "spec_tick now (Steady b) = Steady b"
| "spec_tick now (Counting t d) = (if d \<le> ms_since t now then Steady False else Counting t d)"
| "spec_tick now (Flashing on off left True t) =
     (if on \<le> ms_since t now then Flashing on off left False now else Flashing on off left True t)"
| "spec_tick now (Flashing on off left False t) =
     (if off \<le> ms_since t now
      then (case left of
              None \<Rightarrow> Flashing on off None True now
            | Some n \<Rightarrow> if n = 1 then Steady False else Flashing on off (Some (n - 1)) True now)
      else Flashing on off left False t)"

fun spec_start :: "int \<Rightarrow> operation \<Rightarrow> spec_relay \<Rightarrow> spec_relay" where
  "spec_start now (Op_set i b) r = Steady b"
| "spec_start now (Op_timer i s) r = Counting now (1000 * uint s)"
| "spec_start now (Op_pulse i d) r = Counting now (uint d)"
| "spec_start now (Op_blink i onMs offMs n) r =
     Flashing (uint onMs) (uint offMs) (if n = 0 then None else Some (unat n)) True now"
| "spec_start now (Op_status i) r = r"

type_synonym spec_board = "int \<Rightarrow> spec_relay"

text \<open>An event of the board: a tick, or an operation, at a reading of the clock.\<close>

fun spec_step :: "int \<times> operation option \<Rightarrow> spec_board \<Rightarrow> spec_board" where
  "spec_step (now, None) S = (\<lambda>j. spec_tick now (S j))"
| "spec_step (now, Some e) S =
     (\<lambda>j. if op_target e = Some j \<and> 1 \<le> j \<and> j \<le> 8 then spec_start now e (S j) else S j)"

section \<open>The abstraction\<close>

definition abs_relay :: "relay_state \<Rightarrow> spec_relay" where
  "abs_relay rs =
     (case mode rs of
        TOGGLE \<Rightarrow> Steady (state rs)
      | BLINK \<Rightarrow> Flashing (uint (blinkOnMs rs)) (uint (blinkOffMs rs))
          (if blinkCount rs = 0 then None else Some (unat (blinkCount rs))) (blinkPhase rs) (startTime rs)
      | _ \<Rightarrow> Counting (startTime rs) (uint (durationMs rs)))"

definition board :: "'hw controller \<Rightarrow> spec_board" where
  "board c = (\<lambda>j. abs_relay (om_ref RelayState (m_relayStates c) j))"

lemma spec_lit_abs: "relay_inv rs \<Longrightarrow> spec_lit (abs_relay rs) = state rs"
  by (cases "mode rs") (auto simp: abs_relay_def relay_inv_def)

text \<open>Within 49 days of the clock the 32-bit comparison of a blink is the one on integers.\<close>

lemma abs_tick:
  assumes inv: "relay_inv rs" and now: "0 \<le> startTime rs" "startTime rs \<le> now" "now < 2 ^ 32 * 1000000"
  shows "abs_relay (rs_tick now rs) = spec_tick now (abs_relay rs)"
proof -
  let ?e = "ms_since (startTime rs) now"
  have e: "elapsed_ms now (startTime rs) = ?e" using now by (simp add: elapsed_ms_nonneg ms_since_def)
  have "?e < 2 ^ 32" unfolding ms_since_def using now by simp
  moreover have "0 \<le> ?e" using now by (simp add: ms_since_def pos_imp_zdiv_nonneg_iff)
  ultimately have due: "word_of_int ?e \<ge> (d::u64) \<longleftrightarrow> uint d \<le> ?e" "word_of_int ?e \<ge> (w::u32) \<longleftrightarrow> uint w \<le> ?e" for d w
    by (simp_all add: due_u64 due_u32)
  have pred: "unat (blinkCount rs - 1) = unat (blinkCount rs) - 1" if "blinkCount rs \<noteq> 0"
    using that by (rule unat_minus_one)
  have one: "unat (blinkCount rs) = 1 \<longleftrightarrow> blinkCount rs = 1" by (simp add: word_unat_eq_iff)
  show ?thesis
  proof (cases "mode rs")
    case BLINK
    then have a: "active rs" "state rs = blinkPhase rs" using inv by (simp_all add: relay_inv_def)
    show ?thesis
      using BLINK a pred one
      by (cases "blinkPhase rs") (auto simp: rs_tick_def rs_due_def rs_fire_def abs_relay_def e due Let_def)
  qed (use inv in \<open>auto simp: rs_tick_def rs_due_def rs_fire_def abs_relay_def e due Let_def relay_inv_def rs_toggle_def\<close>)
qed

lemma abs_fresh: "abs_relay RelayState = Steady False"
  by (simp add: abs_relay_def RelayState_def)

lemma abs_start:
  "abs_relay (rs_toggle b rs) = Steady b"
  "abs_relay (rs_timed TIMER now (ucast s * 1000) rs) = Counting now (1000 * uint (s::u32))"
  "abs_relay (rs_timed PULSE now (ucast d) rs) = Counting now (uint (d::u32))"
  "abs_relay (rs_blink now onMs offMs n rs) =
     Flashing (uint onMs) (uint offMs) (if n = 0 then None else Some (unat n)) True now"
  by (simp_all add: abs_relay_def rs_toggle_def rs_timed_def rs_blink_def uint_seconds uint_duration)

section \<open>Refinement\<close>

text \<open>Start times are readings of the clock, or the zero of a fresh record.\<close>

definition starts_ok :: "'hw controller \<Rightarrow> bool" where
  "starts_ok c \<longleftrightarrow> ctrl_inv c \<and> (\<forall>i rs. relay c i = Some rs \<longrightarrow> 0 \<le> startTime rs)"

lemma om_ref_relay: "om_ref RelayState (m_relayStates c) j = (case relay c j of None \<Rightarrow> RelayState | Some rs \<Rightarrow> rs)"
  by (simp add: om_ref_def)

lemma board_run_op:
  assumes "ctrl_inv c"
  shows "board (run_op ops e c) = spec_step (clock c (clock_reads c), Some e) (board c)"
proof -
  have "board (run_op ops e c) j = spec_step (clock c (clock_reads c), Some e) (board c) j" for j
  proof (cases e)
    case (Op_status i)
    then show ?thesis by (simp add: board_def status_fields)
  next
    case (Op_set i b)
    then show ?thesis
      by (cases "1 \<le> i \<and> i \<le> 8") (auto simp: board_def op_commit op_invalid relay_simps map_simps om_ref_relay abs_start)
  next
    case (Op_timer i s)
    then show ?thesis
      by (cases "1 \<le> i \<and> i \<le> 8") (auto simp: board_def op_commit op_invalid relay_simps map_simps om_ref_relay abs_start)
  next
    case (Op_pulse i d)
    then show ?thesis
      by (cases "1 \<le> i \<and> i \<le> 8") (auto simp: board_def op_commit op_invalid relay_simps map_simps om_ref_relay abs_start)
  next
    case (Op_blink i onMs offMs n)
    then show ?thesis
      by (cases "1 \<le> i \<and> i \<le> 8") (auto simp: board_def op_commit op_invalid relay_simps map_simps om_ref_relay abs_start)
  qed
  then show ?thesis by (rule ext)
qed

lemma board_tick:
  assumes "starts_ok c" "\<And>n. clock c n < 2 ^ 32 * 1000000"
  shows "board (tick ops c) = spec_step (clock c (clock_reads c), None) (board c)"
proof
  fix j
  have k: "map fst (m_relayStates c) = [1..8]" using assms(1) by (simp add: starts_ok_def ctrl_inv_def)
  note tick = tick_fields(2) [OF k, of ops j]
  show "board (tick ops c) j = spec_step (clock c (clock_reads c), None) (board c) j"
  proof (cases "relay c j")
    case None
    with tick show ?thesis by (simp add: board_def om_ref_relay abs_fresh)
  next
    case (Some rs)
    then have "relay_inv rs" "startTime rs \<le> clock c (clock_reads c)" "0 \<le> startTime rs"
      using assms(1) by (auto simp: starts_ok_def ctrl_inv_def)
    with Some tick assms(2) show ?thesis by (simp add: board_def om_ref_relay abs_tick)
  qed
qed

lemma starts_commit:
  "(\<forall>j rs'. relay c j = Some rs' \<longrightarrow> 0 \<le> startTime rs') \<Longrightarrow> 0 \<le> startTime rs \<Longrightarrow>
   relay (commit ops i rs c) j = Some rs' \<Longrightarrow> 0 \<le> startTime rs'"
  by (auto simp: relay_simps map_simps split: if_splits)

lemma startTime_fresh: "startTime RelayState = 0"
  by (simp add: RelayState_def)

lemma starts_ok_run_op:
  assumes "starts_ok c"
  shows "starts_ok (run_op ops e c)"
proof -
  have old: "\<forall>j rs. relay c j = Some rs \<longrightarrow> 0 \<le> startTime rs" and inv: "ctrl_inv c"
    using assms by (simp_all add: starts_ok_def)
  have now: "0 \<le> clock c n" for n using inv by (simp add: ctrl_inv_def clock_ok_def)
  have ref: "0 \<le> startTime (om_ref RelayState (m_relayStates c) i)" for i
    using old by (cases "relay c i") (simp_all add: om_ref_relay startTime_fresh)
  have steady: "\<forall>j rs. relay (snd (steady_now c)) j = Some rs \<longrightarrow> 0 \<le> startTime rs"
    using old by (simp add: relay_simps)
  have new: "0 \<le> startTime (rs_toggle b (om_ref RelayState (m_relayStates c) i))"
    "0 \<le> startTime (rs_timed m (clock c (clock_reads c)) d rs)"
    "0 \<le> startTime (rs_blink (clock c (clock_reads c)) onMs offMs n rs)" for b i m d onMs offMs n rs
    by (simp_all add: rs_toggle_def rs_timed_def rs_blink_def ref now)
  note keeps = starts_commit [OF old new(1)] starts_commit [OF steady new(2)] starts_commit [OF steady new(3)]
  have "0 \<le> startTime rs" if r: "relay (run_op ops e c) j = Some rs" for j rs
  proof (cases e)
    case (Op_status i)
    with r old show ?thesis by (simp add: status_fields)
  next
    case (Op_set i b)
    with r old keeps(1) show ?thesis
      by (cases "1 \<le> i \<and> i \<le> 8") (auto simp: op_commit op_invalid)
  next
    case (Op_timer i s)
    with r old keeps(2) show ?thesis
      by (cases "1 \<le> i \<and> i \<le> 8") (auto simp: op_commit op_invalid)
  next
    case (Op_pulse i d)
    with r old keeps(2) show ?thesis
      by (cases "1 \<le> i \<and> i \<le> 8") (auto simp: op_commit op_invalid)
  next
    case (Op_blink i onMs offMs n)
    with r old keeps(3) show ?thesis
      by (cases "1 \<le> i \<and> i \<le> 8") (auto simp: op_commit op_invalid)
  qed
  then show ?thesis using ctrl_inv_run_op [OF inv] by (simp add: starts_ok_def)
qed

lemma starts_ok_tick:
  assumes "starts_ok c"
  shows "starts_ok (tick ops c)"
proof -
  have inv: "ctrl_inv c" and k: "map fst (m_relayStates c) = [1..8]"
    using assms by (simp_all add: starts_ok_def ctrl_inv_def)
  have now: "0 \<le> clock c n" for n using inv by (simp add: ctrl_inv_def clock_ok_def)
  have "0 \<le> startTime (rs_tick (clock c n) rs)" if "0 \<le> startTime rs" for n rs
    using that now by (simp add: rs_tick_def rs_fire_def rs_toggle_def)
  then show ?thesis
    using assms ctrl_inv_tick [OF inv, of ops] tick_fields(2) [OF k, of ops] by (auto simp: starts_ok_def)
qed

lemma starts_ok_step: "ctrl_step ops c c' \<Longrightarrow> starts_ok c \<Longrightarrow> starts_ok c'"
proof (induction rule: ctrl_step.induct)
  case (step_destroy c)
  then show ?case by (simp add: destroyController_def starts_ok_def ctrl_inv_def Let_def)
qed (use starts_ok_run_op [of _ ops] starts_ok_tick in \<open>metis run_op.simps\<close>)+

lemma starts_ok_reachable: "ctrl_reachable ops h c \<Longrightarrow> starts_ok c"
proof (induction rule: ctrl_reachable.induct)
  case (reach_init clk c)
  have "\<forall>i rs. relay (BaseRelayController h clk) i = Some rs \<longrightarrow> 0 \<le> startTime rs"
    by (simp add: relay_initial RelayState_def)
  with reach_init ctrl_inv_init [OF ctrl_inv_init_state, of clk ops h] show ?case
    by (auto simp: starts_ok_def elim!: init_True)
next
  case (reach_step c c')
  then show ?case by (blast intro: starts_ok_step)
qed

text \<open>
  The events of a run: the operations of the lines and the ticks, each with the reading that the
  clock would give at it.
\<close>

fun operation_events :: "'hw hw_ops \<Rightarrow> operation list \<Rightarrow> 'hw controller \<Rightarrow> (int \<times> operation option) list" where
  "operation_events ops [] c = []"
| "operation_events ops (e # es) c = (clock c (clock_reads c), Some e) # operation_events ops es (run_op ops e c)"

fun events :: "json_lib \<Rightarrow> 'hw hw_ops \<Rightarrow> action list \<Rightarrow> 'hw controller \<Rightarrow> (int \<times> operation option) list" where
  "events L ops [] c = []"
| "events L ops (A_tick # as) c = (clock c (clock_reads c), None) # events L ops as (tick ops c)"
| "events L ops (A_line raw # as) c =
     operation_events ops (line_operations L raw) c @ events L ops as (act L ops (A_line raw) c)"

lemma board_run_ops:
  assumes "starts_ok c"
  shows "starts_ok (fold (run_op ops) es c) \<and>
    board (fold (run_op ops) es c) = fold spec_step (operation_events ops es c) (board c)"
  using assms
proof (induction es arbitrary: c)
  case (Cons e es)
  have "ctrl_inv c" using Cons.prems by (simp add: starts_ok_def)
  from Cons.IH [OF starts_ok_run_op [OF Cons.prems, of ops e]] board_run_op [OF this, of ops e]
  show ?case by simp
qed simp

lemma board_run:
  assumes "starts_ok c" "\<And>n. clock c n < 2 ^ 32 * 1000000"
  shows "starts_ok (run_actions L ops as c) \<and>
    board (run_actions L ops as c) = fold spec_step (events L ops as c) (board c)"
  using assms
proof (induction as arbitrary: c)
  case (Cons a as)
  have inv: "ctrl_inv c" using Cons.prems(1) by (simp add: starts_ok_def)
  have clk: "clock (act L ops a c) n < 2 ^ 32 * 1000000" for n
    unfolding act_fields(2) [OF inv] by (rule Cons.prems(2))
  show ?case
  proof (cases a)
    case A_tick
    with Cons.IH [OF starts_ok_tick [OF Cons.prems(1)], of ops] clk board_tick [OF Cons.prems, of ops]
    show ?thesis by simp
  next
    case (A_line raw)
    with Cons.IH [of "act L ops a c"] clk board_run_ops [OF Cons.prems(1), of ops "line_operations L raw"]
    show ?thesis by (simp add: request_state)
  qed
qed simp

text \<open>
  C2: The board keeps its promise. In a run of at most 49 days of the clock, in which the worker
  ticks at any time and clients send any lines in any order, the controller is at each moment
  what the abstract board is after the same operations and ticks at the same readings of the
  clock: a relay is steady, counts down, or flashes, a new operation replaces what it did, an
  operation on another relay or outside 1 to 8 does not change it. The states that clients are
  told, for the relays 1 to 8 in this order, say which of them the abstract board has lit.
\<close>

theorem controller_refines_board:
  assumes "ctrl_reachable ops h c" "\<And>n. clock c n < 2 ^ 32 * 1000000"
  shows "board (run_actions L ops as c) = fold spec_step (events L ops as c) (board c) \<and>
    getAllStates (run_actions L ops as c) =
      map (\<lambda>j. (j, spec_lit (fold spec_step (events L ops as c) (board c) j))) [1..8]"
proof -
  let ?c = "run_actions L ops as c"
  have run: "starts_ok ?c" "board ?c = fold spec_step (events L ops as c) (board c)"
    using board_run [OF starts_ok_reachable [OF assms(1)] assms(2), of L ops as] by simp_all
  then have inv: "ctrl_inv ?c" by (simp add: starts_ok_def)
  have "relay_on ?c j = spec_lit (board ?c j)" if "1 \<le> j" "j \<le> 8" for j
    using spec_lit_abs [OF ctrl_inv_ref(1) [OF inv that]] by (simp add: board_def relay_on_def)
  then have "map (\<lambda>j. (j, relay_on ?c j)) [1..8] = map (\<lambda>j. (j, spec_lit (board ?c j))) [1..8]"
    by (intro map_cong) simp_all
  moreover have "map fst (m_relayStates ?c) = [1..8]" using inv by (simp add: ctrl_inv_def)
  ultimately show ?thesis using run(2) getAllStates_channels [of ?c] by metis
qed

theorem controller_refines_board_witness:
  "board (run_actions (table_lib [(''q'', set_relay_call 2 True)]) sil_ops [A_tick, A_line ''q'', A_tick] demo) 2 = Steady True"
proof -
  have "clock demo n < 2 ^ 32 * 1000000" for n by (simp add: demo_fields demo_clock_def)
  note run = conjunct1 [OF controller_refines_board [OF demo_reachable this,
    where L = "table_lib [(''q'', set_relay_call 2 True)]" and as = "[A_tick, A_line ''q'', A_tick]"]]
  show ?thesis unfolding run by (simp add: demo_lines)
qed

end
