(* ===== verification/Rpc_Types.thy ===== *)
theory Rpc_Types
  imports Rpc_Properties
begin

text \<open>
  The types of the answers of the daemon: for each method the members of its result, with the
  ranges of its numbers, and for errors their code and message. What the README documents of
  the protocol is here a type of JSON values, and the methods of main() are shown to keep to it.
\<close>

section \<open>Types\<close>

datatype scalar = Bool_t | Int_t int int | String_t

type_synonym fields = "(string \<times> scalar) list"

fun has_scalar :: "scalar \<Rightarrow> json \<Rightarrow> bool" where
  "has_scalar Bool_t (JBool b) = True"
| "has_scalar (Int_t lo hi) (JInt n) = (lo \<le> n \<and> n \<le> hi)"
| "has_scalar String_t (JString t) = True"
| "has_scalar _ _ = False"

text \<open>An object with exactly these members, each of its type.\<close>

definition has_fields :: "fields \<Rightarrow> json \<Rightarrow> bool" where
  "has_fields fs j \<longleftrightarrow> is_object j \<and> fst ` set (items j) = fst ` set fs \<and>
     list_all (\<lambda>(k, t). has_scalar t (field j k)) fs"

definition channel_t :: scalar where
  "channel_t = Int_t 1 8"

definition u32_t :: scalar where
  "u32_t = Int_t 0 4294967295"

definition result_fields :: "string \<rightharpoonup> fields" where
  "result_fields =
     [''set_relay'' \<mapsto> [(''success'', Bool_t), (''relay_id'', channel_t), (''state'', Bool_t)],
      ''get_relays'' \<mapsto> map (\<lambda>i. (show_int i, Bool_t)) [1..8],
      ''start_timer'' \<mapsto> [(''success'', Bool_t), (''relay_id'', channel_t), (''seconds'', u32_t)],
      ''start_pulse'' \<mapsto> [(''success'', Bool_t), (''relay_id'', channel_t), (''duration_ms'', u32_t)],
      ''start_blink'' \<mapsto> [(''success'', Bool_t), (''relay_id'', channel_t), (''on_ms'', u32_t),
                        (''off_ms'', u32_t), (''count'', u32_t)],
      ''get_relay_status'' \<mapsto> [(''relay_id'', channel_t), (''status'', String_t)]]"

definition error_fields :: fields where
  "error_fields = [(''code'', Int_t (- 32603) (- 32600)), (''message'', String_t)]"

text \<open>The answer to a request for \<open>method\<close>: an error, or a result of the type of the method.\<close>

definition typed_reply :: "json \<Rightarrow> json \<Rightarrow> bool" where
  "typed_reply method res \<longleftrightarrow>
     (if contains res ''error'' then has_fields error_fields (field res ''error'')
      else case method of
          JString m \<Rightarrow> (case result_fields m of None \<Rightarrow> False | Some fs \<Rightarrow> has_fields fs (field res ''result''))
        | _ \<Rightarrow> False)"

section \<open>Results have their types\<close>

lemma contains_keys: "contains j k \<longleftrightarrow> k \<in> fst ` set (items j)"
  by (simp add: contains_def map_of_eq_None_iff)

lemma has_fieldsI:
  assumes "is_object j" "\<And>k. contains j k \<longleftrightarrow> k \<in> fst ` set fs"
    and "list_all (\<lambda>(k, t). has_scalar t (field j k)) fs"
  shows "has_fields fs j"
  using assms by (auto simp: has_fields_def contains_keys)

lemma has_fields_contains: "has_fields fs j \<Longrightarrow> contains j k \<longleftrightarrow> k \<in> fst ` set fs"
  by (auto simp: has_fields_def contains_keys)

lemma has_fields_field: "has_fields fs j \<Longrightarrow> (k, t) \<in> set fs \<Longrightarrow> has_scalar t (field j k)"
  by (auto simp: has_fields_def list_all_iff)

lemma is_object_jobj: "is_object (jobj kvs)"
proof -
  have "is_object j \<Longrightarrow> is_object (fold (\<lambda>(k, v) j. jset k v j) kvs j)" for j
    by (induction kvs arbitrary: j) auto
  then show ?thesis by (simp add: jobj_def)
qed

lemma jobj_has_fields:
  assumes "map fst kvs = map fst fs" "list_all (\<lambda>(k, t). has_scalar t (field (jobj kvs) k)) fs"
  shows "has_fields fs (jobj kvs)"
  using assms(1) by (intro has_fieldsI is_object_jobj assms(2)) (metis jobj_contains set_map)

lemma error_typed:
  "- 32603 \<le> code \<Longrightarrow> code \<le> - 32600 \<Longrightarrow> typed_reply method (makeErrorResponse rid code m)"
  unfolding typed_reply_def makeErrorResponse_def
  by (simp, rule jobj_has_fields) (simp_all add: error_fields_def jobj_def)

text \<open>What a method of the daemon returns: an error object, or a result of its type.\<close>

definition method_result :: "string \<Rightarrow> json \<Rightarrow> bool" where
  "method_result m j \<longleftrightarrow>
     (\<exists>code msg. j = rpc_error code msg \<and> - 32603 \<le> code \<and> code \<le> - 32600) \<or>
     (\<exists>fs. result_fields m = Some fs \<and> has_fields fs j)"

lemma method_result_error: "- 32603 \<le> code \<Longrightarrow> code \<le> - 32600 \<Longrightarrow> method_result m (rpc_error code msg)"
  by (auto simp: method_result_def)

lemma method_result_errors [simp]:
  "method_result m channel_error" "method_result m (rpc_error (- 32602) msg)" "method_result m (rpc_error (- 32603) msg)"
  unfolding channel_error_def by (simp_all only: method_result_error)

lemma method_result_jobj:
  "result_fields m = Some fs \<Longrightarrow> map fst kvs = map fst fs \<Longrightarrow>
     list_all (\<lambda>(k, t). has_scalar t (field (jobj kvs) k)) fs \<Longrightarrow> method_result m (jobj kvs)"
  by (auto simp: method_result_def jobj_has_fields)

lemma u32_has_type [simp]: "has_scalar u32_t (JInt (uint (w :: u32)))"
  using uint_lt2p [of w] by (simp add: u32_t_def)

lemma channel_has_type [simp]: "has_scalar channel_t (JInt i) \<longleftrightarrow> \<not> bad_channel i"
  by (auto simp: channel_t_def bad_channel_def)

text \<open>The results of the methods that take parameters.\<close>

lemma method_results_jobj:
  "\<not> bad_channel i \<Longrightarrow> method_result ''set_relay''
     (jobj [(''success'', JBool True), (''relay_id'', JInt i), (''state'', JBool st)])"
  "\<not> bad_channel i \<Longrightarrow> method_result ''start_timer''
     (jobj [(''success'', JBool True), (''relay_id'', JInt i), (''seconds'', JInt (uint (w :: u32)))])"
  "\<not> bad_channel i \<Longrightarrow> method_result ''start_pulse''
     (jobj [(''success'', JBool True), (''relay_id'', JInt i), (''duration_ms'', JInt (uint w))])"
  "\<not> bad_channel i \<Longrightarrow> method_result ''start_blink''
     (jobj [(''success'', JBool True), (''relay_id'', JInt i), (''on_ms'', JInt (uint w)),
       (''off_ms'', JInt (uint (x :: u32))), (''count'', JInt (uint (n :: u32)))])"
  "\<not> bad_channel i \<Longrightarrow> method_result ''get_relay_status'' (jobj [(''relay_id'', JInt i), (''status'', JString t)])"
  by (rule method_result_jobj, simp add: result_fields_def, simp, simp add: jobj_def)+

lemma param_methods_type:
  "fst (rpc_set_relay L dev p rid c) = Inr j \<Longrightarrow> method_result ''set_relay'' j"
  "fst (rpc_start_timer L dev p rid c) = Inr j \<Longrightarrow> method_result ''start_timer'' j"
  "fst (rpc_start_pulse L dev p rid c) = Inr j \<Longrightarrow> method_result ''start_pulse'' j"
  "fst (rpc_start_blink L dev p rid c) = Inr j \<Longrightarrow> method_result ''start_blink'' j"
  "fst (rpc_get_relay_status L dev p rid c) = Inr j \<Longrightarrow> method_result ''get_relay_status'' j"
  by (auto simp: rpc_set_relay_def rpc_start_timer_def rpc_start_pulse_def rpc_start_blink_def
      rpc_get_relay_status_def bindE_def bindS_def Let_def case_prod_beta method_results_jobj split: if_splits sum.splits)

lemma states_fields:
  "has_fields (map (\<lambda>i. (show_int i, Bool_t)) [1..8])
     (fold (\<lambda>i j. jset (show_int i) (JBool (on i)) j) [1..8] (JObject []))"
proof -
  let ?add = "\<lambda>i j. jset (show_int i) (JBool (on i)) j"
  have keys: "contains (fold ?add ks j) k \<longleftrightarrow> k \<in> show_int ` set ks \<or> contains j k" for ks j k
    by (induction ks arbitrary: j) auto
  have obj: "is_object j \<Longrightarrow> is_object (fold ?add ks j)" for ks j
    by (induction ks arbitrary: j) auto
  have bool: "(\<exists>b. field j k = JBool b) \<or> k \<in> show_int ` set ks \<Longrightarrow> \<exists>b. field (fold ?add ks j) k = JBool b" for ks j k
    by (induction ks arbitrary: j) auto
  show ?thesis
  proof (rule has_fieldsI)
    show "is_object (fold ?add [1..8] (JObject []))" by (rule obj) simp
    show "contains (fold ?add [1..8] (JObject [])) k \<longleftrightarrow> k \<in> fst ` set (map (\<lambda>i. (show_int i, Bool_t)) [1..8])" for k
      unfolding keys by (simp add: image_image del: upto_rec1)
    show "list_all (\<lambda>(k, t). has_scalar t (field (fold ?add [1..8] (JObject [])) k)) (map (\<lambda>i. (show_int i, Bool_t)) [1..8])"
      unfolding list_all_iff using bool [of "JObject []" _ "[1..8]"] by fastforce
  qed
qed

context device_controller
begin

lemma method_types:
  assumes "inv c" "map_of (m_methods (daemon_router L dev)) m = Some h" "fst (h p rid c) = Inr j"
  shows "method_result m j"
proof -
  have "method_result ''get_relays'' j" if "fst (rpc_get_relays dev p rid c) = Inr j"
    using that states_fields by (auto simp: get_relays_states [OF assms(1)] method_result_def result_fields_def
        simp del: upto_rec1)
  then show ?thesis
    using assms(2,3) param_methods_type by (auto simp: daemon_methods split: if_splits)
qed

end

section \<open>Replies have their types\<close>

lemma show_int_digit: "show_int i \<noteq> [] \<and> (hd (show_int i) = CHR ''-'' \<or> is_digit (hd (show_int i)))"
  using show_nat_digits [of _ "nat i"] by (auto simp: show_int_def)

lemma show_int_no_word: "hd k \<noteq> CHR ''-'' \<Longrightarrow> \<not> is_digit (hd k) \<Longrightarrow> show_int i \<noteq> k"
  using show_int_digit [of i] by blast

lemma result_fields_no_error: "result_fields m = Some fs \<Longrightarrow> ''error'' \<notin> fst ` set fs"
  using show_int_no_word [of "''error''"] by (fastforce simp: result_fields_def is_digit_def split: if_splits)

lemma success_typed:
  "result_fields m = Some fs \<Longrightarrow> has_fields fs j \<Longrightarrow> typed_reply (JString m) (makeSuccessResponse rid j)"
  by (simp add: typed_reply_def makeSuccessResponse_def)

lemma rpc_error_fields [simp]:
  "is_object (rpc_error code msg)" "contains (rpc_error code msg) ''error''" "contains (rpc_error code msg) ''code''"
  "field (rpc_error code msg) ''code'' = JInt code" "field (rpc_error code msg) ''error'' = JString msg"
  by (simp_all add: rpc_error_def jobj_def)

context device_controller
begin

lemma dispatch_typed:
  assumes "json_laws L" "inv c" "dispatch L (daemon_router L dev) m params rid c = (Inr res, c')"
  shows "typed_reply (JString m) res"
proof (cases "map_of (m_methods (daemon_router L dev)) m")
  case None
  with assms(3) show ?thesis by (auto simp: dispatch_def intro: error_typed)
next
  case (Some h)
  obtain j c1 where j: "h params rid c = (Inr j, c1)"
    using assms(3) Some by (cases "h params rid c") (auto simp: dispatch_def bindS_def bindE_def split: sum.splits)
  then have "method_result m j" using method_types [OF assms(2) Some, of params rid j] by simp
  then consider code msg where "j = rpc_error code msg" "- 32603 \<le> code" "code \<le> - 32600"
    | fs where "result_fields m = Some fs" "has_fields fs j" by (auto simp: method_result_def)
  then show ?thesis
  proof cases
    case 1
    then have "get_int L (JInt code) = Inr code" using json_lawsD(1) [OF assms(1)] by (simp add: fits_int_def)
    with 1 assms(3) Some j json_lawsD(4) [OF assms(1)] show ?thesis
      by (auto simp: dispatch_def intro: error_typed)
  next
    case 2
    then have "\<not> contains j ''error''" using result_fields_no_error has_fields_contains by blast
    with 2 assms(3) Some j show ?thesis by (auto simp: dispatch_def intro: success_typed)
  qed
qed

lemma single_typed:
  assumes "json_laws L" "inv c" "processSingleRequest L (daemon_router L dev) req c = (Inr res, c')"
  shows "typed_reply (field req ''method'') res"
proof (cases "valid_request req \<and> (\<exists>m. field req ''method'' = JString m)")
  case True
  then obtain m where m: "valid_request req" "field req ''method'' = JString m" by blast
  then show ?thesis
    using assms(3) json_lawsD(4) [OF assms(1)]
    by (auto simp: processSingleRequest_def Let_def intro: error_typed dispatch_typed [OF assms(1,2)]
        split: prod.splits sum.splits)
next
  case False
  show ?thesis
  proof (cases "valid_request req")
    case True
    with False have "throws (get_string L (field req ''method''))" using json_lawsD(8) [OF assms(1)] by blast
    with True assms(3) show ?thesis
      by (auto simp: processSingleRequest_def Let_def elim!: throws_obtain)
  next
    case no: False
    with assms(3) show ?thesis by (auto simp: processSingleRequest_def Let_def intro: error_typed)
  qed
qed

end

text \<open>
  C8: The answers of the daemon have the types the protocol documents. Whatever the request,
  an answer is an error with a code from -32603 to -32600 and a text, or has the members of the
  result of its method and no others: flags are booleans, a relay is a number from 1 to 8,
  durations and counts are in the range of 32 bits.
\<close>

theorem replies_are_typed:
  assumes "json_laws L" "ctrl_reachable ops h c"
    and "processSingleRequest L (daemon_router L (base_device ops)) req c = (Inr res, c')"
  shows "typed_reply (field req ''method'') res"
  by (rule reach.single_typed [OF assms])

theorem replies_are_typed_witness:
  "has_fields [(''success'', Bool_t), (''relay_id'', Int_t 1 8), (''state'', Bool_t)]
     (jobj [(''success'', JBool True), (''relay_id'', JInt 3), (''state'', JBool True)])"
proof -
  let ?q = "set_relay_call 3 True" and ?L = "table_lib []"
  have q: "valid_request ?q" "field ?q ''method'' = JString ''set_relay''" "contains ?q ''params''"
    "contains (field ?q ''params'') ''relay_id''" "field (field ?q ''params'') ''relay_id'' = JInt 3"
    "contains (field ?q ''params'') ''state''" "field (field ?q ''params'') ''state'' = JBool True"
    unfolding set_relay_call_def call_fields by (fact call_fields refl set_relay_call_params)+
  note res = conjunct1 [OF set_relay_single [OF json_laws_table demo_reachable _ _ q, of "[]"]]
  have "typed_reply (field ?q ''method'') (makeSuccessResponse (request_id ?q)
      (jobj [(''success'', JBool True), (''relay_id'', JInt 3), (''state'', JBool True)]))"
    by (rule replies_are_typed [OF json_laws_table demo_reachable res]) simp_all
  then show ?thesis
    unfolding q(2) by (simp add: typed_reply_def makeSuccessResponse_def result_fields_def channel_t_def)
qed

end
