(* ===== verification/Desk_Truth.thy ===== *)
theory Desk_Truth
  imports Desk_Daemon Rpc_Types
begin

text \<open>
  What the window is shown is so: for every request, also one of another program, the states
  AppController reads from the answer are those the relays of the daemon have after it.
\<close>

section \<open>Truthful results\<close>

definition state_signals :: "(int \<times> bool) list \<Rightarrow> desk_signal list" where
  "state_signals = map (\<lambda>(i, b). Relay_state i b)"

text \<open>All the states AppController could find in a result are those of \<open>on\<close>.\<close>

definition truthful :: "(int \<Rightarrow> bool) \<Rightarrow> json \<Rightarrow> bool" where
  "truthful on j \<longleftrightarrow>
     (contains j ''relay_id'' \<and> contains j ''state'' \<longrightarrow>
        (\<exists>i. field j ''relay_id'' = JInt i \<and> field j ''state'' = JBool (on i) \<and> \<not> bad_channel i)) \<and>
     (\<forall>k b. (k, JBool b) \<in> set (items j) \<longrightarrow>
        stoi k = None \<or> (\<exists>i. stoi k = Some i \<and> on i = b \<and> \<not> bad_channel i))"

lemma item_answers_truth:
  assumes "\<And>k b. (k, JBool b) \<in> set kvs \<Longrightarrow> stoi k = None \<or> (\<exists>i. stoi k = Some i \<and> on i = b \<and> \<not> bad_channel i)"
  shows "\<exists>sts. item_answers kvs = state_signals sts \<and> (\<forall>(i, b) \<in> set sts. on i = b \<and> \<not> bad_channel i)"
  using assms
proof (induction kvs)
  case Nil
  show ?case by (intro exI [of _ "[]"]) (simp add: state_signals_def)
next
  case (Cons kv kvs)
  obtain sts where sts: "item_answers kvs = state_signals sts" "\<forall>(i, b) \<in> set sts. on i = b \<and> \<not> bad_channel i"
    using Cons by auto
  obtain k v where kv: "kv = (k, v)" by (cases kv)
  show ?case
  proof (cases "\<exists>i b. stoi k = Some i \<and> v = JBool b")
    case True
    then obtain i b where i: "stoi k = Some i" "v = JBool b" by blast
    with Cons.prems [of k b] kv have "on i = b \<and> \<not> bad_channel i" by auto
    with i sts kv show ?thesis
      by (intro exI [of _ "(i, b) # sts"]) (simp add: state_signals_def)
  next
    case False
    then have "item_answers (kv # kvs) = item_answers kvs"
      by (auto simp: kv split: option.split json.split)
    with sts show ?thesis by auto
  qed
qed

lemma result_answers_truth:
  assumes "json_laws L" "truthful on j"
  shows "\<exists>sts. result_answers L j = state_signals sts \<and> (\<forall>(i, b) \<in> set sts. on i = b \<and> \<not> bad_channel i)"
proof (cases "contains j ''relay_id'' \<and> contains j ''state''")
  case True
  with assms(2) obtain i where i: "field j ''relay_id'' = JInt i" "field j ''state'' = JBool (on i)" "\<not> bad_channel i"
    by (auto simp: truthful_def)
  then have "fits_int i" using fits_int_channel [of i] by (simp add: bad_channel_def)
  with i True json_lawsD(1,3) [OF assms(1)] show ?thesis
    by (intro exI [of _ "[(i, on i)]"]) (simp add: result_answers_def state_signals_def)
next
  case False
  then show ?thesis
    using item_answers_truth [of "items j" on] assms(2) by (auto simp: result_answers_def truthful_def)
qed

lemma items_jobj: "set (items (jobj kvs)) \<subseteq> set kvs"
proof -
  have put: "set (om_put k v m) \<subseteq> insert (k, v) (set m)" for k :: string and v :: json and m
    by (induction m) (auto split: if_splits)
  have "set (items (fold (\<lambda>(k, v) j. jset k v j) kvs j)) \<subseteq> set kvs \<union> set (items j)" for j
  proof (induction kvs arbitrary: j)
    case (Cons kv kvs)
    show ?case using Cons [of "jset (fst kv) (snd kv) j"] put [of "fst kv" "snd kv" "items j"]
      by (auto simp: items_jset case_prod_beta)
  qed simp
  from this [of "JObject []"] show ?thesis by (simp add: jobj_def)
qed

lemma stoi_words [simp]:
  "stoi ''success'' = None" "stoi ''state'' = None" "stoi ''relay_id'' = None" "stoi ''status'' = None"
  "stoi ''seconds'' = None" "stoi ''duration_ms'' = None" "stoi ''on_ms'' = None" "stoi ''off_ms'' = None"
  "stoi ''count'' = None" "stoi ''code'' = None" "stoi ''error'' = None"
  by (simp_all add: stoi_def is_space_def is_digit_def)

lemma truthful_jobj:
  "\<forall>(k, v) \<in> set kvs. stoi k = None \<Longrightarrow> ''state'' \<notin> fst ` set kvs \<Longrightarrow> truthful on (jobj kvs)"
  using items_jobj [of kvs] by (fastforce simp: truthful_def jobj_contains)

lemma truthful_state:
  assumes "\<not> bad_channel i" "on i = st"
  shows "truthful on (jobj [(''success'', JBool True), (''relay_id'', JInt i), (''state'', JBool st)])"
  using items_jobj [of "[(''success'', JBool True), (''relay_id'', JInt i), (''state'', JBool st)]"] assms
  by (auto simp: truthful_def jobj_def)

lemma truthful_states:
  "truthful on (fold (\<lambda>i j. jset (show_int i) (JBool (on i)) j) [1..8] (JObject []))"
proof -
  have "stoi (show_int i) = Some i \<and> \<not> bad_channel i" if "i \<in> set [1..8]" for i
    using that stoi_show [OF fits_int_channel [of i]] by (auto simp: bad_channel_def)
  moreover have "show_int i \<noteq> ''state''" for i
    by (rule show_int_no_word) (simp_all add: is_digit_def)
  ultimately show ?thesis
    unfolding states_items by (force simp: truthful_def contains_keys image_iff simp del: upto_rec1)
qed

section \<open>The methods tell the truth\<close>

lemma truthful_error [simp]: "truthful on channel_error" "truthful on (rpc_error code msg)"
  unfolding channel_error_def rpc_error_def by (rule truthful_jobj; simp)+

context device_controller
begin

lemma method_truth:
  assumes "inv c" "map_of (m_methods (daemon_router L dev)) m = Some h" "h p rid c = (Inr j, c')"
  shows "truthful (on c') j"
proof -
  have set: "truthful (on c') j" if h: "rpc_set_relay L dev p rid c = (Inr j, c')"
  proof -
    have "truthful (on c') (jobj [(''success'', JBool True), (''relay_id'', JInt i), (''state'', JBool st)])"
      if "\<not> bad_channel i" "c' = snd (dev_setRelay dev i st c)" for i st
      using that set_on [OF assms(1) that(1), of st i] by (intro truthful_state) simp_all
    then show ?thesis using h
      by (auto simp: rpc_set_relay_def bindE_def Let_def case_prod_beta split: if_splits sum.splits)
  qed
  have get: "truthful (on c') j" if "rpc_get_relays dev p rid c = (Inr j, c')"
    using that truthful_states by (auto simp: get_relays_states [OF assms(1)] simp del: upto_rec1)
  have "truthful (on c') j" if "rpc_start_timer L dev p rid c = (Inr j, c')"
    using that by (auto simp: rpc_start_timer_def bindE_def Let_def case_prod_beta intro!: truthful_jobj split: if_splits sum.splits)
  moreover have "truthful (on c') j" if "rpc_start_pulse L dev p rid c = (Inr j, c')"
    using that by (auto simp: rpc_start_pulse_def bindE_def Let_def case_prod_beta intro!: truthful_jobj split: if_splits sum.splits)
  moreover have "truthful (on c') j" if "rpc_start_blink L dev p rid c = (Inr j, c')"
    using that by (auto simp: rpc_start_blink_def bindE_def Let_def case_prod_beta intro!: truthful_jobj split: if_splits sum.splits)
  moreover have "truthful (on c') j" if "rpc_get_relay_status L dev p rid c = (Inr j, c')"
    using that by (auto simp: rpc_get_relay_status_def bindE_def bindS_def intro!: truthful_jobj split: if_splits sum.splits)
  ultimately show ?thesis
    using assms(2,3) set get by (auto simp: daemon_methods split: if_splits)
qed

lemma dispatch_truth:
  assumes "inv c" "dispatch L (daemon_router L dev) m params rid c = (Inr res, c')"
  shows "(\<exists>code msg. res = makeErrorResponse rid code msg) \<or> (\<exists>j. res = makeSuccessResponse rid j \<and> truthful (on c') j)"
proof (cases "map_of (m_methods (daemon_router L dev)) m")
  case None
  with assms(2) show ?thesis by (auto simp: dispatch_def)
next
  case (Some h)
  obtain r c1 where r: "h params rid c = (r, c1)" by (cases "h params rid c")
  then obtain j where j: "r = Inr j" using assms(2) Some by (cases r) (simp_all add: dispatch_def)
  from method_truth [OF assms(1) Some r [unfolded j]] assms(2) Some r j show ?thesis
    by (auto simp: dispatch_def bindE_def split: if_splits sum.splits)
qed

text \<open>A reply is an error reply, or carries a truthful result.\<close>

lemma reply_truth:
  assumes "json_laws L" "inv c" "processSingleRequest L (daemon_router L dev) req c = (Inr res, c')"
  shows "contains res ''error'' \<and> is_object (field res ''error'') \<or>
    (\<exists>rid j. res = makeSuccessResponse rid j \<and> truthful (on c') j)"
proof -
  have err: "contains (makeErrorResponse rid code m) ''error'' \<and> is_object (field (makeErrorResponse rid code m) ''error'')"
    for rid code m by (simp add: makeErrorResponse_def is_object_jobj)
  have disp: ?thesis if "dispatch L (daemon_router L dev) m params (request_id req) c = (Inr res, c')" for m params
    using dispatch_truth [OF assms(2) that] err by auto
  show ?thesis
    using assms(3) err disp
    by (auto simp: processSingleRequest_def bindE_def Let_def split: if_splits sum.splits prod.splits)
qed

end

lemma answers_truth:
  assumes "json_laws L" "ctrl_reachable ops h c"
    and "processSingleRequest L (daemon_router L (base_device ops)) req c = (Inr res, c')"
    and "parse L u = Inr res" "contains res ''error'' \<Longrightarrow> dump L (- 1) (field res ''error'') = Inr t"
  shows "\<exists>sts. answers L u = Log (''[RX] '' @ u) #
      (if contains res ''error'' then [Log (''[Error] '' @ t)] else state_signals sts) \<and>
    (\<forall>(i, b) \<in> set sts. relay_on c' i = b \<and> 1 \<le> i \<and> i \<le> 8)"
proof (cases "contains res ''error''")
  case True
  then have "is_object (field res ''error'')"
    using reach.reply_truth [OF assms(1-3)] by (auto simp: makeSuccessResponse_def)
  then have "field res ''error'' \<noteq> JNull" by auto
  with True assms(4,5) show ?thesis
    by (intro exI [of _ "[]"]) (simp add: answers_def)
next
  case False
  then obtain rid j where j: "res = makeSuccessResponse rid j" "truthful (relay_on c') j"
    using reach.reply_truth [OF assms(1-3)] by blast
  from result_answers_truth [OF assms(1) j(2)] obtain sts where
    "result_answers L j = state_signals sts" "\<forall>(i, b) \<in> set sts. relay_on c' i = b \<and> \<not> bad_channel i" by blast
  with assms(4) j(1) False show ?thesis
    by (intro exI [of _ sts]) (auto simp: answers_def bad_channel_def)
qed

text \<open>
  The window is shown nothing but the truth. Whatever request the daemon answers, an error
  is shown as such, and any other answer as states of relays 1 to 8 which are the states those
  relays have on the daemon after the request; no answer of the daemon is ever shown as one
  that cannot be understood.
\<close>

theorem window_shows_only_the_truth:
  assumes "json_laws L" "ctrl_reachable ops h c"
    and "processSingleRequest L (daemon_router L (base_device ops)) req c = (Inr res, c')"
    and "parse L u = Inr res" "contains res ''error'' \<Longrightarrow> dump L (- 1) (field res ''error'') = Inr t"
  shows "\<exists>sts. answers L u = Log (''[RX] '' @ u) #
      (if contains res ''error'' then [Log (''[Error] '' @ t)] else state_signals sts) \<and>
    (\<forall>(i, b) \<in> set sts. relay_on c' i = b \<and> 1 \<le> i \<and> i \<le> 8)"
  by (rule answers_truth [OF assms])

theorem window_shows_only_the_truth_witness:
  "\<exists>sts. answers (table_lib [(''u'', states_reply 1 (relay_on demo))]) ''u'' = Log ''[RX] u'' # state_signals sts \<and>
     (\<forall>(i, b) \<in> set sts. relay_on demo i = b)"
proof -
  let ?L = "table_lib [(''u'', states_reply 1 (relay_on demo))]" and ?q = "request_json 1 ''get_relays'' JNull"
  let ?j = "fold (\<lambda>i j. jset (show_int i) (JBool (relay_on demo i)) j) [1..8] (JObject [])"
  have "\<not> contains ?j ''error''" unfolding states_items by (simp add: contains_def channels_upto show_channels)
  then have single: "processSingleRequest ?L (daemon_router ?L (base_device sil_ops)) ?q demo =
      (Inr (states_reply 1 (relay_on demo)), demo)"
    using json_lawsD(4) [OF json_laws_table]
    by (simp add: processSingleRequest_def dispatch_def daemon_methods reach.get_relays_states [OF demo_reachable]
        states_reply_def Let_def del: upto_rec1)
  have ok: "\<not> contains (states_reply 1 (relay_on demo)) ''error''"
    by (simp add: states_reply_def makeSuccessResponse_def)
  have "\<exists>sts. answers ?L ''u'' = Log (''[RX] '' @ ''u'') #
      (if contains (states_reply 1 (relay_on demo)) ''error'' then [Log (''[Error] '' @ [])] else state_signals sts) \<and>
    (\<forall>(i, b) \<in> set sts. relay_on demo i = b \<and> 1 \<le> i \<and> i \<le> 8)"
    by (rule window_shows_only_the_truth [OF json_laws_table demo_reachable single]) (simp_all add: table_lib_def ok)
  with ok show ?thesis by auto
qed

end
