(* ===== verification/Desk_Main.thy ===== *)
theory Desk_Main
  imports Desk_View
begin

text \<open>
  The desktop client from main() to its end (main.cc, application.cc, the factories and the
  destructors): the application is created, GTK starts it, shows its window, runs it, and shuts
  it down; then its members are destroyed.
\<close>

section \<open>The application object\<close>

text \<open>
  tcp_client_factory.cc: the session is made with a configurator, which is the \<open>True\<close> of
  \<open>openssl_ops\<close>, and the client with the session.
\<close>

definition createTcpClient :: "ssl_session tcp_client" where
  "createTcpClient = (let ssl = OpenSslSession in TcpClient (Some ssl))"

abbreviation desk_ops :: "client_env \<Rightarrow> ssl_env \<Rightarrow> ssl_session tcp_client client_ops" where
  "desk_ops env senv \<equiv> tcp_ops env (openssl_ops senv True)"

text \<open>
  The members of EntryApplication, m_controller and m_home, are set together; then what GTK
  keeps of the application: the phase of its life, and whether the window has been added to it
  and is visible.
\<close>

datatype phase = Created | Active | Quit

record entry_application =
  m_desktop :: "ssl_session tcp_client app_controller desktop option"
  phase :: phase
  window_added :: bool
  window_visible :: bool

definition EntryApplication :: entry_application where
  "EntryApplication = \<lparr>m_desktop = None, phase = Created, window_added = False, window_visible = False\<rparr>"

definition create_application :: entry_application where
  "create_application = EntryApplication"

definition entry_startup :: "json_lib \<Rightarrow> desk_disk \<Rightarrow> entry_application \<Rightarrow> entry_application" where
  "entry_startup L disk e =
     e\<lparr>phase := Active, m_desktop := Some (on_startup L createTcpClient disk), window_added := True\<rparr>"

definition entry_activate :: "entry_application \<Rightarrow> entry_application" where
  "entry_activate e = (if m_desktop e \<noteq> None then e\<lparr>window_visible := True\<rparr> else e)"

definition entry_shutdown :: "json_lib \<Rightarrow> client_env \<Rightarrow> ssl_env \<Rightarrow> bool \<Rightarrow> string \<Rightarrow> entry_application \<Rightarrow>
    entry_application option" where
  "entry_shutdown L env senv busy stamp e =
     (case m_desktop e of
        None \<Rightarrow> Some (e\<lparr>phase := Quit\<rparr>)
      | Some d \<Rightarrow> map_option (\<lambda>d'. e\<lparr>m_desktop := Some d', phase := Quit\<rparr>)
          (on_shutdown (app_ops L (desk_ops env senv)) busy stamp d))"

section \<open>Destructors\<close>

text \<open>
  ~TcpClient disconnects and then destroys its session, which disconnects too. ~AppController
  stops and then destroys its members: the thread first, and a thread that can still be joined
  ends the process. The window, which is declared after the controller, has gone before it.
\<close>

definition destroyTcpClient :: "ssl_env \<Rightarrow> ssl_session tcp_client \<Rightarrow> ssl_session tcp_client" where
  "destroyTcpClient senv c =
     (let c1 = client_disconnect (openssl_ops senv True) c
      in c1\<lparr>m_sslSession := map_option ssl_disconnect (m_sslSession c1)\<rparr>)"

datatype ending = Terminated | Destroyed "ssl_session tcp_client option"

definition destroyAppController :: "json_lib \<Rightarrow> client_env \<Rightarrow> ssl_env \<Rightarrow> bool \<Rightarrow>
    ssl_session tcp_client app_controller \<Rightarrow> ending option" where
  "destroyAppController L env senv busy a =
     map_option (\<lambda>a1. if m_readThread a1 \<noteq> Not_started then Terminated
                     else Destroyed (Some (destroyTcpClient senv (m_client a1))))
       (app_stop L (desk_ops env senv) busy a)"

definition destroyEntryApplication :: "json_lib \<Rightarrow> client_env \<Rightarrow> ssl_env \<Rightarrow> bool \<Rightarrow> entry_application \<Rightarrow> ending option" where
  "destroyEntryApplication L env senv busy e =
     (case m_desktop e of
        None \<Rightarrow> Some (Destroyed None)
      | Some d \<Rightarrow> destroyAppController L env senv busy (app d))"

section \<open>main()\<close>

text \<open>
  main() ignores SIGPIPE, creates the application and runs it. Gtk::Application::run starts an
  application once, activates it, lets it work, and shuts it down once when its last window is
  closed; of an application that is running already it only has the first one activated.
\<close>

inductive app_life :: "json_lib \<Rightarrow> client_env \<Rightarrow> ssl_env \<Rightarrow> desk_disk \<Rightarrow> entry_application \<Rightarrow> entry_application \<Rightarrow> bool"
  for L env senv disk where
  startup: "phase e = Created \<Longrightarrow> app_life L env senv disk e (entry_startup L disk e)"
| activate: "phase e = Active \<Longrightarrow> app_life L env senv disk e (entry_activate e)"
| work: "phase e = Active \<Longrightarrow> m_desktop e = Some d \<Longrightarrow> desktop_step L (desk_ops env senv) d d' \<Longrightarrow>
    app_life L env senv disk e (e\<lparr>m_desktop := Some d'\<rparr>)"
| shutdown: "phase e = Active \<Longrightarrow> entry_shutdown L env senv busy stamp e = Some e' \<Longrightarrow> app_life L env senv disk e e'"

record desktop_process =
  sigpipe_ignored :: bool
  the_app :: entry_application

definition desktop_main :: desktop_process where
  "desktop_main = \<lparr>sigpipe_ignored = True, the_app = create_application\<rparr>"

abbreviation desktop_lives :: "json_lib \<Rightarrow> client_env \<Rightarrow> ssl_env \<Rightarrow> desk_disk \<Rightarrow> entry_application \<Rightarrow> bool" where
  "desktop_lives L env senv disk e \<equiv> (app_life L env senv disk)\<^sup>*\<^sup>* (the_app desktop_main) e"

section \<open>Invariant\<close>

text \<open>
  The members are there exactly from the start on, the window is added with them and visible
  only then, and a running application is one of the runs of the window.
\<close>

definition entry_inv :: "client_env \<Rightarrow> ssl_env \<Rightarrow> entry_application \<Rightarrow> bool" where
  "entry_inv env senv e \<longleftrightarrow>
     (m_desktop e \<noteq> None \<longleftrightarrow> phase e \<noteq> Created) \<and> (window_added e \<longleftrightarrow> phase e \<noteq> Created) \<and>
     (window_visible e \<longrightarrow> window_added e) \<and>
     (\<forall>d. m_desktop e = Some d \<longrightarrow>
        desktop_inv (desk_ops env senv) (client_ok env (openssl_ops senv True) ssl_ok) d)"

lemma on_startup_inv:
  "bounded_writes env (openssl_ops senv True) \<Longrightarrow>
     desktop_inv (desk_ops env senv) (client_ok env (openssl_ops senv True) ssl_ok) (on_startup L createTcpClient disk)"
  using tcp.start_desktop_inv [OF TcpClient_closed]
  by (simp add: on_startup_def createTcpClient_def case_prod_beta Let_def)

lemma on_shutdown_state:
  assumes "desktop_inv (desk_ops env senv) (client_ok env (openssl_ops senv True) ssl_ok) d"
    and "on_shutdown (app_ops L (desk_ops env senv)) busy stamp d = Some d'"
  shows "desktop_inv (desk_ops env senv) (client_ok env (openssl_ops senv True) ssl_ok) d' \<and>
    client_closed env (openssl_ops senv True) ssl_idle (m_client (app d')) \<and> m_readThread (app d') = Not_started"
proof -
  obtain a where a: "requestDisconnect L (desk_ops env senv) busy (app d) = Some a" and d': "d' = with_app stamp a d"
    using assms(2) by (auto simp: on_shutdown_def app_stop_def)
  have inv: "app_inv (desk_ops env senv) (client_ok env (openssl_ops senv True) ssl_ok) (app d)"
    using assms(1) by (simp add: desktop_inv_def)
  note s = tcp.requestDisconnect_state [OF inv a]
  have "desktop_inv (desk_ops env senv) (client_ok env (openssl_ops senv True) ssl_ok) d'"
    unfolding d' by (rule with_app_inv [OF assms(1) requestDisconnect_adds [OF a] tcp.requestDisconnect_inv [OF inv a]])
  with s show ?thesis by (simp add: d' with_app_def)
qed

lemma app_life_inv:
  assumes "bounded_writes env (openssl_ops senv True)" "app_life L env senv disk e e'" "entry_inv env senv e"
  shows "entry_inv env senv e'"
  using assms(2)
proof (cases rule: app_life.cases)
  case startup
  then show ?thesis
    using assms(3) on_startup_inv [OF assms(1), of L disk] by (simp add: entry_inv_def entry_startup_def)
next
  case activate
  then show ?thesis using assms(3) by (simp add: entry_inv_def entry_activate_def)
next
  case (work d d')
  then have "desktop_inv (desk_ops env senv) (client_ok env (openssl_ops senv True) ssl_ok) d'"
    using assms(3) by (intro tcp.desktop_step_inv [OF work(4)]) (simp add: entry_inv_def)
  with work assms(3) show ?thesis by (simp add: entry_inv_def)
next
  case (shutdown busy stamp)
  then obtain d d' where d: "m_desktop e = Some d" "on_shutdown (app_ops L (desk_ops env senv)) busy stamp d = Some d'"
      "e' = e\<lparr>m_desktop := Some d', phase := Quit\<rparr>"
    using assms(3) by (auto simp: entry_shutdown_def entry_inv_def split: option.splits)
  have "desktop_inv (desk_ops env senv) (client_ok env (openssl_ops senv True) ssl_ok) d'"
    using assms(3) d(1) on_shutdown_state [OF _ d(2)] by (simp add: entry_inv_def)
  with d shutdown assms(3) show ?thesis by (simp add: entry_inv_def)
qed

lemma desktop_lives_inv:
  assumes "bounded_writes env (openssl_ops senv True)" "desktop_lives L env senv disk e"
  shows "entry_inv env senv e"
  using assms(2)
proof (induction rule: rtranclp_induct)
  case base
  show ?case by (simp add: desktop_main_def create_application_def EntryApplication_def entry_inv_def)
next
  case (step e e')
  then show ?case by (blast intro: app_life_inv [OF assms(1)])
qed

section \<open>Quitting\<close>

text \<open>
  Disconnecting waits for the read thread, which comes back when its reads come to an end.
\<close>

definition reads_end :: "client_env \<Rightarrow> ssl_env \<Rightarrow> ssl_session tcp_client \<Rightarrow> bool" where
  "reads_end env senv c \<longleftrightarrow> (\<exists>k. reads env (openssl_ops senv True) c (io_calls c + k) = None)"

lemma shutdownSocket_reads:
  "reads env sops (shutdownSocket c) n = reads env sops c n" "io_calls (shutdownSocket c) = io_calls c"
  by (simp_all add: reads_def read_some_def shutdownSocket_def split: option.split)

lemma receiveLine_ends:
  assumes "reads_end env senv c"
  shows "receiveLine env (openssl_ops senv True) c \<noteq> None"
proof -
  let ?P = "\<lambda>k. reads env (openssl_ops senv True) c (io_calls c + k) = None"
  obtain k where "?P k" using assms by (auto simp: reads_end_def)
  then have "?P (LEAST k. ?P k)" "\<forall>i < (LEAST k. ?P k). \<not> ?P i"
    by (rule LeastI) (blast dest: not_less_Least)
  then show ?thesis unfolding receiveLine_returns by blast
qed

lemma disconnect_returns:
  assumes "reads_end env senv (m_client a)"
  shows "\<exists>a'. requestDisconnect L (desk_ops env senv) busy a = Some a'"
proof -
  have "reads_end env senv (shutdownSocket (m_client a))"
    using assms by (simp add: reads_end_def shutdownSocket_reads)
  then obtain line c where "receiveLine env (openssl_ops senv True) (shutdownSocket (m_client a)) = Some (line, c)"
    using receiveLine_ends by fastforce
  then show ?thesis
    by (auto simp: requestDisconnect_def join_reader_def read_body_def Let_def)
qed

lemma disconnect_idle:
  "m_readThread a = Not_started \<Longrightarrow> \<exists>a'. requestDisconnect L cops busy a = Some a'"
  by (simp add: requestDisconnect_def join_reader_def Let_def)

definition client_destroyed :: "ssl_session tcp_client \<Rightarrow> bool" where
  "client_destroyed c \<longleftrightarrow> sockets c = {} \<and> m_readBuffer c = [] \<and> pred_option ssl_idle (m_sslSession c)"

lemma destroyTcpClient_clean:
  assumes "client_ok env (openssl_ops senv True) ssl_ok c"
  shows "client_destroyed (destroyTcpClient senv c)"
proof -
  have "client_closed env (openssl_ops senv True) ssl_idle (client_disconnect (openssl_ops senv True) c)"
    using tcp.disconnect_closed [OF assms] by simp
  then show ?thesis
    by (auto simp: client_closed_def client_destroyed_def destroyTcpClient_def Let_def option.pred_map o_def
        ssl_disconnect_idle ssl_idle_ok elim: option.pred_mono_strong)
qed

lemma destroy_after_shutdown:
  assumes "desktop_inv (desk_ops env senv) (client_ok env (openssl_ops senv True) ssl_ok) d"
    and "m_readThread (app d) = Not_started"
  shows "\<exists>c. destroyAppController L env senv busy (app d) = Some (Destroyed (Some c)) \<and> client_destroyed c"
proof -
  have inv: "app_inv (desk_ops env senv) (client_ok env (openssl_ops senv True) ssl_ok) (app d)"
    using assms(1) by (simp add: desktop_inv_def)
  obtain a where a: "requestDisconnect L (desk_ops env senv) busy (app d) = Some a"
    using disconnect_idle [OF assms(2)] by blast
  note s = tcp.requestDisconnect_state [OF inv a]
  have "client_ok env (openssl_ops senv True) ssl_ok (m_client a)" using s tcp.closed_ok by blast
  with a s show ?thesis
    by (auto simp: destroyAppController_def app_stop_def intro: destroyTcpClient_clean)
qed


lemma quiet_connect:
  "\<exists>r a. requestConnect (table_lib []) (desk_ops quiet_net (demo_ssl 1)) False ''10.0.0.2'' 5555 False False
     (AppController g disk createTcpClient) = Some (r, a) \<and> isConnected (desk_ops quiet_net (demo_ssl 1)) a \<and>
     \<not> c_useSsl (m_client a)"
  by (simp add: requestConnect_def requestDisconnect_def join_reader_def createTcpClient_def AppController_def
      TcpClient_def shutdownSocket_def client_disconnect_def client_connect_def quiet_net_def demo_net_def
      queryAllRelays_def sendJsonRpc_def isOpen_def isConnected_def table_lib_def Let_def)

lemma quiet_life:
  "\<exists>e d. desktop_lives (table_lib []) quiet_net (demo_ssl 1) demo_disk e \<and> phase e = Active \<and> m_desktop e = Some d \<and>
     isConnected (desk_ops quiet_net (demo_ssl 1)) (app d) \<and> \<not> c_useSsl (m_client (app d))"
proof -
  let ?L = "table_lib []" and ?ops = "desk_ops quiet_net (demo_ssl 1)"
  let ?life = "app_life ?L quiet_net (demo_ssl 1) demo_disk"
  let ?e0 = "the_app desktop_main" and ?d0 = "on_startup ?L createTcpClient demo_disk"
  let ?e1 = "entry_startup ?L demo_disk ?e0"
  let ?d1 = "?d0\<lparr>home := (home ?d0)\<lparr>m_ipEntry := ''10.0.0.2'', m_portEntry := ''5555''\<rparr>\<rparr>"
  have startup: "?life ?e0 ?e1"
    by (rule app_life.startup) (simp add: desktop_main_def create_application_def EntryApplication_def)
  have e1: "phase ?e1 = Active" "m_desktop ?e1 = Some ?d0" by (simp_all add: entry_startup_def)
  have enter: "?life ?e1 (?e1\<lparr>m_desktop := Some ?d1\<rparr>)"
    by (rule app_life.work [OF e1 desktop_step.enter])
  have port: "port_of (home ?d1) = 5555"
    by (simp add: port_of_def stoi_def is_space_def is_digit_def read_nat_def digit_val_def fits_int_def Let_def)
  obtain g disk where d0: "?d0 = \<lparr>app = AppController g disk createTcpClient, home = AppHome g\<rparr>"
      and g: "\<not> config.m_useSsl g" "\<not> config.m_useMtls g"
    by (simp add: on_startup_def start_desktop_def ConfigManager_def demo_disk_def getConfigPath_def
        defaultConfigStore_def populateDefaults_def Let_def case_prod_beta)
  then have checks: "m_checks (home ?d1) = \<lparr>m_sslCheck = False, m_mtlsCheck = False\<rparr>"
    by (simp add: AppHome_def)
  obtain r a where a: "requestConnect ?L ?ops False ''10.0.0.2'' 5555 False False (app ?d1) = Some (r, a)"
      "isConnected ?ops a" "\<not> c_useSsl (m_client a)"
    using quiet_connect [of g disk] d0 by auto
  have "\<not> isConnected ?ops (app ?d1)"
    unfolding d0 by (simp add: isConnected_def isOpen_def AppController_def createTcpClient_def TcpClient_def)
  then have "onConnectClicked (app_ops ?L ?ops) False [] ?d1 = Some (with_app [] a ?d1)"
    using a(1) unfolding onConnectClicked_def port checks by simp
  then have "?life (?e1\<lparr>m_desktop := Some ?d1\<rparr>) (?e1\<lparr>m_desktop := Some (with_app [] a ?d1)\<rparr>)"
    using app_life.work [OF _ _ desktop_step.connect, of "?e1\<lparr>m_desktop := Some ?d1\<rparr>" ?d1] e1 by simp
  with startup enter have "desktop_lives ?L quiet_net (demo_ssl 1) demo_disk (?e1\<lparr>m_desktop := Some (with_app [] a ?d1)\<rparr>)"
    by (meson rtranclp.rtrancl_into_rtrancl rtranclp.rtrancl_refl)
  moreover have "app (with_app [] a ?d1) = a" by (simp add: with_app_def)
  ultimately show ?thesis using a e1(1) by fastforce
qed


end
