(* ===== verification/Desk_Picture.thy ===== *)
theory Desk_Picture
  imports Desk_Panel
begin

text \<open>
  What the window of the desktop client looks like: the widgets the constructors of AppHome,
  RelayWidget and the pages put together, with the texts, values, classes and attributes they
  have in a state of the window, and the handlers their signals are connected to.
\<close>

section \<open>Widgets\<close>

datatype orientation = HORIZONTAL | VERTICAL

datatype align = START | CENTER | END

datatype attribute =
    Halign align | Valign align | Hexpand | Vexpand
  | Margin nat | Margin_top nat | Margin_bottom nat | Margin_start nat | Margin_end nat
  | Wrap | Justify align | Width_chars nat | Size_request int int
  | Not_editable | No_cursor | Wrap_char | Homogeneous | Crossfade nat

text \<open>
  A label, a box and a frame have their style classes; a button, a switch and a combo box the
  handler of their signal; a spin button its two increments; a box and a grid their spacing; a
  grid the column and row of each child; a stack the name of the child in front and those of all
  its children; a window its title, size and style sheet. \<open>P_sensitive\<close> is set_sensitive of the
  widget below it and \<open>P_with\<close> its attributes.
\<close>

datatype picture =
    P_label string "string list"
  | P_entry string
  | P_check string bool
  | P_button string string "string list"
  | P_switch bool string
  | P_spin rat rat spin
  | P_combo "string list" int string
  | P_text string
  | P_box orientation nat "string list" "picture list"
  | P_grid nat "(nat \<times> nat) list" "picture list"
  | P_stack string "string list" "picture list"
  | P_frame "string list" picture
  | P_scrolled picture
  | P_window string nat nat string picture
  | P_sensitive bool picture
  | P_with "attribute list" picture

text \<open>The controls on the screen that can be used: GTK shows one child of a stack.\<close>

fun usable :: "picture \<Rightarrow> picture list" where
  "usable (P_label t cs) = []"
| "usable (P_entry t) = [P_entry t]"
| "usable (P_check t b) = [P_check t b]"
| "usable (P_button t f cs) = [P_button t f cs]"
| "usable (P_switch b f) = [P_switch b f]"
| "usable (P_spin x y s) = [P_spin x y s]"
| "usable (P_combo ts i f) = [P_combo ts i f]"
| "usable (P_text t) = []"
| "usable (P_box dir sp cs ps) = concat (map usable ps)"
| "usable (P_grid sp cells ps) = concat (map usable ps)"
| "usable (P_stack front names ps) =
     (case map_of (zip names (map usable ps)) front of None \<Rightarrow> [] | Some us \<Rightarrow> us)"
| "usable (P_frame cs p) = usable p"
| "usable (P_scrolled p) = usable p"
| "usable (P_window t w h css p) = usable p"
| "usable (P_sensitive b p) = (if b then usable p else [])"
| "usable (P_with as p) = usable p"

section \<open>The pages\<close>

text \<open>The description on top of each page, and the button at its bottom.\<close>

definition page_text :: "string \<Rightarrow> picture" where
  "page_text t = P_with [Wrap, Justify CENTER, Vexpand, Valign END] (P_label t [])"

definition page_button :: "string \<Rightarrow> string \<Rightarrow> picture" where
  "page_button t handler = P_with [Halign CENTER, Margin_bottom 10] (P_button t handler [])"

definition toggle_picture :: "toggle_page \<Rightarrow> picture" where
  "toggle_picture p =
     P_box VERTICAL toggle_cBoxSpacing []
       [page_text cToggleDesc,
        P_with [Halign CENTER, Valign CENTER, Margin_bottom cSwitchMarginBottom, Margin_top cSwitchMarginTop] (P_switch (m_switch p) ''onStateSet'')]"

definition timer_picture :: "timer_page \<Rightarrow> picture" where
  "timer_picture p =
     P_box VERTICAL timer_cBoxSpacing []
       [page_text cTimerDesc,
        P_with [Halign CENTER] (P_box HORIZONTAL timer_cInputSpacing [] [P_label cDurationLabel [], P_spin cStepSeconds cPageSeconds (m_durationSpin p)]),
        page_button timer_cBtnStart ''TimerModePage::onStartClicked'']"

definition pulse_picture :: "pulse_page \<Rightarrow> picture" where
  "pulse_picture p =
     P_box VERTICAL pulse_cBoxSpacing []
       [page_text cPulseDesc,
        P_with [Halign CENTER]
          (P_box HORIZONTAL pulse_cInputSpacing [] [P_label cPulseLabel [], P_with [Width_chars 6] (P_spin cStepMs cPageMs (m_pulseSpin p))]),
        page_button cBtnTrigger ''PulseModePage::onTriggerClicked'']"

definition blink_picture :: "blink_page \<Rightarrow> picture" where
  "blink_picture p =
     P_box VERTICAL blink_cBoxSpacing []
       [page_text cBlinkDesc,
        P_with [Halign CENTER]
          (P_grid cGridSpacing [(0, 0), (1, 0), (0, 1), (1, 1), (0, 2), (1, 2)]
            [P_label cOnLabel [], P_with [Width_chars 6] (P_spin cStepTime cPageTime (m_onSpin p)),
             P_label cOffLabel [], P_with [Width_chars 6] (P_spin cStepTime cPageTime (m_offSpin p)),
             P_label cCountLabel [], P_spin cStepCount cPageCount (m_countSpin p)]),
        page_button blink_cBtnStart ''BlinkModePage::onStartClicked'']"

section \<open>A relay and the window\<close>

text \<open>The lamp is the character U+25CF, in UTF-8.\<close>

definition lamp :: string where
  "lamp = cIndicatorChar"

definition relay_header :: "relay_widget \<Rightarrow> picture" where
  "relay_header w =
     P_box HORIZONTAL cHeaderSpacing []
       [P_with [Halign START] (P_label (cRelayTitlePrefix @ show_int (m_relayId w) @ cRelayTitleSuffix) []),
        P_with [Halign END, Hexpand] (P_label lamp [cIndicatorClass, if led_on w then cLedOnClass else cLedOffClass])]"

definition mode_box :: "relay_widget \<Rightarrow> picture" where
  "mode_box w = P_combo [''Toggle'', ''Timer'', ''Pulse'', ''Blink''] (m_modeCombo w) ''RelayWidget::onModeChanged''"

definition mode_stack :: "relay_widget \<Rightarrow> picture" where
  "mode_stack w =
     P_with [Crossfade 150, Homogeneous, Vexpand]
       (P_stack (m_stack w) [''toggle'', ''timer'', ''pulse'', ''blink'']
         [toggle_picture (m_pageToggle w), timer_picture (m_pageTimer w), pulse_picture (m_pagePulse w),
          blink_picture (m_pageBlink w)])"

definition relay_picture :: "relay_widget \<Rightarrow> picture" where
  "relay_picture w =
     P_sensitive (widget_sensitive w) (P_with [Margin cWidgetMargin]
       (P_frame (cRelayCardClass # (if led_on w then [''active-relay''] else []))
         (P_with [Margin cBoxMargin] (P_box VERTICAL relay_cBoxSpacing [] [relay_header w, mode_box w, mode_stack w]))))"

definition header_picture :: "home \<Rightarrow> picture" where
  "header_picture h =
     P_with [Margin cHeaderMargin] (P_box HORIZONTAL cHeaderMargin [''connection-bar'']
       [P_label cIpLabel [], P_sensitive (entries_sensitive h) (P_with [Width_chars cIpEntryWidth] (P_entry (m_ipEntry h))),
        P_label cPortLabel [], P_sensitive (entries_sensitive h) (P_with [Width_chars cPortEntryWidth] (P_entry (m_portEntry h))),
        P_sensitive (entries_sensitive h) (P_check cSslLabel (m_sslCheck (m_checks h))),
        P_sensitive (entries_sensitive h) (P_check cMtlsLabel (m_mtlsCheck (m_checks h))),
        P_button (m_connectBtn h) ''AppHome::onConnectClicked'' [''connect-btn'']])"

text \<open>The cell of the relay number \<open>i\<close>, from 0: its column and its row.\<close>

definition relay_cell :: "nat \<Rightarrow> nat \<times> nat" where
  "relay_cell i = (i mod cRelayCols, i div cRelayCols)"

definition grid_picture :: "relay_widget list \<Rightarrow> picture" where
  "grid_picture ws = P_with [Margin cRelayMargin] (P_grid cRelaySpacing (map relay_cell [0..<cRelayCount]) (map relay_picture ws))"

definition log_picture :: "string \<Rightarrow> picture" where
  "log_picture t =
     P_with [Vexpand, Hexpand, Size_request (- 1) cLogHeight, Margin_start cLogMargin, Margin_end cLogMargin, Margin_bottom cLogMargin]
       (P_scrolled (P_with [Not_editable, No_cursor, Wrap_char, Margin_start cLogMargin, Margin_end cLogMargin, Margin_bottom cLogMargin]
         (P_text t)))"

text \<open>The window cannot be resized; its style sheet comes with the program.\<close>

definition main_window :: "picture \<Rightarrow> picture" where
  "main_window = P_window cTitle cDefaultWidth cDefaultHeight cStyleResourcePath"

definition window_picture :: "home \<Rightarrow> picture" where
  "window_picture h =
     main_window (P_box VERTICAL cHeaderMargin []
       [header_picture h, grid_picture (m_relayWidgets h), log_picture (m_logTextView h)])"

section \<open>What the window offers\<close>

text \<open>The controls of a relay in its mode.\<close>

definition mode_controls :: "relay_widget \<Rightarrow> picture list" where
  "mode_controls w = mode_box w #
     (if m_modeCombo w = 1 then [P_spin 1 10 (m_durationSpin (m_pageTimer w)), P_button ''Start'' ''TimerModePage::onStartClicked'' []]
      else if m_modeCombo w = 2 then
        [P_spin 50 250 (m_pulseSpin (m_pagePulse w)), P_button ''Trigger'' ''PulseModePage::onTriggerClicked'' []]
      else if m_modeCombo w = 3 then
        [P_spin 50 250 (m_onSpin (m_pageBlink w)), P_spin 50 250 (m_offSpin (m_pageBlink w)), P_spin 1 10 (m_countSpin (m_pageBlink w)),
         P_button ''Start Blink'' ''BlinkModePage::onStartClicked'' []]
      else [P_switch (m_switch (m_pageToggle w)) ''onStateSet''])"

lemmas page_pictures = toggle_picture_def timer_picture_def pulse_picture_def blink_picture_def
  page_text_def page_button_def relay_header_def mode_box_def mode_stack_def

lemma usable_relay:
  assumes "panel_ok w"
  shows "usable (relay_picture w) = (if widget_sensitive w then mode_controls w else [])"
  using assms by (simp add: relay_picture_def mode_controls_def panel_ok_def mode_page_def page_pictures)

lemma usable_grid:
  assumes "panels_ok ws"
  shows "usable (grid_picture ws) = concat (map (\<lambda>w. if widget_sensitive w then mode_controls w else []) ws)"
proof -
  have eq: "map (usable \<circ> relay_picture) ws = map (\<lambda>w. if widget_sensitive w then mode_controls w else []) ws"
    using assms by (intro map_cong) (simp_all add: panels_ok_def list_all_iff usable_relay)
  show ?thesis by (simp add: grid_picture_def) (simp only: eq)
qed



end
