(* ===== verification/Desk_Resources.thy ===== *)
theory Desk_Resources
  imports Desk_Picture
begin

text \<open>
  The data compiled into the desktop client (minihildesk/build/resources.cc): one bundle with
  the style sheet of the window, which a constructor of the program registers with GLib before
  main() and a destructor takes out again. GLib is a parameter, \<open>glib\<close>, of which the law says
  that a registered bundle is looked up as the published format of bundles, GVDB, says.
\<close>

section \<open>The data\<close>

text \<open>
  The bytes as characters, a row for a line of the file: the directory of the bundle, then its
  texts and values.
\<close>

definition bundle_head :: string where
  \<open>bundle_head = concat
    [''GVariant'' @ [CHR 0x00, CHR 0x00, CHR 0x00, CHR 0x00, CHR 0x00, CHR 0x00, CHR 0x00, CHR 0x00],
     [CHR 0x18, CHR 0x00, CHR 0x00, CHR 0x00, CHR 0xAC, CHR 0x00, CHR 0x00, CHR 0x00, CHR 0x00, CHR 0x00, CHR 0x00, CHR 0x28, CHR 0x05, CHR 0x00, CHR 0x00, CHR 0x00],
     [CHR 0x00, CHR 0x00, CHR 0x00, CHR 0x00, CHR 0x02, CHR 0x00, CHR 0x00, CHR 0x00, CHR 0x02, CHR 0x00, CHR 0x00, CHR 0x00, CHR 0x03, CHR 0x00, CHR 0x00, CHR 0x00],
     [CHR 0x03, CHR 0x00, CHR 0x00, CHR 0x00, CHR 0xD4, CHR 0xB5, CHR 0x02, CHR 0x00, CHR 0xFF, CHR 0xFF, CHR 0xFF, CHR 0xFF, CHR 0xAC, CHR 0x00, CHR 0x00, CHR 0x00],
     [CHR 0x01, CHR 0x00, CHR 0x4C, CHR 0x00, CHR 0xB0, CHR 0x00, CHR 0x00, CHR 0x00, CHR 0xB4, CHR 0x00, CHR 0x00, CHR 0x00, CHR 0x0C, CHR 0xA0, CHR 0x62, CHR 0xDC],
     [CHR 0x04, CHR 0x00, CHR 0x00, CHR 0x00, CHR 0xB4, CHR 0x00, CHR 0x00, CHR 0x00, CHR 0x09, CHR 0x00, CHR 0x76, CHR 0x00, CHR 0xC0, CHR 0x00, CHR 0x00, CHR 0x00],
     [CHR 0xE6, CHR 0x09, CHR 0x00, CHR 0x00, CHR 0x64, CHR 0xAA, CHR 0x29, CHR 0xCE, CHR 0x03, CHR 0x00, CHR 0x00, CHR 0x00, CHR 0xE6, CHR 0x09, CHR 0x00, CHR 0x00],
     [CHR 0x08, CHR 0x00, CHR 0x4C, CHR 0x00, CHR 0xF0, CHR 0x09, CHR 0x00, CHR 0x00, CHR 0xF4, CHR 0x09, CHR 0x00, CHR 0x00, CHR 0x7B, CHR 0xA2, CHR 0x78, CHR 0x7C],
     [CHR 0x00, CHR 0x00, CHR 0x00, CHR 0x00, CHR 0xF4, CHR 0x09, CHR 0x00, CHR 0x00, CHR 0x03, CHR 0x00, CHR 0x4C, CHR 0x00, CHR 0xF8, CHR 0x09, CHR 0x00, CHR 0x00],
     [CHR 0xFC, CHR 0x09, CHR 0x00, CHR 0x00, CHR 0x44, CHR 0xA6, CHR 0xEB, CHR 0x0F, CHR 0x02, CHR 0x00, CHR 0x00, CHR 0x00, CHR 0xFC, CHR 0x09, CHR 0x00, CHR 0x00],
     [CHR 0x0C, CHR 0x00, CHR 0x4C, CHR 0x00, CHR 0x08, CHR 0x0A, CHR 0x00, CHR 0x00, CHR 0x0C, CHR 0x0A, CHR 0x00, CHR 0x00, CHR 0x2F, CHR 0x00, CHR 0x00, CHR 0x00],
     [CHR 0x03, CHR 0x00, CHR 0x00, CHR 0x00] @ ''style.css'' @ [CHR 0x00, CHR 0x00, CHR 0x00],
     [CHR 0x16, CHR 0x09, CHR 0x00, CHR 0x00, CHR 0x00, CHR 0x00, CHR 0x00, CHR 0x00] @ ''/* Main '']\<close>

definition bundle_body :: string where
  \<open>bundle_body = concat
    [''window and gener'',
     ''ic boxes */\<newline>wind'',
     ''ow {\<newline>    backgro'',
     ''und-color: #1212'',
     ''14;\<newline>    color: #'',
     ''ffffff;\<newline>    font'',
     ''-family: "Ubuntu'',
     ''", "Segoe UI", s'',
     ''ans-serif;\<newline>}\<newline>\<newline>bo'',
     ''x {\<newline>    backgrou'',
     ''nd-color: #12121'',
     ''4;\<newline>}\<newline>\<newline>/* Monospa'',
     ''ce terminal logs'',
     '' at bottom */\<newline>te'',
     ''xtview, textview'',
     '' text, textview.'',
     ''view, textview.v'',
     ''iew text {\<newline>    b'',
     ''ackground-color:'',
     '' #0b0b0c;\<newline>    co'',
     ''lor: #00ff66;\<newline>  '',
     ''  font-family: "'',
     ''DejaVu Sans Mono'',
     ''", "Courier New"'',
     '', monospace;\<newline>   '',
     '' font-size: 13px'',
     '';\<newline>    border-top'',
     '': 1px solid #2e2'',
     ''e38;\<newline>}\<newline>\<newline>/* Heade'',
     ''r bar layout sty'',
     ''ling */\<newline>.connect'',
     ''ion-bar {\<newline>    ba'',
     ''ckground-color: '',
     ''#1a1a1f;\<newline>    bor'',
     ''der-bottom: 1px '',
     ''solid #2d2d35;\<newline> '',
     ''   padding: 12px'',
     '';\<newline>}\<newline>\<newline>.connection'',
     ''-bar label {\<newline>   '',
     '' color: #ffffff;'',
     ''\<newline>    font-weight'',
     '': bold;\<newline>}\<newline>\<newline>/* Ca'',
     ''rds (Relay Widge'',
     ''ts) */\<newline>.relay-ca'',
     ''rd {\<newline>    border:'',
     '' 2px solid #2a2a'',
     ''32;\<newline>    border-r'',
     ''adius: 12px;\<newline>   '',
     '' background-colo'',
     ''r: #1a1a1f;\<newline>    '',
     ''transition: all '',
     ''0.3s ease;\<newline>}\<newline>\<newline>/*'',
     '' Glowing active '',
     ''border when rela'',
     ''y is ON */\<newline>.rela'',
     ''y-card.active-re'',
     ''lay {\<newline>    border'',
     ''-color: #2ecc71;'',
     ''\<newline>}\<newline>\<newline>.relay-card '',
     ''label {\<newline>    colo'',
     ''r: #ffffff;\<newline>    '',
     ''font-weight: nor'',
     ''mal;\<newline>}\<newline>\<newline>/* Sub-l'',
     ''abels (e.g. desc'',
     ''riptions, input '',
     ''labels) */\<newline>.rela'',
     ''y-card label.des'',
     ''c-text {\<newline>    col'',
     ''or: #8c8c9e;\<newline>}\<newline>\<newline>'',
     ''/* LED Indicator'',
     ''s */\<newline>.led-indica'',
     ''tor {\<newline>    font-s'',
     ''ize: 20px;\<newline>}\<newline>\<newline>.r'',
     ''elay-card label.'',
     ''led-on {\<newline>    col'',
     ''or: #2ecc71;\<newline>   '',
     '' text-shadow: 0 '',
     ''0 8px #2ecc71, 0'',
     '' 0 16px #2ecc71;'',
     ''\<newline>}\<newline>\<newline>.relay-card '',
     ''label.led-off {\<newline>'',
     ''    color: #e74c'',
     ''3c;\<newline>    text-sha'',
     ''dow: 0 0 8px #e7'',
     ''4c3c;\<newline>}\<newline>\<newline>/* GTK '',
     ''Input styling */'',
     ''\<newline>entry, spinbutt'',
     ''on, combobox {\<newline> '',
     ''   background-co'',
     ''lor: #25252b;\<newline>  '',
     ''  border: 1px so'',
     ''lid #3e3e4a;\<newline>   '',
     '' border-radius: '',
     ''6px;\<newline>    color: '',
     ''#ffffff;\<newline>    pad'',
     ''ding: 6px;\<newline>}\<newline>\<newline>en'',
     ''try:focus, spinb'',
     ''utton:focus, com'',
     ''bobox:focus {\<newline>  '',
     ''  border-color: '',
     ''#3498db;\<newline>}\<newline>\<newline>/* B'',
     ''utton stylings *'',
     ''/\<newline>button {\<newline>    b'',
     ''ackground-color:'',
     '' #34495e;\<newline>    bo'',
     ''rder: 1px solid '',
     ''#2c3e50;\<newline>    bor'',
     ''der-radius: 6px;'',
     ''\<newline>    color: #fff'',
     ''fff;\<newline>    font-we'',
     ''ight: bold;\<newline>    '',
     ''padding: 6px 16p'',
     ''x;\<newline>}\<newline>\<newline>button:hov'',
     ''er {\<newline>    backgro'',
     ''und-color: #415b'',
     ''76;\<newline>}\<newline>\<newline>button:ac'',
     ''tive {\<newline>    backg'',
     ''round-color: #2c'',
     ''3e50;\<newline>}\<newline>\<newline>/* Gree'',
     ''n connect/discon'',
     ''nect button */\<newline>.'',
     ''connect-btn {\<newline>  '',
     ''  background-col'',
     ''or: #2ecc71;\<newline>   '',
     '' border-color: #'',
     ''27ae60;\<newline>    colo'',
     ''r: #ffffff;\<newline>}\<newline>\<newline>.'',
     ''connect-btn:hove'',
     ''r {\<newline>    backgrou'',
     ''nd-color: #27ae6'',
     ''0;\<newline>}\<newline>\<newline>.connect-b'',
     ''tn:active {\<newline>    '',
     ''background-color'',
     '': #219653;\<newline>}\<newline>\<newline>/*'',
     '' Switch Custom l'',
     ''ayout */\<newline>switch '',
     ''{\<newline>    background'',
     ''-color: #3e3e4a;'',
     ''\<newline>    border: 1px'',
     '' solid #2d2d35;\<newline>'',
     ''    border-radiu'',
     ''s: 14px;\<newline>}\<newline>\<newline>swit'',
     ''ch:checked {\<newline>   '',
     '' background-colo'',
     ''r: #2ecc71;\<newline>}\<newline>'' @ [CHR 0x00, CHR 0x00],
     ''(uuay)electux/'' @ [CHR 0x00, CHR 0x00],
     [CHR 0x04, CHR 0x00, CHR 0x00, CHR 0x00] @ ''io/'' @ [CHR 0x00, CHR 0x02, CHR 0x00, CHR 0x00, CHR 0x00] @ ''mini'',
     ''hildesk/'' @ [CHR 0x01, CHR 0x00, CHR 0x00, CHR 0x00]]\<close>

text \<open>A string literal ends with a zero.\<close>

definition resources_resource_data :: string where
  "resources_resource_data = bundle_head @ bundle_body @ [CHR 0x00]"

text \<open>The style sheet as it is in the repository, minihildesk/resources/style.css.\<close>

definition style_lines :: "string list" where
  \<open>style_lines =
    [''/* Main window and generic boxes */'',
     ''window {'',
     ''    background-color: #121214;'',
     ''    color: #ffffff;'',
     ''    font-family: "Ubuntu", "Segoe UI", sans-serif;'',
     ''}'',
     '''',
     ''box {'',
     ''    background-color: #121214;'',
     ''}'',
     '''',
     ''/* Monospace terminal logs at bottom */'',
     ''textview, textview text, textview.view, textview.view text {'',
     ''    background-color: #0b0b0c;'',
     ''    color: #00ff66;'',
     ''    font-family: "DejaVu Sans Mono", "Courier New", monospace;'',
     ''    font-size: 13px;'',
     ''    border-top: 1px solid #2e2e38;'',
     ''}'',
     '''',
     ''/* Header bar layout styling */'',
     ''.connection-bar {'',
     ''    background-color: #1a1a1f;'',
     ''    border-bottom: 1px solid #2d2d35;'',
     ''    padding: 12px;'',
     ''}'',
     '''',
     ''.connection-bar label {'',
     ''    color: #ffffff;'',
     ''    font-weight: bold;'',
     ''}'',
     '''',
     ''/* Cards (Relay Widgets) */'',
     ''.relay-card {'',
     ''    border: 2px solid #2a2a32;'',
     ''    border-radius: 12px;'',
     ''    background-color: #1a1a1f;'',
     ''    transition: all 0.3s ease;'',
     ''}'',
     '''',
     ''/* Glowing active border when relay is ON */'',
     ''.relay-card.active-relay {'',
     ''    border-color: #2ecc71;'',
     ''}'',
     '''',
     ''.relay-card label {'',
     ''    color: #ffffff;'',
     ''    font-weight: normal;'',
     ''}'',
     '''',
     ''/* Sub-labels (e.g. descriptions, input labels) */'',
     ''.relay-card label.desc-text {'',
     ''    color: #8c8c9e;'',
     ''}'',
     '''',
     ''/* LED Indicators */'',
     ''.led-indicator {'',
     ''    font-size: 20px;'',
     ''}'',
     '''',
     ''.relay-card label.led-on {'',
     ''    color: #2ecc71;'',
     ''    text-shadow: 0 0 8px #2ecc71, 0 0 16px #2ecc71;'',
     ''}'',
     '''',
     ''.relay-card label.led-off {'',
     ''    color: #e74c3c;'',
     ''    text-shadow: 0 0 8px #e74c3c;'',
     ''}'',
     '''',
     ''/* GTK Input styling */'',
     ''entry, spinbutton, combobox {'',
     ''    background-color: #25252b;'',
     ''    border: 1px solid #3e3e4a;'',
     ''    border-radius: 6px;'',
     ''    color: #ffffff;'',
     ''    padding: 6px;'',
     ''}'',
     '''',
     ''entry:focus, spinbutton:focus, combobox:focus {'',
     ''    border-color: #3498db;'',
     ''}'',
     '''',
     ''/* Button stylings */'',
     ''button {'',
     ''    background-color: #34495e;'',
     ''    border: 1px solid #2c3e50;'',
     ''    border-radius: 6px;'',
     ''    color: #ffffff;'',
     ''    font-weight: bold;'',
     ''    padding: 6px 16px;'',
     ''}'',
     '''',
     ''button:hover {'',
     ''    background-color: #415b76;'',
     ''}'',
     '''',
     ''button:active {'',
     ''    background-color: #2c3e50;'',
     ''}'',
     '''',
     ''/* Green connect/disconnect button */'',
     ''.connect-btn {'',
     ''    background-color: #2ecc71;'',
     ''    border-color: #27ae60;'',
     ''    color: #ffffff;'',
     ''}'',
     '''',
     ''.connect-btn:hover {'',
     ''    background-color: #27ae60;'',
     ''}'',
     '''',
     ''.connect-btn:active {'',
     ''    background-color: #219653;'',
     ''}'',
     '''',
     ''/* Switch Custom layout */'',
     ''switch {'',
     ''    background-color: #3e3e4a;'',
     ''    border: 1px solid #2d2d35;'',
     ''    border-radius: 14px;'',
     ''}'',
     '''',
     ''switch:checked {'',
     ''    background-color: #2ecc71;'',
     ''}'']\<close>

definition style_css :: string where
  "style_css = concat (map (\<lambda>l. l @ [nl]) style_lines)"

section \<open>Bundles\<close>

text \<open>
  The format of a bundle, as GLib publishes it. Numbers have their lowest byte first. At 16 and
  20 the header has the range of the root table: two counts, of the words of a filter and of
  buckets, those words and buckets, then items of 24 bytes. An item has a hash, the number of
  its parent, the place and length of its part of the name, a type, and the range of its value.
  The value of a file, type v, is its length, flags that are 0 for plain data, and the data.
\<close>

definition byte_at :: "string \<Rightarrow> int \<Rightarrow> int" where
  "byte_at d i = of_char (d ! nat i)"

definition u16_at :: "string \<Rightarrow> int \<Rightarrow> int" where
  "u16_at d i = byte_at d i + 256 * byte_at d (i + 1)"

definition u32_at :: "string \<Rightarrow> int \<Rightarrow> int" where
  "u32_at d i = u16_at d i + 65536 * u16_at d (i + 2)"

definition range_at :: "string \<Rightarrow> int \<Rightarrow> string" where
  "range_at d i = drop (nat (u32_at d i)) (take (nat (u32_at d (i + 4))) d)"

definition first_item :: "string \<Rightarrow> int" where
  "first_item d = (let s = u32_at d 16 in s + 8 + 4 * (u32_at d s mod 2 ^ 27 + u32_at d (s + 4)))"

definition item_count :: "string \<Rightarrow> nat" where
  "item_count d = nat ((u32_at d 20 - first_item d) div 24)"

definition item_at :: "string \<Rightarrow> int \<Rightarrow> int" where
  "item_at d k = first_item d + 24 * k"

text \<open>The name of an item after those of its parents; there are no more of these than items.\<close>

fun item_path :: "string \<Rightarrow> nat \<Rightarrow> int \<Rightarrow> string" where
  "item_path d 0 k = []"
| "item_path d (Suc n) k =
     (let p = item_at d k
      in (if u32_at d (p + 4) = 2 ^ 32 - 1 then [] else item_path d n (u32_at d (p + 4))) @
         take (nat (u16_at d (p + 12))) (drop (nat (u32_at d (p + 8))) d))"

definition item_file :: "string \<Rightarrow> int \<Rightarrow> string option" where
  "item_file d k =
     (let p = item_at d k; v = range_at d (p + 16)
      in if d ! nat (p + 14) = CHR ''v'' \<and> u32_at v 4 = 0 then Some (take (nat (u32_at v 0)) (drop 8 v)) else None)"

definition bundle_files :: "string \<Rightarrow> (string \<times> string option) list" where
  "bundle_files d = map (\<lambda>k. (item_path d (item_count d) (int k), item_file d (int k))) [0..<item_count d]"

definition bundle_file :: "string \<Rightarrow> string \<Rightarrow> string option" where
  "bundle_file d path = (case map_of (bundle_files d) path of None \<Rightarrow> None | Some t \<Rightarrow> t)"


section \<open>What the bundle holds\<close>

text \<open>The data is the directory, the style sheet and the parts of its path.\<close>

definition bundle_names :: string where
  "bundle_names = [CHR 0x00, CHR 0x00] @ ''(uuay)electux/'' @ [CHR 0x00, CHR 0x00, CHR 0x04, CHR 0x00, CHR 0x00, CHR 0x00] @
     ''io/'' @ [CHR 0x00, CHR 0x02, CHR 0x00, CHR 0x00, CHR 0x00] @ ''minihildesk/'' @ [CHR 0x01, CHR 0x00, CHR 0x00, CHR 0x00]"

definition bundle_data :: string where
  "bundle_data = bundle_head @ bundle_body"

lemma length_head: "length bundle_head = 208"
  by (simp add: bundle_head_def)

lemma length_css: "length style_css = 2326"
  by (simp add: style_css_def style_lines_def)

lemma bundle_parts: "bundle_data = take 200 bundle_head @ style_css @ bundle_names"
proof -
  have "drop 200 bundle_head = ''/* Main ''" by code_simp
  then have "bundle_head = take 200 bundle_head @ ''/* Main ''" by (metis append_take_drop_id)
  moreover have "''/* Main '' @ bundle_body = style_css @ bundle_names"
    by (simp add: bundle_body_def style_css_def style_lines_def bundle_names_def)
  ultimately show ?thesis unfolding bundle_data_def by (metis append.assoc)
qed

lemma byte_prefix: "0 \<le> i \<Longrightarrow> nat i < length a \<Longrightarrow> byte_at (a @ b) i = byte_at a i"
  by (simp add: byte_at_def nth_append)

lemma u16_prefix: "0 \<le> i \<Longrightarrow> nat (i + 1) < length a \<Longrightarrow> u16_at (a @ b) i = u16_at a i"
  by (simp add: u16_at_def byte_prefix)

lemma u32_prefix: "0 \<le> i \<Longrightarrow> nat (i + 3) < length a \<Longrightarrow> u32_at (a @ b) i = u32_at a i"
  by (simp add: u32_at_def u16_prefix)

lemma numbers:
  "0 \<le> i \<Longrightarrow> i < 205 \<Longrightarrow> u32_at bundle_data i = u32_at bundle_head i"
  "0 \<le> i \<Longrightarrow> i < 207 \<Longrightarrow> u16_at bundle_data i = u16_at bundle_head i"
  by (simp_all add: bundle_data_def u32_prefix u16_prefix length_head)

lemma head_texts: "m + n \<le> 208 \<Longrightarrow> take m (drop n bundle_data) = take m (drop n bundle_head)"
  by (simp add: bundle_data_def length_head)

lemma name_texts: "2526 \<le> n \<Longrightarrow> take m (drop n bundle_data) = take m (drop (n - 2526) bundle_names)"
  by (simp add: bundle_parts length_head length_css)

lemma table: "first_item bundle_data = 52" "item_count bundle_data = 5"
proof -
  have n: "u32_at bundle_head 16 = 24" "u32_at bundle_head 20 = 172" "u32_at bundle_head 24 = 671088640"
    "u32_at bundle_head 28 = 5" by code_simp+
  then show f: "first_item bundle_data = 52" by (simp add: first_item_def numbers)
  show "item_count bundle_data = 5" by (simp add: item_count_def f numbers n)
qed

lemma item_paths:
  "item_path bundle_data (Suc n) 0 = ''/''"
  "item_path bundle_data (Suc (Suc n)) 3 = ''/io/''"
  "item_path bundle_data (Suc (Suc (Suc n))) 2 = ''/io/electux/''"
  "item_path bundle_data (Suc (Suc (Suc (Suc n)))) 4 = ''/io/electux/minihildesk/''"
  "item_path bundle_data (Suc (Suc (Suc (Suc (Suc n))))) 1 = ''/io/electux/minihildesk/style.css''"
proof -
  have n: "u32_at bundle_head 56 = 4294967295" "u32_at bundle_head 60 = 172" "u16_at bundle_head 64 = 1"
    "u32_at bundle_head 80 = 4" "u32_at bundle_head 84 = 180" "u16_at bundle_head 88 = 9"
    "u32_at bundle_head 104 = 3" "u32_at bundle_head 108 = 2534" "u16_at bundle_head 112 = 8"
    "u32_at bundle_head 128 = 0" "u32_at bundle_head 132 = 2548" "u16_at bundle_head 136 = 3"
    "u32_at bundle_head 152 = 2" "u32_at bundle_head 156 = 2556" "u16_at bundle_head 160 = 12" by code_simp+
  have t: "take (Suc 0) (drop 172 bundle_head) = ''/''" "take 9 (drop 180 bundle_head) = ''style.css''"
    "take 8 (drop 8 bundle_names) = ''electux/''" "take 3 (drop 22 bundle_names) = ''io/''"
    "take 12 (drop 30 bundle_names) = ''minihildesk/''"
    by (simp_all add: bundle_head_def bundle_names_def)
  note item = item_path.simps item_at_def table(1) numbers n head_texts name_texts t Let_def
  show p0: "item_path bundle_data (Suc n) 0 = ''/''" for n by (simp add: item)
  show p3: "item_path bundle_data (Suc (Suc n)) 3 = ''/io/''" for n by (simp add: item p0)
  show p2: "item_path bundle_data (Suc (Suc (Suc n))) 2 = ''/io/electux/''" for n by (simp add: item p3)
  show p4: "item_path bundle_data (Suc (Suc (Suc (Suc n)))) 4 = ''/io/electux/minihildesk/''" for n by (simp add: item p2)
  show "item_path bundle_data (Suc (Suc (Suc (Suc (Suc n))))) 1 = ''/io/electux/minihildesk/style.css''" by (simp add: item p4)
qed

lemma style_item: "item_file bundle_data 1 = Some style_css"
proof -
  define w where "w = [CHR 0x16, CHR 0x09, CHR 0x00, CHR 0x00, CHR 0x00, CHR 0x00, CHR 0x00, CHR 0x00]"
  have n: "u32_at bundle_head 92 = 192" "u32_at bundle_head 96 = 2534" "bundle_head ! 90 = CHR ''v''"
    "u32_at w 0 = 2326" "u32_at w 4 = 0" unfolding w_def by code_simp+
  have "drop 192 (take 200 bundle_head) = w" unfolding w_def by code_simp
  then have v: "range_at bundle_data 92 = w @ style_css @ take 8 bundle_names"
    by (simp add: range_at_def numbers n) (simp add: bundle_parts length_head length_css)
  have "bundle_data ! 90 = CHR ''v''"
    using n(3) by (simp add: bundle_data_def nth_append length_head)
  moreover have "length w = 8" by (simp add: w_def)
  ultimately show ?thesis by (simp add: item_file_def item_at_def table Let_def v u32_prefix n length_css)
qed

lemma bundle_has_sheet: "bundle_file bundle_data ''/io/electux/minihildesk/style.css'' = Some style_css"
proof -
  have "[0..<item_count bundle_data] = [0, 1, 2, 3, 4]" by (simp add: table upt_rec)
  moreover have "item_path bundle_data (item_count bundle_data) 0 = ''/''"
    "item_path bundle_data (item_count bundle_data) 1 = ''/io/electux/minihildesk/style.css''"
    using item_paths(1) [of 4] item_paths(5) [of 0] by (simp_all add: table numeral_eq_Suc)
  ultimately show ?thesis by (simp add: bundle_file_def bundle_files_def style_item)
qed

section \<open>Registering it\<close>

text \<open>
  GLib as the program sees it: its state, with what g_static_resource_init, _fini and
  _get_resource do, and the lookup of the data of a path. The law: a bundle of static data that is
  registered is the data without its last byte, its files are found under paths that were free,
  and taking it out undoes that.
\<close>

record gstatic_resource =
  static_data :: string
  data_len :: nat

record 'g glib =
  static_resource_init :: "gstatic_resource \<Rightarrow> 'g \<Rightarrow> 'g"
  static_resource_fini :: "gstatic_resource \<Rightarrow> 'g \<Rightarrow> 'g"
  static_resource_get :: "gstatic_resource \<Rightarrow> 'g \<Rightarrow> string option"
  lookup_data :: "'g \<Rightarrow> string \<Rightarrow> string option"

definition glib_laws :: "'g glib \<Rightarrow> bool" where
  "glib_laws G \<longleftrightarrow>
     (\<forall>s g. static_resource_get G s (static_resource_init G s g) = Some (take (data_len s) (static_data s))) \<and>
     (\<forall>s g path. lookup_data G g path = None \<longrightarrow>
        lookup_data G (static_resource_init G s g) path = bundle_file (take (data_len s) (static_data s)) path) \<and>
     (\<forall>s g. lookup_data G (static_resource_fini G s (static_resource_init G s g)) = lookup_data G g)"

definition static_resource :: gstatic_resource where
  "static_resource = \<lparr>static_data = resources_resource_data, data_len = length resources_resource_data - 1\<rparr>"

definition resources_get_resource :: "'g glib \<Rightarrow> 'g \<Rightarrow> string option" where
  "resources_get_resource G = static_resource_get G static_resource"

definition resourcesresource_constructor :: "'g glib \<Rightarrow> 'g \<Rightarrow> 'g" where
  "resourcesresource_constructor G = static_resource_init G static_resource"

definition resourcesresource_destructor :: "'g glib \<Rightarrow> 'g \<Rightarrow> 'g" where
  "resourcesresource_destructor G = static_resource_fini G static_resource"

section \<open>The classes of the sheet\<close>

text \<open>
  A style sheet outside its comments and declarations is the selectors of its rules (with the
  last character of each of those); a class in a selector is what follows a dot.
\<close>

datatype css_part = Selector | Slash | Comment | Star | Declarations

fun css_next :: "css_part \<Rightarrow> char \<Rightarrow> css_part" where
  "css_next Selector c = (if c = CHR ''/'' then Slash else if c = CHR ''{'' then Declarations else Selector)"
| "css_next Slash c = (if c = CHR ''*'' then Comment else if c = CHR ''{'' then Declarations else Selector)"
| "css_next Comment c = (if c = CHR ''*'' then Star else Comment)"
| "css_next Star c = (if c = CHR ''/'' then Selector else if c = CHR ''*'' then Star else Comment)"
| "css_next Declarations c = (if c = CHR ''}'' then Selector else Declarations)"

fun selectors :: "css_part \<Rightarrow> string \<Rightarrow> string" where
  "selectors m [] = []"
| "selectors m (c # s) = (if css_next m c = Selector then [c] else []) @ selectors (css_next m c) s"

definition name_char :: "char \<Rightarrow> bool" where
  "name_char c \<longleftrightarrow> c \<in> set ''-_0123456789abcdefghijklmnopqrstuvwxyzABCDEFGHIJKLMNOPQRSTUVWXYZ''"

fun class_names :: "string \<Rightarrow> string list" where
  "class_names [] = []"
| "class_names (c # s) = (if c = CHR ''.'' then [takeWhile name_char s] else []) @ class_names s"

definition styled_classes :: "string \<Rightarrow> string list" where
  "styled_classes css = class_names (selectors Selector css)"

lemma selectors_append: "selectors m (a @ b) = selectors m a @ selectors (fold (\<lambda>c m. css_next m c) a m) b"
  by (induction a arbitrary: m) auto

text \<open>The classes line by line, to compute them: no class name crosses the end of a line.\<close>

fun line_classes :: "css_part \<Rightarrow> string list \<Rightarrow> string list" where
  "line_classes m [] = []"
| "line_classes m (l # ls) =
     class_names (selectors m (l @ [nl])) @ line_classes (fold (\<lambda>c m. css_next m c) (l @ [nl]) m) ls"

fun lines_closed :: "css_part \<Rightarrow> string list \<Rightarrow> bool" where
  "lines_closed m [] \<longleftrightarrow> True"
| "lines_closed m (l # ls) \<longleftrightarrow>
     (let s = selectors m (l @ [nl]) in s = [] \<or> \<not> name_char (last s) \<and> last s \<noteq> CHR ''.'') \<and>
     lines_closed (fold (\<lambda>c m. css_next m c) (l @ [nl]) m) ls"

lemma class_names_append:
  "a = [] \<or> \<not> name_char (last a) \<and> last a \<noteq> CHR ''.'' \<Longrightarrow> class_names (a @ b) = class_names a @ class_names b"
proof (induction a)
  case (Cons c a)
  show ?case
  proof (cases "a = []")
    case True
    then show ?thesis using Cons.prems by simp
  next
    case False
    then have "takeWhile name_char (a @ b) = takeWhile name_char a"
      using Cons.prems by (metis last.simps last_in_set list.simps(3) takeWhile_append1)
    with False Cons show ?thesis by simp
  qed
qed simp

lemma class_names_lines:
  "lines_closed m ls \<Longrightarrow> class_names (selectors m (concat (map (\<lambda>l. l @ [nl]) ls))) = line_classes m ls"
proof (induction ls arbitrary: m)
  case (Cons l ls)
  have "concat (map (\<lambda>l. l @ [nl]) (l # ls)) = (l @ [nl]) @ concat (map (\<lambda>l. l @ [nl]) ls)" by simp
  with Cons show ?case
    unfolding lines_closed.simps line_classes.simps Let_def by (metis selectors_append class_names_append)
qed simp

lemma sheet_classes:
  "set (styled_classes style_css) = {''view'', ''connection-bar'', ''relay-card'', ''active-relay'', ''desc-text'',
     ''led-indicator'', ''led-on'', ''led-off'', ''connect-btn''}"
proof -
  have "lines_closed Selector style_lines" by code_simp
  moreover have "set (line_classes Selector style_lines) = {''view'', ''connection-bar'', ''relay-card'', ''active-relay'',
     ''desc-text'', ''led-indicator'', ''led-on'', ''led-off'', ''connect-btn''}" by code_simp
  ultimately show ?thesis by (simp only: styled_classes_def style_css_def class_names_lines)
qed

section \<open>The style of the window\<close>

text \<open>The style classes of the widgets of a picture, and the style sheet of a window.\<close>

fun picture_classes :: "picture \<Rightarrow> string list" where
  "picture_classes (P_label t cs) = cs"
| "picture_classes (P_entry t) = []"
| "picture_classes (P_check t b) = []"
| "picture_classes (P_button t f cs) = cs"
| "picture_classes (P_switch b f) = []"
| "picture_classes (P_spin x y s) = []"
| "picture_classes (P_combo ts i f) = []"
| "picture_classes (P_text t) = []"
| "picture_classes (P_box dir sp cs ps) = cs @ concat (map picture_classes ps)"
| "picture_classes (P_grid sp cells ps) = concat (map picture_classes ps)"
| "picture_classes (P_stack front names ps) = concat (map picture_classes ps)"
| "picture_classes (P_frame cs p) = cs @ picture_classes p"
| "picture_classes (P_scrolled p) = picture_classes p"
| "picture_classes (P_window t w h css p) = picture_classes p"
| "picture_classes (P_sensitive b p) = picture_classes p"
| "picture_classes (P_with as p) = picture_classes p"

definition style_path :: "picture \<Rightarrow> string" where
  "style_path p = (case p of P_window t w h css q \<Rightarrow> css | _ \<Rightarrow> [])"

lemma panel_classes:
  "set (picture_classes (relay_picture w)) = {''relay-card'', ''led-indicator''} \<union>
     (if led_on w then {''active-relay'', ''led-on''} else {''led-off''})"
  by (simp add: relay_picture_def page_pictures insert_commute)

lemma window_classes:
  "set (picture_classes (window_picture h)) = {''connection-bar'', ''connect-btn''} \<union>
     (\<Union>w \<in> set (m_relayWidgets h). set (picture_classes (relay_picture w)))"
  by (simp add: window_picture_def main_window_def header_picture_def grid_picture_def log_picture_def)

lemma all_classes:
  "(\<Union>h. set (picture_classes (window_picture h))) = {''connection-bar'', ''connect-btn'', ''relay-card'',
     ''led-indicator'', ''active-relay'', ''led-on'', ''led-off''}" (is "?A = ?B")
proof
  have panel: "set (picture_classes (relay_picture w)) \<subseteq> ?B" for w by (simp add: panel_classes)
  show "?A \<subseteq> ?B" unfolding window_classes by (intro UN_least Un_least panel) simp
  define h where "h = (AppHome demo_config)\<lparr>m_relayWidgets := [RelayWidget 1, (RelayWidget 2)\<lparr>led_on := True\<rparr>]\<rparr>"
  have "?B \<subseteq> set (picture_classes (window_picture h))"
    unfolding window_classes panel_classes by (simp add: h_def RelayWidget_def)
  then show "?B \<subseteq> ?A" by blast
qed


text \<open>A GLib with the list of its registered bundles.\<close>

definition demo_glib :: "string list glib" where
  "demo_glib = \<lparr>static_resource_init = (\<lambda>s g. take (data_len s) (static_data s) # g), static_resource_fini = (\<lambda>s g. tl g),
     static_resource_get = (\<lambda>s g. case g of [] \<Rightarrow> None | b # g \<Rightarrow> Some b),
     lookup_data = (\<lambda>g path. foldr (\<lambda>b r. case bundle_file b path of None \<Rightarrow> r | Some t \<Rightarrow> Some t) g None)\<rparr>"


end
