(* ===== verification/Desk_Poll.thy ===== *)
theory Desk_Poll
  imports Desk_Panel
begin

text \<open>
  The poll of the window, once a second while it is connected: whatever the window showed
  before, after one round it shows the relays as the daemon has them.
\<close>

section \<open>The states of all relays\<close>

lemma last_state_append:
  "last_state i (p @ q) = (case last_state i q of None \<Rightarrow> last_state i p | Some b \<Rightarrow> Some b)"
  by (induction i p rule: last_state.induct) (auto split: option.split)

lemma last_state_map: "last_state i (map (\<lambda>i. (i, f i)) ks) = (if i \<in> set ks then Some (f i) else None)"
  by (induction ks) auto

lemma states_queue:
  "m_relayQueue (fold (on_signal stamp) (map (\<lambda>i. Relay_state i (f i)) ks) h) = m_relayQueue h @ map (\<lambda>i. (i, f i)) ks"
  by (induction ks arbitrary: h) (simp_all add: onRelayStateUpdated_def)

lemma states_shown:
  assumes "panels_ok (m_relayWidgets (home d))" "k < 8"
    and "signals a = signals (app d) @ Log l # map (\<lambda>i. Relay_state i (f i)) [1..8]"
  shows "m_relayWidgets (snd (onRelayDispatcher (home (with_app stamp a d)))) ! k =
    shown (f (int k + 1)) (m_relayWidgets (home d) ! k)"
proof -
  let ?h = "home (with_app stamp a d)"
  have "m_relayQueue ?h = m_relayQueue (home d) @ map (\<lambda>i. (i, f i)) [1..8]"
    using assms(3) by (simp add: with_app_def states_queue postLogMessage_def del: upto_rec1 upto_rec2)
  moreover have "last_state (int k + 1) (map (\<lambda>i. (i, f i)) [1..8]) = Some (f (int k + 1))"
    using assms(2) by (simp add: last_state_map del: upto_rec1 upto_rec2)
  ultimately have "last_state (int k + 1) (m_relayQueue ?h) = Some (f (int k + 1))"
    by (simp add: last_state_append del: upto_rec1 upto_rec2)
  then show ?thesis
    using show_states_nth [of "m_relayWidgets ?h" k "m_relayQueue ?h"] panels_length [OF assms(1)] assms(2)
    by (simp add: onRelayDispatcher_def case_prod_beta Let_def)
qed

lemma dispatch_asks_nothing: "fst (onRelayDispatcher h) = []"
  by (simp add: onRelayDispatcher_def show_states_eq case_prod_beta Let_def)

section \<open>One round\<close>

text \<open>
  C22: The window synchronises itself. In any state the window can get to, whatever it shows and
  whatever other clients, timers and blinks have done to the relays meanwhile, a poll sends one
  line; the daemon answers it without a change of the device; and when the answer is read and
  shown, every panel has the lamp, the state and the switch as the relay has it on the daemon,
  and showing it asks for nothing.
\<close>

theorem poll_synchronises:
  assumes "json_laws L" "bounded_writes env (openssl_ops senv True)" "desk_runs L env senv g disk d"
    and "ctrl_reachable ops h c" "isOpen (m_client (app d))"
    and "text_of L (request_json (m_requestId (app d)) ''get_relays'' JNull) t"
    and "text_of L (states_reply (m_requestId (app d)) (relay_on c)) u"
    and "client_send env (openssl_ops senv True) (t @ [nl]) (m_client (app d)) = (True, cl)"
  shows "\<exists>d1 h2. d1 = onPollTimeout (app_ops L (tcp_ops env (openssl_ops senv True))) stamp d \<and>
    wire (m_client (app d1)) = wire (m_client (app d)) @ t @ [nl] \<and>
    processRequest L (daemon_router L (base_device ops)) t c = (Inr (u @ [nl]), c) \<and>
    onRelayDispatcher (home (with_app stamp' (processResponse L u (app d1)) d1)) = ([], h2) \<and>
    (\<forall>k < 8. led_on (m_relayWidgets h2 ! k) = relay_on c (int k + 1) \<and>
       m_active (m_relayWidgets h2 ! k) = relay_on c (int k + 1) \<and>
       m_switch (m_pageToggle (m_relayWidgets h2 ! k)) = relay_on c (int k + 1))"
proof -
  let ?ops = "tcp_ops env (openssl_ops senv True)"
  let ?d1 = "onPollTimeout (app_ops L ?ops) stamp d"
  have ok: "client_ok env (openssl_ops senv True) ssl_ok (m_client (app d))"
    using desk_runs_inv [OF assms(2,3)] by (simp add: desktop_inv_def app_inv_def)
  have conn: "isConnected ?ops (app d)" using assms(5) by (simp add: isConnected_def)
  have app1: "app ?d1 = snd (queryAllRelays L ?ops (app d))" using conn by (simp add: onPollTimeout_def with_app_def)
  have printed: "dump L (- 1) (request_json (m_requestId (app d)) ''get_relays'' JNull) = Inr t"
    using assms(6) by (simp add: text_of_def)
  have sent: "wire (m_client (app ?d1)) = wire (m_client (app d)) @ t @ [nl]"
    using tcp.sendJsonRpc_sent [OF ok _ printed] assms(5,8) unfolding app1 queryAllRelays_def by simp
  note round = window_shows_all_relays [OF assms(1,4,6,7)]
  have panels: "panels_ok (m_relayWidgets (home ?d1))"
    by (rule desktop_step_panels [OF desktop_step.poll run_panels [OF assms(3)]])
  have "signals (processResponse L u (app ?d1)) =
      signals (app ?d1) @ Log (''[RX] '' @ u) # map (\<lambda>i. Relay_state i (relay_on c i)) [1..8]"
    unfolding processResponse_answers conjunct2 [OF round] by (simp del: upto_rec1 upto_rec2)
  note shown = states_shown [OF panels _ this, where stamp = stamp']
  let ?p = "onRelayDispatcher (home (with_app stamp' (processResponse L u (app ?d1)) ?d1))"
  have "?p = ([], snd ?p)" using dispatch_asks_nothing by (metis prod.collapse)
  moreover have "\<forall>k < 8. led_on (m_relayWidgets (snd ?p) ! k) = relay_on c (int k + 1) \<and>
       m_active (m_relayWidgets (snd ?p) ! k) = relay_on c (int k + 1) \<and>
       m_switch (m_pageToggle (m_relayWidgets (snd ?p) ! k)) = relay_on c (int k + 1)"
    by (simp add: shown)
  ultimately show ?thesis using sent conjunct1 [OF round] by blast
qed

theorem poll_synchronises_witness:
  "\<exists>L d d1 h2. d1 = onPollTimeout (app_ops L (tcp_ops quiet_net demo_ops)) [] d \<and>
     wire (m_client (app d1)) = wire (m_client (app d)) @ ''q'' @ [nl] \<and>
     onRelayDispatcher (home (with_app [] (processResponse L ''u'' (app d1)) d1)) = ([], h2) \<and>
     (\<forall>k < 8. led_on (m_relayWidgets h2 ! k) = relay_on demo (int k + 1))"
proof -
  let ?q = "request_json 2 ''get_relays'' JNull" and ?u = "states_reply 2 (relay_on demo)"
  let ?L = "table_lib [(''q'', ?q), (''u'', ?u)]"
  have differ: "field a k \<noteq> field b k \<Longrightarrow> a \<noteq> b" for a b k by auto
  have reply: "field ?u ''id'' = JInt 2" "field ?u ''method'' = JNull"
    unfolding states_reply_def makeSuccessResponse_def by (simp_all add: field_missing del: upto_rec1 upto_rec2)
  have ne: "?q \<noteq> ?u" by (rule differ [where k = "''method''"]) (simp add: reply(2))
  have ne1: "request_json 1 ''get_relays'' JNull \<noteq> ?q" "request_json 1 ''get_relays'' JNull \<noteq> ?u"
    by (rule differ [where k = "''id''"], simp add: reply(1))+
  from ne have t: "text_of ?L ?q ''q''" "text_of ?L ?u ''u''" by (simp_all add: text_of_def table_lib_def)
  have "\<exists>e. dump ?L (- 1) (request_json 1 ''get_relays'' JNull) = Inl e"
    using ne1 by (simp add: table_lib_def)
  then obtain d where d: "desk_runs ?L quiet_net (demo_ssl 1) plain_config demo_disk d" "m_requestId (app d) = 2"
      "m_socketFd (m_client (app d)) = 3" "\<not> c_useSsl (m_client (app d))"
    using open_desktop by blast
  have wr: "write_some quiet_net demo_ops fd n buf (m_client (app d)) = min 4 (int (length buf))" for fd n buf
    using d(4) by (simp add: write_some_def quiet_net_def demo_net_def split: option.split)
  have "\<exists>cl. client_send quiet_net demo_ops (''q'' @ [nl]) (m_client (app d)) = (True, cl)"
    using d(3) by (simp add: client_send_def send_loop.simps wr Let_def)
  then obtain cl where cl: "client_send quiet_net demo_ops (''q'' @ [nl]) (m_client (app d)) = (True, cl)" by blast
  have "isOpen (m_client (app d))" using d(3) by (simp add: isOpen_def)
  note all = poll_synchronises [where d = d and stamp = "[]" and stamp' = "[]", unfolded d(2),
      OF json_laws_table quiet_bounded d(1) demo_reachable this t cl]
  obtain d1 h2 where r: "d1 = onPollTimeout (app_ops ?L (tcp_ops quiet_net demo_ops)) [] d"
      "wire (m_client (app d1)) = wire (m_client (app d)) @ ''q'' @ [nl]"
      "onRelayDispatcher (home (with_app [] (processResponse ?L ''u'' (app d1)) d1)) = ([], h2)"
      "\<forall>k < 8. led_on (m_relayWidgets h2 ! k) = relay_on demo (int k + 1) \<and>
         m_active (m_relayWidgets h2 ! k) = relay_on demo (int k + 1) \<and>
         m_switch (m_pageToggle (m_relayWidgets h2 ! k)) = relay_on demo (int k + 1)"
    using all by (elim exE conjE)
  have "\<forall>k < 8. led_on (m_relayWidgets h2 ! k) = relay_on demo (int k + 1)" using r(4) by simp
  with r(1-3) show ?thesis by (intro exI conjI)
qed

end
