(* ===== verification/Conversation.thy ===== *)
theory Conversation
  imports Tcp_Server Desk_Truth
begin

text \<open>
  A whole connection between the desktop client and the daemon: the bytes the client sends,
  cut in any way on their way to the daemon, its answers, cut in any way on their way back, and
  what the read thread of the client shows of them.
\<close>

section \<open>Texts on one line\<close>

text \<open>
  What the library documents of dump() without indentation, for a value it can print: the text
  is one line, it parses to the value again, and the members can be printed, too.
\<close>

definition prints_back :: "json_lib \<Rightarrow> json \<Rightarrow> bool" where
  "prints_back L j \<longleftrightarrow>
     (\<forall>t. dump L (- 1) j = Inr t \<longrightarrow>
        t \<noteq> [] \<and> nl \<notin> set t \<and> parse L t = Inr j \<and>
        (\<forall>k. contains j k \<longrightarrow> (\<exists>u. dump L (- 1) (field j k) = Inr u)))"

text \<open>
  What a request of the client is: a JSON value other than an array, whose answers print back.
\<close>

definition good_line :: "json_lib \<Rightarrow> 'hw hw_ops \<Rightarrow> 'hw \<Rightarrow> string \<Rightarrow> bool" where
  "good_line L ops h l \<longleftrightarrow>
     (\<exists>req. parse L l = Inr req \<and> \<not> is_array req \<and>
        (\<forall>c res c'. ctrl_reachable ops h c \<longrightarrow>
           processSingleRequest L (daemon_router L (base_device ops)) req c = (Inr res, c') \<longrightarrow> prints_back L res))"

section \<open>One line\<close>

text \<open>
  What is shown of an answer \<open>u\<close>: an error, or states, which are those of the device \<open>c\<close>.
\<close>

definition shown_truth :: "json_lib \<Rightarrow> 'hw controller \<Rightarrow> string \<Rightarrow> bool" where
  "shown_truth L c u \<longleftrightarrow>
     (\<exists>t. answers L u = [Log (''[RX] '' @ u), Log (''[Error] '' @ t)]) \<or>
     (\<exists>sts. answers L u = Log (''[RX] '' @ u) # state_signals sts \<and>
        (\<forall>(i, b) \<in> set sts. relay_on c i = b \<and> 1 \<le> i \<and> i \<le> 8))"

abbreviation handle_line :: "json_lib \<Rightarrow> 'hw hw_ops \<Rightarrow> string \<Rightarrow> 'hw controller \<Rightarrow> (exn + string) \<times> 'hw controller" where
  "handle_line L ops \<equiv> processRequest L (daemon_router L (base_device ops))"

lemma line_answer:
  assumes "json_laws L" "ctrl_reachable ops h c" "good_line L ops h l"
    and "handle_line L ops l c = (Inr resp, c')"
  shows "\<exists>u. resp = u @ [nl] \<and> u \<noteq> [] \<and> nl \<notin> set u \<and> shown_truth L c' u"
proof -
  let ?r = "daemon_router L (base_device ops)"
  obtain req where req: "parse L l = Inr req" "\<not> is_array req"
      "\<And>res c'. processSingleRequest L ?r req c = (Inr res, c') \<Longrightarrow> prints_back L res"
    using assms(2,3) unfolding good_line_def by blast
  obtain p c1 where p: "processSingleRequest L ?r req c = (p, c1)" by (cases "processSingleRequest L ?r req c")
  obtain res where res: "p = Inr res" using assms(4) req(1,2) p
    by (cases p) (auto simp: processRequest_def)
  have "res \<noteq> JNull" using single_reply [of L ?r req c res] p res by (auto dest: reply_not_null)
  with assms(4) req(1,2) p res obtain u where u: "dump L (- 1) res = Inr u" "resp = u @ [nl]" "c' = c1"
    by (auto simp: processRequest_def dump_line_def bindE_def split: sum.splits)
  have ok: "u \<noteq> []" "nl \<notin> set u" "parse L u = Inr res"
      "contains res ''error'' \<Longrightarrow> \<exists>t. dump L (- 1) (field res ''error'') = Inr t"
    using req(3) [OF p [unfolded res]] u(1) by (auto simp: prints_back_def)
  then obtain t where t: "contains res ''error'' \<Longrightarrow> dump L (- 1) (field res ''error'') = Inr t" by blast
  from answers_truth [OF assms(1,2) p [unfolded res] ok(3) t]
  obtain sts where "answers L u = Log (''[RX] '' @ u) #
      (if contains res ''error'' then [Log (''[Error] '' @ t)] else state_signals sts)"
      "\<forall>(i, b) \<in> set sts. relay_on c1 i = b \<and> 1 \<le> i \<and> i \<le> 8" by blast
  then have "shown_truth L c' u" unfolding shown_truth_def u(3) by (cases "contains res ''error''") auto
  with u(2) ok(1,2) show ?thesis by blast
qed

section \<open>All lines\<close>

text \<open>The states of the device after each of the lines.\<close>

fun after_lines :: "json_lib \<Rightarrow> 'hw hw_ops \<Rightarrow> string list \<Rightarrow> 'hw controller \<Rightarrow> 'hw controller list" where
  "after_lines L ops [] c = []"
| "after_lines L ops (l # ls) c = (let c' = snd (handle_line L ops l c) in c' # after_lines L ops ls c')"

lemma lines_answers:
  assumes "json_laws L" "ctrl_reachable ops h c" "\<forall>l \<in> set ls. good_line L ops h l"
    and "handle_lines (handle_line L ops) ls c = (Inr rs, c')"
  shows "\<exists>us. rs = map (\<lambda>u. u @ [nl]) us \<and> (\<forall>u \<in> set us. u \<noteq> [] \<and> nl \<notin> set u) \<and>
    list_all2 (shown_truth L) (after_lines L ops ls c) us"
  using assms(2-4)
proof (induction ls arbitrary: c rs)
  case Nil
  then show ?case by simp
next
  case (Cons l ls)
  obtain p c1 where p: "handle_line L ops l c = (p, c1)" by (cases "handle_line L ops l c")
  obtain resp where resp: "p = Inr resp" using Cons.prems(3) p by (cases p) simp_all
  obtain u where u: "resp = u @ [nl]" "u \<noteq> []" "nl \<notin> set u" "shown_truth L c1 u"
    using line_answer [OF assms(1) Cons.prems(1) _ p [unfolded resp]] Cons.prems(2) by auto
  obtain q c2 where q: "handle_lines (handle_line L ops) ls c1 = (q, c2)"
    by (cases "handle_lines (handle_line L ops) ls c1")
  obtain rs1 where rs1: "q = Inr rs1" using Cons.prems(3) p resp q by (cases q) simp_all
  then have rs: "rs = resp # rs1" "c2 = c'" using Cons.prems(3) p resp q u(1) by auto
  have "ctrl_reachable ops h (snd (handle_line L ops l c))"
    by (rule reach.table.handler.handle_inv [OF Cons.prems(1)])
  then have "ctrl_reachable ops h c1" using p by simp
  from Cons.IH [OF this, of rs1] Cons.prems(2) q rs1 rs(2) obtain us where
    "rs1 = map (\<lambda>u. u @ [nl]) us" "\<forall>u \<in> set us. u \<noteq> [] \<and> nl \<notin> set u"
    "list_all2 (shown_truth L) (after_lines L ops ls c1) us" by auto
  with u rs(1) p show ?case by (intro exI [of _ "u # us"]) (simp add: Let_def)
qed

text \<open>
  C5: A conversation, from the bytes of the client to what its window is shown. Let the client
  send any requests of its kind, the network cut the bytes in any way, the daemon serve them, and
  the network cut its answers in any way until the connection ends. Then the read thread shows
  one answer for each request, in their order, and each is an error or tells the states of
  relays as the device had them just after that request.
\<close>

theorem conversation_is_truthful:
  assumes "json_laws L" "ctrl_reachable ops h c" "\<forall>l \<in> set (requests (concat cs)). good_line L ops h l"
    and "serve (handle_line L ops) always (map Bytes cs @ [Closed]) new_connection c = (Inr k, c')"
    and "app_controller.m_running a" "isConnected (tcp_ops env (openssl_ops senv cfg)) a" "m_readBuffer (m_client a) = []"
    and "rc = reads env (openssl_ops senv cfg) (m_client a)"
    and "\<forall>i < n. rc (io_calls (m_client a) + i) \<noteq> None" "rc (io_calls (m_client a) + n) = None"
    and "stream rc (io_calls (m_client a)) n = concat (sent k)"
  shows "\<exists>a' us. readLoop L (tcp_ops env (openssl_ops senv cfg)) a = Some a' \<and>
    signals a' = signals a @ concat (map (answers L) us) @
      [Connection_state False, Log ''[System] Connection lost.''] \<and>
    list_all2 (shown_truth L) (after_lines L ops (requests (concat cs)) c) us"
proof -
  have "seen (serve (handle_line L ops) always (map Bytes cs @ [Closed]) new_connection c) =
      also_sent [] (snd (frames (concat cs))) (handle_lines (handle_line L ops) (requests (concat cs)) c)"
    using serve_frames [of "[Closed]" new_connection "handle_line L ops" cs c] by (simp add: new_connection_def)
  then have "handle_lines (handle_line L ops) (requests (concat cs)) c = (Inr (sent k), c')"
    unfolding assms(4) by (cases "handle_lines (handle_line L ops) (requests (concat cs)) c")
      (auto simp: seen_def also_sent_def map_sum_def split: sum.splits)
  from lines_answers [OF assms(1-3) this] obtain us where us: "sent k = map (\<lambda>u. u @ [nl]) us"
      "\<forall>u \<in> set us. u \<noteq> [] \<and> nl \<notin> set u"
      "list_all2 (shown_truth L) (after_lines L ops (requests (concat cs)) c) us" by blast
  have "frames (concat (sent k)) = (us, [])"
    using frames_unique [of us "[]"] us(1,2) by simp
  then have fr: "frames (m_readBuffer (m_client a) @ stream rc (io_calls (m_client a)) n) = (us, [])"
    by (simp add: assms(7,11))
  have all: "takeWhile (\<lambda>l. l \<noteq> []) us = us" using us(2) by (simp add: takeWhile_eq_all_conv)
  from tcp_delivers [OF assms(9,10) [unfolded assms(8)] fr [unfolded assms(8)]]
  obtain d where d: "delivers (tcp_ops env (openssl_ops senv cfg)) (m_client a) us d"
    unfolding all by blast
  have "readLoop L (tcp_ops env (openssl_ops senv cfg)) a = Some (a\<lparr>m_client := d, app_controller.m_running := False,
      m_readThread := Ended, signals := signals a @ concat (map (answers L) us) @ lost_connection\<rparr>)"
    by (rule tcp.readLoop_delivers [OF d assms(5) assms(6) [unfolded isConnected_def]])
  with us(3) show ?thesis by (auto simp: lost_connection_def)
qed

section \<open>An example\<close>

definition switch_reply :: json where
  "switch_reply = makeSuccessResponse (JInt 1)
     (jobj [(''success'', JBool True), (''relay_id'', JInt 2), (''state'', JBool True)])"

definition switch_lib :: json_lib where
  "switch_lib = table_lib [(''q'', set_relay_call 2 True), (''u'', switch_reply), (''v'', JString ''2.0''), (''i'', JInt 1),
     (''o'', field switch_reply ''result'')]"

definition answering_net :: client_env where
  "answering_net = demo_net\<lparr>sock_recv := \<lambda>n fd. [0 \<mapsto> ''u'', 1 \<mapsto> [nl]] n\<rparr>"

lemma switch_lib_laws: "json_laws switch_lib"
  by (simp add: switch_lib_def json_laws_table)

lemma switch_values:
  "distinct [set_relay_call 2 True, switch_reply, JString ''2.0'', JInt 1, field switch_reply ''result'']"
  by code_simp

lemma switch_kinds: "\<not> is_array (set_relay_call 2 True)" "switch_reply \<noteq> JNull"
  by code_simp+

lemma switch_lib_texts:
  "parse switch_lib ''q'' = Inr (set_relay_call 2 True)" "parse switch_lib ''u'' = Inr switch_reply"
  "dump switch_lib (- 1) switch_reply = Inr ''u''" "dump switch_lib (- 1) (field switch_reply ''result'') = Inr ''o''"
  "dump switch_lib (- 1) (JString ''2.0'') = Inr ''v''" "dump switch_lib (- 1) (JInt 1) = Inr ''i''"
  using switch_values by (simp_all add: switch_lib_def table_lib_def)

lemma switch_single:
  assumes "ctrl_reachable sil_ops SilRelayController c"
  shows "processSingleRequest switch_lib (daemon_router switch_lib (base_device sil_ops)) (set_relay_call 2 True) c =
    (Inr switch_reply, snd (setRelay sil_ops 2 True c))"
proof -
  let ?q = "set_relay_call 2 True"
  have q: "valid_request ?q" "field ?q ''method'' = JString ''set_relay''" "contains ?q ''params''"
    "contains (field ?q ''params'') ''relay_id''" "field (field ?q ''params'') ''relay_id'' = JInt 2"
    "contains (field ?q ''params'') ''state''" "field (field ?q ''params'') ''state'' = JBool True"
    "request_id ?q = JInt 1"
    unfolding set_relay_call_def call_fields by (fact call_fields refl set_relay_call_params)+
  show ?thesis
    using conjunct1 [OF set_relay_single [OF switch_lib_laws assms _ _ q(1-7)]]
    by (simp add: q(8) switch_reply_def)
qed

lemma switch_reply_prints: "prints_back switch_lib switch_reply"
proof -
  have fields: "field switch_reply ''jsonrpc'' = JString ''2.0''" "field switch_reply ''id'' = JInt 1"
    by (simp_all add: switch_reply_def makeSuccessResponse_def)
  have "\<exists>u. dump switch_lib (- 1) (field switch_reply k) = Inr u" if "contains switch_reply k" for k
  proof -
    have "k = ''jsonrpc'' \<or> k = ''id'' \<or> k = ''result''"
      using that by (auto simp: switch_reply_def makeSuccessResponse_def)
    then show ?thesis using fields switch_lib_texts by auto
  qed
  then show ?thesis using switch_lib_texts by (simp add: prints_back_def)
qed

lemma switch_good: "good_line switch_lib sil_ops SilRelayController ''q''"
proof -
  show ?thesis
    unfolding good_line_def using switch_kinds(1) switch_lib_texts(1) switch_single switch_reply_prints by auto
qed

lemma switch_served:
  "serve (handle_line switch_lib sil_ops) always (map Bytes [''q'', [nl]] @ [Closed]) new_connection demo =
     (Inr \<lparr>requestBuffer = [], sent = [''u'' @ [nl]], flag_reads = 4\<rparr>, snd (setRelay sil_ops 2 True demo))"
proof -
  have "handle_line switch_lib sil_ops ''q'' demo = (Inr (''u'' @ [nl]), snd (setRelay sil_ops 2 True demo))"
    using switch_lib_texts switch_kinds by (simp add: processRequest_def switch_single [OF demo_reachable] dump_line_def)
  then show ?thesis
    by (simp add: new_connection_def drain.simps answer_def)
qed

theorem conversation_is_truthful_witness:
  "\<exists>a' u. readLoop switch_lib (tcp_ops answering_net demo_ops) demo_connected = Some a' \<and>
     signals a' = [Connection_state True] @ answers switch_lib u @
       [Connection_state False, Log ''[System] Connection lost.''] \<and>
     shown_truth switch_lib (snd (setRelay sil_ops 2 True demo)) u"
proof -
  let ?ops = "tcp_ops answering_net demo_ops" and ?rc = "reads answering_net demo_ops (m_client demo_connected)"
  have lines: "requests (concat [''q'', [nl]]) = [''q'']" by (simp add: requests_def blank_def)
  have good: "\<forall>l \<in> set (requests (concat [''q'', [nl]])). good_line switch_lib sil_ops SilRelayController l"
    by (simp only: lines) (simp add: switch_good)
  have client: "app_controller.m_running demo_connected" "isConnected ?ops demo_connected"
      "m_readBuffer (m_client demo_connected) = []" "io_calls (m_client demo_connected) = 0"
    by (simp_all add: demo_connected_def isConnected_def isOpen_def demo_client_def TcpClient_def)
  have rc: "?rc = (\<lambda>n. [0 \<mapsto> ''u'', 1 \<mapsto> [nl]] n)"
    by (auto simp: fun_eq_iff reads_def read_some_def answering_net_def demo_connected_def demo_client_def TcpClient_def
        split: option.split)
  have stream: "\<forall>i < 2. ?rc (io_calls (m_client demo_connected) + i) \<noteq> None" "?rc (io_calls (m_client demo_connected) + 2) = None"
      "stream ?rc (io_calls (m_client demo_connected)) 2 = concat (sent \<lparr>requestBuffer = [], sent = [''u'' @ [nl]], flag_reads = 4\<rparr>)"
    unfolding rc client(4) by (simp_all add: less_2_cases_iff stream_def upt_rec numeral_2_eq_2)
  have after: "after_lines switch_lib sil_ops [''q''] demo = [snd (setRelay sil_ops 2 True demo)]"
    using switch_lib_texts switch_kinds by (simp add: processRequest_def switch_single [OF demo_reachable] dump_line_def Let_def)
  from conversation_is_truthful [OF switch_lib_laws demo_reachable good switch_served client(1-3) refl stream]
  obtain a' us where "readLoop switch_lib ?ops demo_connected = Some a'"
    "signals a' = signals demo_connected @ concat (map (answers switch_lib) us) @
       [Connection_state False, Log ''[System] Connection lost.'']"
    "list_all2 (shown_truth switch_lib) [snd (setRelay sil_ops 2 True demo)] us"
    unfolding lines after by blast
  then show ?thesis by (auto simp: list_all2_Cons1 demo_connected_def)
qed

end
