(* ===== verification/Spec2Isabelle.thy ===== *)
theory Spec2Isabelle
  imports Prelude Relay_Controller Relay_Timing Relay_Hardware Sil_Relay_Controller
    Gpiod_Relay_Controller Relay_Properties Json Jsonrpc_Router Rpc_Methods Rpc_Properties
    Tcp_Server Server_Threads Pki Daemon_Main Daemon_Run Framing Desk_Constants Desk_Config Desk_Tls Desk_Client Desk_App Desk_Control Desk_Daemon Desk_View
    Desk_Panel Daemon_Requests Relay_Spec Rpc_Types Desk_Truth Desk_Main Desk_Picture Desk_Resources Desk_Poll Conversation
begin

text \<open>
  MiniHIL is a relay board on a Raspberry Pi with a daemon (src/sw/minihil) that serves it over
  TCP and a desktop client (src/sw/minihildesk). This development models both, and the
  protocol between them.

  The daemon. Relay_Controller, Relay_Timing and Relay_Properties are BaseRelayController
  (src/core/base_relay_controller.cc): the record \<open>controller\<close> has its eight relays, \<open>tick\<close> is one
  turn of its worker thread, and every public operation is one definition (the mutex makes each
  one step). Relay_Hardware is the contract of a board, the locale that Sil_Relay_Controller
  (src/sil) and Gpiod_Relay_Controller (src/hardware, over libgpiod) interpret. Json is
  nlohmann::json: values are a datatype, parsing, printing and conversions are the record
  \<open>json_lib\<close> with the laws \<open>json_laws\<close>. Jsonrpc_Router is src/protocol/jsonrpc_router.cc,
  Rpc_Methods the six methods registered in main(), over the locale \<open>device_controller\<close> that
  BaseRelayController interprets; Rpc_Properties holds their properties and Rpc_Types the types
  of their results. Daemon_Requests reads the operations of the controller off a line of a
  client, and Relay_Spec is the abstract board that the controller refines. Tcp_Server is
  start() and the loop of a connection (src/network/tcp_server.cc), Server_Threads its threads:
  the listener, a thread per client and stop() as a step relation on the shared state. Pki is
  generatePki() of src/main.cc over a heap of OpenSSL objects, Daemon_Main the command line
  and the start of the daemon, Daemon_Run the wait of main(), the signal handler and the
  shutdown, as steps that interleave with the threads.

  The desktop client. Desk_Config is ConfigManager (src/config), Desk_Tls the TLS session with
  its mutual TLS configurator, Desk_Client TcpClient (src/network), Desk_App AppController
  (src/app_controller.cc): the requests of the user and the turns of its read thread are the
  steps of \<open>app_step\<close>. Desk_View is the window: the pages of a relay (src/view/pages), RelayWidget
  (src/view/relay_widget.cc), AppHome (src/view/home.cc) with its queues and dispatchers, and
  EntryApplication (src/application.cc); \<open>desktop_step\<close> is what can happen in it and in the read
  thread. Each uses the one below through an interface of the code, which is a record of functions
  and a locale that is interpreted on its model: \<open>tls_session\<close> is ISslSession, \<open>tcp_client_contract\<close>
  ITcpClient, \<open>config_contract\<close> IConfigManager and \<open>app_controller_contract\<close> (Desk_Control)
  IAppController. Desk_Constants has the named constants of these files. Desk_Picture is the tree
  of widgets the constructors of the window put together, Desk_Resources the style sheet that is
  embedded in the program (build/resources.cc), Desk_Main the factories, main() and the life of
  the application up to its destructors. Desk_Daemon puts the two programs
  together, Desk_Panel a switch of the window and its relay, Desk_Poll a poll of all relays, Desk_Truth any answer of the daemon
  and what is shown of it, and Conversation a whole connection, byte by byte. Framing specifies lines in a byte
  stream, for both ends of the connection, and Prelude has exceptions, sorted maps and decimal text.

  What is shown. For the controller: its invariant, exact timing of timers, pulses and blinks,
  also among the requests of other clients, and that it refines an abstract board. For the boards: the states that clients read are the
  levels of the relays, unless a write fails, which nobody is told. For the protocol: one
  well-formed and well-typed reply per request, the error codes, that a connection is served
  line by line, however its bytes are cut, and that a line is the operations it names. For the server: start() and stop() leave nothing behind,
  stop() ends, and the threads keep to their own TLS objects, with the one exception of a
  descriptor that is reused too early, which a run exhibits; a signal leads to the return of
  main(), unless it interrupts the main thread while that holds the mutex. For the client: a
  message is sent whole or reported, lines come out as they are framed, a failed connection leaves nothing, the
  window is told the truth about the connection, offers what works in it and finds its style sheet, showing states asks
  for none, requests of the panels are in their bounds, settings survive a restart, and the
  application can be quit and leaves nothing. End to end: a switch in the window sets that
  relay on the daemon and shows its answer, a poll makes all eight panels show what the daemon
  has, one line with a method that is no string ends the daemon, and over a whole connection the window is shown the states the device had.

  Bounds. Milliseconds, seconds and counts are 32-bit and 64-bit words as in the code. Recursion
  is total, with measures, but for \<open>receive_loop\<close> and \<open>readLoop\<close>, which need not end: their result
  None is a call that never returns, and \<open>receive_line_returns\<close> says when that is. Request ids
  are unbounded here and an int in the code, which more than two thousand million requests
  would overflow; messages are taken to be shorter than an int can say. Relay_Spec compares
  blinks on integers, which is what the 32-bit comparison does below 2 to the 32 milliseconds,
  49 days, of the clock.

  Not modelled. The log lines of the daemon on the console; what a mutex protects is one step.
  A step of a client thread in Server_Threads stands for one read and the handling of all its
  lines, which is \<open>Tcp_Server.serve\<close>. SSL_new is taken to succeed in the listener. One
  signal handler runs at a time. Of GTK the window relies on: setting a property to another
  value emits its signal, a spin button keeps its value in its range, a dispatcher calls
  its handler later on the thread of the window, a stack shows one of its children, and an
  application is started once, activated, and shut down once. The two threads of the client
  use its TLS session at the same time, which is taken to work. Of build/resources.cc the macros
  that make each compiler call its constructor and destructor; GLib finds a file in a bundle as
  the published format of bundles says. The messages of the client on its standard error.
\<close>

section \<open>The daemon end to end\<close>

text \<open>
  Whatever bytes a client sends, however they are cut, whatever they parse to and also when
  handling them ends in an exception, the device stays in a state that its operations reach:
  the invariant of the channels holds, and on the simulated board every reported state is the
  level of its relay.
\<close>

theorem any_client_keeps_device:
  assumes "ctrl_reachable ops h c"
  shows "ctrl_reachable ops h
    (snd (serve (processRequest L (daemon_router L (base_device ops))) flag evs k c))"
  by (rule serve_state [where P = "ctrl_reachable ops h"]) (erule reach.table.handler.handle_inv, rule assms)

theorem any_client_keeps_device_witness:
  "ctrl_reachable sil_ops SilRelayController
    (snd (serve (processRequest (table_lib []) (daemon_router (table_lib []) (base_device sil_ops))) always
       [Bytes ''x'', Bytes [nl], Closed] new_connection demo))"
  by (rule any_client_keeps_device [OF demo_reachable])

text \<open>
  C40: One line ends the daemon. A client that sends a valid JSON-RPC request whose method is not
  a string, on a line of its own, makes the exception of the conversion leave the handling of the
  connection, and so the thread: whatever comes after it, nothing is answered any more.
\<close>

theorem one_line_ends_daemon:
  assumes "json_laws L" "parse L raw = Inr req" "valid_request req" "\<And>t. field req ''method'' \<noteq> JString t"
    and "nl \<notin> set raw" "\<not> blank raw"
  shows "\<exists>w. serve (processRequest L (daemon_router L (base_device ops))) always (Bytes (raw @ [nl]) # evs) new_connection c =
    (Inl (Std_exception w), c)"
proof -
  obtain w where w: "processRequest L (daemon_router L (base_device ops)) raw c = (Inl (Std_exception w), c)"
    using bad_method_escapes [OF assms(1,3,4,2)] by metis
  have "find_char nl (raw @ [nl]) = Some (length raw)" by (rule find_char_append [OF assms(5)])
  then have "drain (processRequest L (daemon_router L (base_device ops))) always
      \<lparr>requestBuffer = raw @ [nl], sent = [], flag_reads = Suc 0\<rparr> c = (Inl (Std_exception w), c)"
    using w assms(6) by (simp add: drain.simps blank_def)
  then show ?thesis by (simp add: new_connection_def)
qed

theorem one_line_ends_daemon_witness:
  "\<exists>w. serve (processRequest (table_lib [(''q'', call_of ''x'' JNull), (''m'', jset ''method'' (JInt 1) (call_of ''x'' JNull))])
       (daemon_router (table_lib [(''q'', call_of ''x'' JNull), (''m'', jset ''method'' (JInt 1) (call_of ''x'' JNull))])
         (base_device sil_ops))) always [Bytes (''m'' @ [nl]), Bytes (''q'' @ [nl])] new_connection demo =
     (Inl (Std_exception w), demo)"
proof (rule one_line_ends_daemon [OF json_laws_table])
  show "parse (table_lib [(''q'', call_of ''x'' JNull), (''m'', jset ''method'' (JInt 1) (call_of ''x'' JNull))]) ''m'' =
      Inr (jset ''method'' (JInt 1) (call_of ''x'' JNull))"
    by (simp add: table_lib_def)
  show "valid_request (jset ''method'' (JInt 1) (call_of ''x'' JNull))"
    using call_fields(1) [of "''x''" JNull] by (simp add: valid_request_def)
  show "field (jset ''method'' (JInt 1) (call_of ''x'' JNull)) ''method'' \<noteq> JString t" for t by simp
qed (simp_all add: blank_def)

end
